(* ===== verification/Prelude.thy ===== *)
theory Prelude
  imports Main "HOL-Library.Word" "HOL-Library.Multiset"
begin

text \<open>
  Shared vocabulary of the development: Go's bytes, slices, panics and error values, the string
  splitting of the standard library that several packages use, and the generic lemmas on lists,
  maps and byte pairs that the component theories share.
\<close>

named_theorems go_simps \<open>evaluation rules for panicking computations\<close>

section \<open>Bytes, panics and errors\<close>

type_synonym byte = "8 word"
type_synonym uint32 = "32 word"
type_synonym uint64 = "64 word"

text \<open>A Go error value is its message; a nil error is \<^const>\<open>None\<close>.\<close>

type_synonym error = string

text \<open>
  What a Go function does when it does not return: the run-time panics the modelled code can
  raise. A function that can panic has the result type \<open>'a go\<close>.
\<close>

datatype go_panic =
    IndexOutOfRange
  | SliceOutOfRange
  | NilDereference
  | BadAssertion
  | ExplicitPanic

datatype 'a go = Ret 'a | Panic go_panic

fun go_bind :: "'a go \<Rightarrow> ('a \<Rightarrow> 'b go) \<Rightarrow> 'b go" where
  "go_bind (Ret x) f = f x"
| "go_bind (Panic p) f = Panic p"

declare go_bind.simps [go_simps]

lemma go_bind_Ret_iff: "go_bind m f = Ret y \<longleftrightarrow> (\<exists>x. m = Ret x \<and> f x = Ret y)"
  by (cases m) auto

lemma go_bind_Panic_iff:
  "go_bind m f = Panic p \<longleftrightarrow> m = Panic p \<or> (\<exists>x. m = Ret x \<and> f x = Panic p)"
  by (cases m) auto

lemma map_go_Ret_iff: "map_go h m = Ret y \<longleftrightarrow> (\<exists>x. m = Ret x \<and> y = h x)"
  by (cases m) auto

lemma go_bind_assoc: "go_bind (go_bind m f) g = go_bind m (\<lambda>x. go_bind (f x) g)"
  by (cases m) auto

text \<open>\<open>s[lo:hi]\<close> on a slice whose capacity is its length.\<close>

definition go_slice :: "'a list \<Rightarrow> nat \<Rightarrow> nat \<Rightarrow> 'a list go" where
  "go_slice xs lo hi =
     (if lo \<le> hi \<and> hi \<le> length xs then Ret (take (hi - lo) (drop lo xs))
      else Panic SliceOutOfRange)"

lemma go_slice_ok: "lo \<le> hi \<Longrightarrow> hi \<le> length xs \<Longrightarrow>
    go_slice xs lo hi = Ret (take (hi - lo) (drop lo xs))"
  by (simp add: go_slice_def)

lemma go_slice_panic: "length xs < hi \<Longrightarrow> go_slice xs lo hi = Panic SliceOutOfRange"
  by (simp add: go_slice_def)

text \<open>The built-in \<open>copy(dst, src)\<close>: the shorter length decides.\<close>

definition go_copy :: "'a list \<Rightarrow> 'a list \<Rightarrow> 'a list" where
  "go_copy dst src = take (length dst) src @ drop (length src) dst"

lemma length_go_copy [simp]: "length (go_copy dst src) = length dst"
  by (simp add: go_copy_def)

text \<open>\<open>[]byte(s)\<close> and \<open>string(b)\<close>.\<close>

definition bytes_of_string :: "string \<Rightarrow> byte list" where
  "bytes_of_string s = map (\<lambda>c. of_nat (of_char c)) s"

definition string_of_bytes :: "byte list \<Rightarrow> string" where
  "string_of_bytes bs = map (\<lambda>b. char_of (unat b)) bs"

lemma length_bytes_of_string [simp]: "length (bytes_of_string s) = length s"
  by (simp add: bytes_of_string_def)

lemma bytes_of_string_eq_Nil [simp]: "bytes_of_string s = [] \<longleftrightarrow> s = []"
  by (simp add: bytes_of_string_def)

lemma length_string_of_bytes [simp]: "length (string_of_bytes bs) = length bs"
  by (simp add: string_of_bytes_def)

lemma string_of_bytes_of_string [simp]: "string_of_bytes (bytes_of_string s) = s"
  by (induction s) (simp_all add: string_of_bytes_def bytes_of_string_def unat_of_nat)

lemma string_of_bytes_append: "string_of_bytes (xs @ ys) = string_of_bytes xs @ string_of_bytes ys"
  by (simp add: string_of_bytes_def)

lemma string_of_bytes_take: "string_of_bytes (take k bs) = take k (string_of_bytes bs)"
  by (simp add: string_of_bytes_def take_map)

section \<open>Numbers in two and three big-endian bytes\<close>

lemma unat_byte: "unat (of_nat n :: byte) = n mod 256"
  by (simp add: unat_of_nat)

lemma of_nat_mod_byte: "(of_nat (n mod 256) :: byte) = of_nat n"
  by (simp add: word_unat_eq_iff unat_byte)

lemma be16_decode: "n < 65536 \<Longrightarrow>
    unat (of_nat (n div 256) :: byte) * 256 + unat (of_nat (n mod 256) :: byte) = n"
  by (simp add: unat_byte)

lemma be24_decode:
  assumes "n < 16777216"
  shows "unat (of_nat (n div 65536 mod 256) :: byte) * 65536
       + unat (of_nat (n div 256 mod 256) :: byte) * 256 + unat (of_nat (n mod 256) :: byte) = n"
proof -
  have "n div 256 div 256 = n div 65536"
    by (simp add: div_mult2_eq [symmetric])
  moreover have "n div 65536 < 256"
    using assms by simp
  moreover have "n = n div 256 * 256 + n mod 256" and
    "n div 256 = n div 256 div 256 * 256 + n div 256 mod 256"
    by simp_all
  ultimately show ?thesis by (simp only: unat_byte mod_mod_trivial mod_less)
qed

lemma byte_bound: "unat (a :: byte) < 256"
  using unsigned_less [of a] by simp

lemma byte_pair_bound: "unat (a :: byte) * 256 + unat (b :: byte) < 65536"
  using byte_bound [of a] byte_bound [of b] by simp

section \<open>Lists\<close>

lemma map_eq_mset_mapE:
  assumes "mset ys = mset (map f xs)"
  obtains zs where "ys = map f zs" and "mset zs = mset xs"
proof -
  have "\<exists>zs. ys = map f zs \<and> mset zs = mset xs"
    using assms
  proof (induction ys arbitrary: xs)
    case Nil
    then show ?case by simp
  next
    case (Cons y ys)
    then have "y \<in> set (map f xs)"
      by (metis list.set_intros(1) set_mset_mset)
    then obtain as x bs where xs: "xs = as @ x # bs" and y: "y = f x"
      by (auto simp: in_set_conv_decomp)
    with Cons.prems have "mset ys = mset (map f (as @ bs))" by simp
    from Cons.IH [OF this] obtain zs where "ys = map f zs" "mset zs = mset (as @ bs)"
      by blast
    then have "y # ys = map f (x # zs)" "mset (x # zs) = mset xs"
      using xs y by simp_all
    then show ?case by metis
  qed
  then show thesis using that by blast
qed

lemma concat_map_replicate_Nil: "concat (map (\<lambda>_. []) xs) = []"
  by (induction xs) simp_all

text \<open>A list cut into \<open>k\<close> pieces of \<open>w\<close> elements and a remainder.\<close>

lemma concat_pieces:
  "concat (map (\<lambda>i. take w (drop (w * i) xs)) [0..<k]) = take (w * k) xs"
proof (induction k)
  case 0
  then show ?case by simp
next
  case (Suc k)
  moreover have "w * Suc k = w * k + w" by simp
  ultimately show ?case by (simp only: upt_Suc_append take_add map_append concat_append) simp
qed

section \<open>Splitting strings\<close>

text \<open>
  \<open>strings.Split(s, sep)\<close> and \<open>bytes.Split\<close> for a separator of one character, which is how
  the code calls them: there is always at least one field, and empty fields are kept.
\<close>

fun split_on :: "'a \<Rightarrow> 'a list \<Rightarrow> 'a list list" where
  "split_on c [] = [[]]"
| "split_on c (x # xs) =
     (if x = c then [] # split_on c xs
      else (case split_on c xs of [] \<Rightarrow> [[x]] | f # fs \<Rightarrow> (x # f) # fs))"

lemma split_on_ne [simp]: "split_on c xs \<noteq> []"
  by (induction xs) (auto split: list.splits)

lemma split_on_plain: "c \<notin> set xs \<Longrightarrow> split_on c xs = [xs]"
  by (induction xs) auto

lemma split_on_append: "c \<notin> set xs \<Longrightarrow> split_on c (xs @ c # ys) = xs # split_on c ys"
  by (induction xs) auto

lemma split_on_fields: "f \<in> set (split_on c xs) \<Longrightarrow> c \<notin> set f"
  by (induction xs arbitrary: f) (auto split: list.splits if_splits)

lemma length_split_on: "length (split_on c xs) = Suc (count_list xs c)"
proof (induction xs)
  case (Cons x xs)
  then show ?case
    by (cases "split_on c xs") (use split_on_ne [of c xs] in auto)
qed simp

text \<open>Joining the fields with the separator gives the string back.\<close>

fun join_on :: "'a \<Rightarrow> 'a list list \<Rightarrow> 'a list" where
  "join_on c [] = []"
| "join_on c [f] = f"
| "join_on c (f # fs) = f @ c # join_on c fs"

lemma join_on_Cons: "fs \<noteq> [] \<Longrightarrow> join_on c (f # fs) = f @ c # join_on c fs"
  by (cases fs) auto

lemma join_split_on [simp]: "join_on c (split_on c xs) = xs"
proof (induction xs)
  case (Cons x xs)
  then show ?case
  proof (cases "split_on c xs")
    case (Cons f fs)
    with Cons.IH show ?thesis
      by (cases fs) (auto simp: join_on_Cons)
  qed simp
qed simp

lemma split_join_on:
  "fs \<noteq> [] \<Longrightarrow> (\<forall>f \<in> set fs. c \<notin> set f) \<Longrightarrow> split_on c (join_on c fs) = fs"
  by (induction c fs rule: join_on.induct) (auto simp: split_on_plain split_on_append)

lemma two_fields: "split_on c xs = [a, b] \<longleftrightarrow> xs = a @ c # b \<and> c \<notin> set a \<and> c \<notin> set b"
proof
  assume s: "split_on c xs = [a, b]"
  have "join_on c (split_on c xs) = xs" by simp
  then have "xs = a @ c # b" unfolding s by simp
  moreover have "c \<notin> set a" "c \<notin> set b"
    using split_on_fields [of a c xs] split_on_fields [of b c xs] by (simp_all add: s)
  ultimately show "xs = a @ c # b \<and> c \<notin> set a \<and> c \<notin> set b" by simp
qed (simp add: split_on_append split_on_plain)

section \<open>Lists of partial results\<close>

lemma append_Cons_single: "xs @ y # ys = [z] \<longleftrightarrow> xs = [] \<and> y = z \<and> ys = []"
  by (cases xs) auto

lemma in_map_filter: "y \<in> set (List.map_filter f xs) \<longleftrightarrow> (\<exists>x \<in> set xs. f x = Some y)"
  by (induction xs) (auto simp: List.map_filter_simps split: option.splits)

section \<open>Invariants of step relations\<close>

text \<open>A property that every step of a program keeps holds in every state that is reached from one where it holds.\<close>

locale step_invariant =
  fixes step :: "'s \<Rightarrow> 's \<Rightarrow> bool" and inv :: "'s \<Rightarrow> bool"
  assumes preserved: "step s s' \<Longrightarrow> inv s \<Longrightarrow> inv s'"
begin

lemma reachable: "step\<^sup>*\<^sup>* s s' \<Longrightarrow> inv s \<Longrightarrow> inv s'"
  by (induction rule: rtranclp_induct) (auto intro: preserved)

end

text \<open>A quantity that no step increases while the property holds.\<close>

locale step_decreasing = step_invariant +
  fixes weight :: "'a \<Rightarrow> nat"
  assumes decreases: "step s s' \<Longrightarrow> inv s \<Longrightarrow> weight s' \<le> weight s"
begin

lemma bounded: "step\<^sup>*\<^sup>* s s' \<Longrightarrow> inv s \<Longrightarrow> weight s' \<le> weight s"
proof (induction rule: rtranclp_induct)
  case (step t u)
  with reachable [OF step(1)] decreases [OF step(2)] show ?case by force
qed simp

end

section \<open>Counters\<close>

lemma word64_succ_above: "n < 2 ^ 64 - 1 \<Longrightarrow> i \<le> n \<Longrightarrow> i < n + 1" for i n :: uint64
  by (auto simp: word_less_nat_alt word_le_nat_alt unat_word_ariths)

lemma word_succ_above: "n < 2 ^ 32 - 1 \<Longrightarrow> i \<le> n \<Longrightarrow> i < n + 1" for i n :: uint32
  by (auto simp: word_less_nat_alt word_le_nat_alt unat_word_ariths)

end
