(* ===== verification/Naming.thy ===== *)
theory Naming
  imports Prelude
begin

text \<open>
  The constants of network/comm/recv.go and network/comm/watch.go, and the functions that take
  an api name \<open>Node.Struct.Function\<close> apart: the three of network/comm/recv.go (prefix \<open>comm_\<close>)
  and the ones of network/rpc/comm.go, with the check of the characters of a name.
\<close>

section \<open>Interface numbers\<close>

definition BUILT_IN_MAX :: nat where "BUILT_IN_MAX = 30"
definition WATCH_IN_MAX :: nat where "WATCH_IN_MAX = 100"
definition BUILT_IN_NAME :: string where "BUILT_IN_NAME = ''builtin''"

definition PingNetwork :: nat where "PingNetwork = 1"
definition DialRegister :: nat where "DialRegister = 2"
definition UpFuncMapList :: nat where "UpFuncMapList = 11"
definition UpNodeConnMsg :: nat where "UpNodeConnMsg = 12"
definition UpServerState :: nat where "UpServerState = 13"
definition UpWatcherList :: nat where "UpWatcherList = 14"

definition Registered :: nat where "Registered = 80"
definition Heartbeats :: nat where "Heartbeats = 81"
definition GetNodeMsg :: nat where "GetNodeMsg = 82"
definition GetFuncMsg :: nat where "GetFuncMsg = 83"
definition GetWatcher :: nat where "GetWatcher = 84"
definition GetApiConn :: nat where "GetApiConn = 85"
definition NewServers :: nat where "NewServers = 86"

definition WatchNodeName :: string where "WatchNodeName = ''WATCHER''"

text \<open>Durations, in milliseconds.\<close>

definition HeartbeatInterval :: int where "HeartbeatInterval = 2000"
definition NodeConnTimeOut :: int where "NodeConnTimeOut = HeartbeatInterval * (-2)"

lemmas builtin_ids = PingNetwork_def DialRegister_def UpFuncMapList_def UpNodeConnMsg_def
  UpServerState_def UpWatcherList_def BUILT_IN_MAX_def WATCH_IN_MAX_def

lemmas watch_ids = Registered_def Heartbeats_def GetNodeMsg_def GetFuncMsg_def GetWatcher_def
  GetApiConn_def NewServers_def

section \<open>network/comm/recv.go\<close>

definition comm_SplitServName :: "string \<Rightarrow> string" where
  "comm_SplitServName name =
     (let rows = split_on CHR ''.'' name in
      if length rows = 1 then name
      else if length rows = 2 then rows ! 0
      else if length rows = 3 then rows ! 1
      else [])"

definition comm_SplitFuncName :: "string \<Rightarrow> string" where
  "comm_SplitFuncName name =
     (let rows = split_on CHR ''.'' name in
      if length rows = 1 then name
      else if length rows = 2 then rows ! 1
      else if length rows = 3 then rows ! 2
      else [])"

definition comm_SplitApiName :: "string \<Rightarrow> string \<times> string" where
  "comm_SplitApiName name =
     (let rows = split_on CHR ''.'' name in
      if length rows = 2 then (rows ! 0, rows ! 1)
      else if length rows = 3 then (rows ! 1, rows ! 2)
      else ([], []))"

section \<open>network/rpc/comm.go\<close>

fun IsExportedName :: "string \<Rightarrow> error option" where
  "IsExportedName [] = None"
| "IsExportedName (c # cs) =
     (let n = (of_char c :: nat) in
      if n \<ge> 48 \<and> n \<le> 58 then IsExportedName cs
      else if n = 45 \<or> n = 95 then IsExportedName cs
      else if n \<ge> 65 \<and> n \<le> 90 then IsExportedName cs
      else if n \<ge> 97 \<and> n \<le> 122 then IsExportedName cs
      else Some ''have illegal characters'')"

definition SplitServerName :: "string \<Rightarrow> string \<times> string \<times> string" where
  "SplitServerName name =
     (let rows = split_on CHR ''.'' name in
      if length rows = 3 then (rows ! 0, rows ! 1, rows ! 2)
      else if length rows = 2 then ([], rows ! 0, rows ! 1)
      else ([], [], []))"

definition SplitApiName :: "string \<Rightarrow> string \<times> string" where
  "SplitApiName name =
     (let rows = split_on CHR ''.'' name in
      if length rows = 3 then (rows ! 0, rows ! 1 @ ''.'' @ rows ! 2)
      else if length rows = 2 then ([], name)
      else ([], []))"

definition SplitServName :: "string \<Rightarrow> string" where
  "SplitServName name =
     (let rows = split_on CHR ''.'' name in
      if length rows = 2 then rows ! 0
      else if length rows = 3 then rows ! 1
      else name)"

lemmas name_splitters = comm_SplitServName_def comm_SplitFuncName_def comm_SplitApiName_def
  SplitServerName_def SplitApiName_def SplitServName_def

section \<open>Lemmas\<close>

text \<open>A name part is any string without a dot.\<close>

abbreviation dotless :: "string \<Rightarrow> bool" where
  "dotless s \<equiv> CHR ''.'' \<notin> set s"

lemma split_two: "dotless s \<Longrightarrow> dotless f \<Longrightarrow> split_on CHR ''.'' (s @ ''.'' @ f) = [s, f]"
  by (simp add: split_on_append split_on_plain)

lemma split_three: "dotless n \<Longrightarrow> dotless s \<Longrightarrow> dotless f \<Longrightarrow>
    split_on CHR ''.'' (n @ ''.'' @ s @ ''.'' @ f) = [n, s, f]"
  by (simp add: split_on_append split_on_plain)

text \<open>
  The fields of any name, by their number: this is the case split the proofs about the
  splitters share.
\<close>

lemma name_cases:
  obtains (one) "dotless name" "split_on CHR ''.'' name = [name]"
  | (two) s f where "dotless s" "dotless f" "name = s @ ''.'' @ f"
      "split_on CHR ''.'' name = [s, f]"
  | (three) n s f where "dotless n" "dotless s" "dotless f" "name = n @ ''.'' @ s @ ''.'' @ f"
      "split_on CHR ''.'' name = [n, s, f]"
  | (many) "4 \<le> length (split_on CHR ''.'' name)"
proof -
  let ?rows = "split_on CHR ''.'' name"
  have join: "join_on CHR ''.'' ?rows = name" by simp
  have plain: "\<forall>f \<in> set ?rows. dotless f" by (auto dest: split_on_fields)
  consider a where "?rows = [a]" | a b where "?rows = [a, b]" | a b c where "?rows = [a, b, c]"
    | "4 \<le> length ?rows"
    using split_on_ne [of "CHR ''.''" name]
    by (cases ?rows rule: remdups_adj.cases; cases "tl (tl ?rows)"; cases "tl (tl (tl ?rows))") auto
  then show thesis
  proof cases
    case 1 with join plain one show ?thesis by auto
  next
    case 2 with join plain two show ?thesis by auto
  next
    case 3 with join plain three show ?thesis by auto
  next
    case 4 with many show ?thesis by blast
  qed
qed

lemma IsExportedName_iff:
  "IsExportedName s = None \<longleftrightarrow>
     (\<forall>c \<in> set s. let n = (of_char c :: nat) in
        n \<in> {45, 95} \<union> {48..58} \<union> {65..90} \<union> {97..122})"
  by (induction s) (auto simp: Let_def)

lemma IsExportedName_dotless: "IsExportedName s = None \<Longrightarrow> dotless s"
  by (force simp: IsExportedName_iff Let_def)

end
