(* ===== verification/Pb.thy ===== *)
theory Pb
  imports Naming
begin

text \<open>
  The messages of network/pb: the Go structs that protoc generates from node.proto and
  watch.proto, without the bookkeeping fields of the protobuf runtime. A pointer to a message that
  may be nil is an option; a slice of message pointers, which the program never fills with nil, is a
  list. An enumeration is open, as in proto3: a number without a name is kept.
\<close>

section \<open>Enumerations\<close>

datatype Compiler = PROTO | JSON | JSONPB | Compiler_unknown int

datatype ApiType = Send | Call | Multi | ApiType_unknown int

section \<open>Messages\<close>

record FuncApi =
  fa_ID :: uint32
  fa_Name :: string
  fa_Type :: ApiType
  fa_Kind :: Compiler

record FuncMsg =
  fmsg_FuncID :: uint32
  fmsg_ApiName :: string
  fmsg_ServName :: string
  fmsg_FuncName :: string
  fmsg_ApiType :: ApiType
  fmsg_Protocal :: Compiler

record NodeInfo =
  ni_Pid :: uint64
  ni_Ver :: string
  ni_Uuid :: string
  ni_Name :: string
  ni_Main :: bool
  ni_Host :: string
  ni_Tport :: uint64
  ni_Uport :: uint64
  ni_Hport :: uint64
  ni_Funcs :: "FuncApi list"

record SystemStatus =
  ss_Uuid :: string
  ss_CpuRate :: uint64
  ss_MemFree :: uint64
  ss_MemUsed :: uint64
  ss_ConnNum :: uint64

record MultiBody =
  mb_Count :: uint32
  mb_Data :: "byte list list"

record SendRsp =
  sr_Uuid :: string
  sr_Network :: string
  sr_Success :: bool
  sr_Message :: string

record RegisteredRsp =
  rr_Watch :: "NodeInfo list"
  rr_Funcs :: "FuncApi list"

record GetFuncMsgRsp =
  gf_Func :: "FuncApi option"
  gf_List :: "FuncApi list"

record GetNodeMsgRsp =
  gn_Data :: "NodeInfo option"
  gn_List :: "NodeInfo list"

record GetApiConnRsp =
  ga_Func :: "FuncMsg option"
  ga_List :: "NodeInfo list"

text \<open>The zero values that \<open>&pb.X{}\<close> gives.\<close>

definition FuncApi_zero :: FuncApi where
  "FuncApi_zero = \<lparr>fa_ID = 0, fa_Name = [], fa_Type = Send, fa_Kind = PROTO\<rparr>"

definition FuncMsg_zero :: FuncMsg where
  "FuncMsg_zero = \<lparr>fmsg_FuncID = 0, fmsg_ApiName = [], fmsg_ServName = [], fmsg_FuncName = [],
     fmsg_ApiType = Send, fmsg_Protocal = PROTO\<rparr>"

definition NodeInfo_zero :: NodeInfo where
  "NodeInfo_zero = \<lparr>ni_Pid = 0, ni_Ver = [], ni_Uuid = [], ni_Name = [], ni_Main = False,
     ni_Host = [], ni_Tport = 0, ni_Uport = 0, ni_Hport = 0, ni_Funcs = []\<rparr>"

text \<open>The getters used on pointers that may be nil.\<close>

definition GetFuncID :: "FuncMsg option \<Rightarrow> uint32" where
  "GetFuncID x = (case x of Some m \<Rightarrow> fmsg_FuncID m | None \<Rightarrow> 0)"

definition GetApiName :: "FuncMsg option \<Rightarrow> string" where
  "GetApiName x = (case x of Some m \<Rightarrow> fmsg_ApiName m | None \<Rightarrow> [])"

end
