(* ===== verification/Numerals.thy ===== *)
theory Numerals
  imports Prelude
begin

text \<open>
  Decimal numbers: \<open>strconv.ParseUint\<close>, \<open>strconv.Atoi\<close> and \<open>strconv.ParseInt\<close> for unsigned digits, the \<open>%d\<close> of
  \<open>fmt\<close>, and that reading a number undoes printing it.
\<close>

section \<open>Reading\<close>

definition is_digit :: "char \<Rightarrow> bool" where
  "is_digit c = (let n = (of_char c :: nat) in 48 \<le> n \<and> n \<le> 57)"

definition digit_value :: "char \<Rightarrow> nat" where
  "digit_value c = of_char c - 48"

definition parse_digits :: "string \<Rightarrow> nat option" where
  "parse_digits s =
     (if s \<noteq> [] \<and> list_all is_digit s
      then Some (foldl (\<lambda>a c. 10 * a + digit_value c) 0 s) else None)"

text \<open>\<open>strconv.ParseUint(s, 10, 64)\<close> and \<open>strconv.Atoi\<close>; \<open>perr\<close> gives the text of their errors.\<close>

definition ParseUint :: "(string \<Rightarrow> error) \<Rightarrow> string \<Rightarrow> error + nat" where
  "ParseUint perr s =
     (case parse_digits s of
        Some n \<Rightarrow> if n < 2 ^ 64 then Inr n else Inl (perr s)
      | None \<Rightarrow> Inl (perr s))"

definition Atoi :: "(string \<Rightarrow> error) \<Rightarrow> string \<Rightarrow> error + int" where
  "Atoi perr s =
     (let neg = (s \<noteq> [] \<and> hd s = CHR ''-'');
          body = (if s \<noteq> [] \<and> (hd s = CHR ''-'' \<or> hd s = CHR ''+'') then tl s else s)
      in case parse_digits body of
           Some n \<Rightarrow>
             if neg then (if n \<le> 2 ^ 63 then Inr (- int n) else Inl (perr s))
             else (if n < 2 ^ 63 then Inr (int n) else Inl (perr s))
         | None \<Rightarrow> Inl (perr s))"

text \<open>\<open>strconv.ParseInt(s, 10, 64)\<close> for digits, of which the caller ignores the error: the largest number stands for
  all that do not fit, and 0 for no number at all.\<close>

definition ParseInt_digits :: "string \<Rightarrow> int" where
  "ParseInt_digits s = (case parse_digits s of Some n \<Rightarrow> min (int n) (2 ^ 63 - 1) | None \<Rightarrow> 0)"

section \<open>Printing\<close>

fun show_nat :: "nat \<Rightarrow> string" where
  "show_nat n = (if n < 10 then [char_of (48 + n)] else show_nat (n div 10) @ [char_of (48 + n mod 10)])"

declare show_nat.simps [simp del]

section \<open>Reading undoes printing\<close>

lemma is_digit_char: "k < 10 \<Longrightarrow> is_digit (char_of (48 + k))" for k :: nat
  by (simp add: is_digit_def Let_def)

lemma digit_value_char: "k < 10 \<Longrightarrow> digit_value (char_of (48 + k)) = k" for k :: nat
  by (simp add: digit_value_def)

lemma show_nat_ne [simp]: "show_nat n \<noteq> []"
  by (subst show_nat.simps) simp

lemma show_nat_digits [simp]: "list_all is_digit (show_nat n)"
proof (induction n rule: show_nat.induct)
  case (1 n)
  then show ?case
    by (subst show_nat.simps) (simp add: is_digit_char del: One_nat_def)
qed

lemma show_nat_no: "\<not> is_digit c \<Longrightarrow> c \<notin> set (show_nat n)"
  using show_nat_digits [of n] by (auto simp: list_all_iff)

lemma digits_value: "foldl (\<lambda>a c. 10 * a + digit_value c) 0 (show_nat n) = n"
proof (induction n rule: show_nat.induct)
  case (1 n)
  then show ?case
    by (subst show_nat.simps) (simp add: digit_value_char)
qed

lemma parse_show [simp]: "parse_digits (show_nat n) = Some n"
  by (simp add: parse_digits_def digits_value)

lemma sign_no_digit: "\<not> is_digit (CHR ''-'')" "\<not> is_digit (CHR ''+'')"
  by (simp_all add: is_digit_def)

lemma Atoi_show: "n < 2 ^ 63 \<Longrightarrow> Atoi perr (show_nat n) = Inr (int n)"
proof -
  assume "n < 2 ^ 63"
  moreover have "hd (show_nat n) \<in> set (show_nat n)" by simp
  then have "hd (show_nat n) \<noteq> CHR ''-''" "hd (show_nat n) \<noteq> CHR ''+''"
    using show_nat_no [OF sign_no_digit(1)] show_nat_no [OF sign_no_digit(2)] by metis+
  ultimately show ?thesis by (simp add: Atoi_def)
qed

lemma ParseInt_show: "ParseInt_digits (show_nat n) = min (int n) (2 ^ 63 - 1)"
  by (simp add: ParseInt_digits_def)

lemma digits_no_colon: "parse_digits s = Some n \<Longrightarrow> CHR '':'' \<notin> set s"
  by (auto simp: parse_digits_def list_all_iff is_digit_def split: if_splits)

lemma ParseUint_Inr: "ParseUint perr s = Inr n \<longleftrightarrow> parse_digits s = Some n \<and> n < 2 ^ 64"
  by (auto simp: ParseUint_def split: option.splits if_splits)

end
