(* ===== verification/Service.thy ===== *)
theory Service
  imports Pb Numerals
begin

text \<open>
  Services of a node: the choice of the marshalling library (rpc/protocal.go), the registration of a
  struct's methods and their calls (rpc/service.go), and the HTTP side of a service and of its
  client (rpc/http.go).

  Go values other than the messages of package pb belong to the user's code and stay abstract: a type
  variable. So do the protobuf and JSON libraries, a record of functions (\<open>codec\<close>) that every
  definition takes, and the body of a registered method, the function \<open>exec\<close>; it may panic. What
  reflection tells about a method is the record \<open>Method\<close>: its name, the kinds of its parameters with
  the receiver first, and its results. That decoding undoes encoding, on which clients and
  servers rely, is the hypothesis \<open>faithful_codec\<close> of the properties that need it.
\<close>

section \<open>Reflection\<close>

datatype Kind = Ptr | Interface | OtherKind string

primrec Kind_string :: "Kind \<Rightarrow> string" where
  "Kind_string Ptr = ''ptr''"
| "Kind_string Interface = ''interface''"
| "Kind_string (OtherKind s) = s"

text \<open>A type: its kind, and whether its values implement \<open>proto.Message\<close>.\<close>

record gotype =
  gt_kind :: Kind
  gt_message :: bool
  gt_name :: string

datatype OutType = TypeOfError | OtherOut string

record Method =
  me_Name :: string
  me_In :: "gotype list"
  me_Out :: "OutType list"

record ServerFunc =
  sf_method :: Method
  sf_fname :: string
  sf_api :: ApiType
  sf_req :: "gotype option"
  sf_rsp :: "gotype option"
  sf_args :: "gotype list"

record Server =
  sv_proto :: Compiler
  sv_sname :: string
  sv_funcs :: "string \<rightharpoonup> ServerFunc"

section \<open>Parsing methods\<close>

definition CheckProtocal :: "string \<Rightarrow> Compiler \<times> bool" where
  "CheckProtocal str =
     (if str = ''Compiler_JSON'' then (JSON, True)
      else if str = ''Compiler_JSONPB'' then (JSONPB, True)
      else if str = ''Compiler_PROTO'' then (PROTO, True)
      else (PROTO, False))"

definition indirect :: "gotype \<Rightarrow> bool" where
  "indirect t \<longleftrightarrow> gt_kind t = Ptr \<or> gt_kind t = Interface"

definition kind_error :: "string \<Rightarrow> gotype \<Rightarrow> error" where
  "kind_error what t = ''method '' @ what @ '' in Kind: '' @ Kind_string (gt_kind t) @ '' not ptr or interface''"

text \<open>
  The loop over the arguments of a method with more than two. The error text asks for the kind of
  \<open>s.req\<close>, which such a method never sets: a nil interface, so the code panics.
\<close>

fun parse_args :: "gotype list \<Rightarrow> gotype list go" where
  "parse_args [] = Ret []"
| "parse_args (t # ts) =
     (if \<not> indirect t then Panic NilDereference
      else go_bind (parse_args ts) (\<lambda>rs. Ret (t # rs)))"

definition parse_in :: "ServerFunc \<Rightarrow> (error option \<times> ServerFunc) go" where
  "parse_in s =
     (let ins = me_In (sf_method s); n = length ins in
      if n = 0 \<or> n = 1 then
        Ret (Some (''method NumIn: '' @ show_nat n @ '' parse was wrong''), s)
      else if n = 2 then
        let s = s\<lparr>sf_req := Some (ins ! 1), sf_api := Send\<rparr>
        in if \<not> indirect (ins ! 1) then Ret (Some (kind_error ''request'' (ins ! 1)), s)
           else Ret (None, s)
      else if n = 3 then
        let s = s\<lparr>sf_req := Some (ins ! 1), sf_rsp := Some (ins ! 2), sf_api := Call\<rparr>
        in if \<not> indirect (ins ! 1) then Ret (Some (kind_error ''request'' (ins ! 1)), s)
           else if \<not> indirect (ins ! 2) then Ret (Some (kind_error ''response'' (ins ! 2)), s)
           else Ret (None, s)
      else
        go_bind (parse_args (butlast (tl ins))) (\<lambda>args.
          let s = s\<lparr>sf_args := sf_args s @ args, sf_rsp := Some (last ins), sf_api := Multi\<rparr>
          in if \<not> indirect (last ins) then Ret (Some (kind_error ''response'' (last ins)), s)
             else Ret (None, s)))"

definition parseMethodsNumIn :: "ServerFunc \<Rightarrow> (error option \<times> ServerFunc) go" where
  "parseMethodsNumIn s =
     go_bind (parse_in s) (\<lambda>(err, s).
       case err of
         Some e \<Rightarrow> Ret (Some e, s)
       | None \<Rightarrow>
           (case me_Out (sf_method s) of
              [TypeOfError] \<Rightarrow> Ret (None, s)
            | [OtherOut t] \<Rightarrow>
                Ret (Some (''rpc.Register: return type of method '' @ sf_fname s @ '' is '' @ t
                           @ '', must be error''), s)
            | outs \<Rightarrow>
                Ret (Some (''rpc.Register: method '' @ sf_fname s @ '' has '' @ show_nat (length outs)
                           @ '' output parameters; needs exactly one''), s)))"

definition new_func :: "Method \<Rightarrow> ServerFunc" where
  "new_func m = \<lparr>sf_method = m, sf_fname = me_Name m, sf_api = Send, sf_req = None, sf_rsp = None,
     sf_args = []\<rparr>"

definition checkCompilerProtocal :: "string \<Rightarrow> Server \<Rightarrow> bool \<times> Server" where
  "checkCompilerProtocal protocal s =
     (case CheckProtocal protocal of
        (p, True) \<Rightarrow> (True, s\<lparr>sv_proto := p\<rparr>)
      | (p, False) \<Rightarrow> (False, s))"

text \<open>The methods of the struct in the order of reflection.\<close>

fun parseFunc :: "Method list \<Rightarrow> Server \<Rightarrow> (error option \<times> Server) go" where
  "parseFunc [] s = Ret (None, s)"
| "parseFunc (m # ms) s =
     (case checkCompilerProtocal (me_Name m) s of
        (True, s) \<Rightarrow> parseFunc ms s
      | (False, s) \<Rightarrow>
          go_bind (parseMethodsNumIn (new_func m)) (\<lambda>(err, tmp).
            case err of
              Some e \<Rightarrow> Ret (Some e, s)
            | None \<Rightarrow> parseFunc ms (s\<lparr>sv_funcs := (sv_funcs s)(sf_fname tmp \<mapsto> tmp)\<rparr>)))"

lemma parseFunc_Cons [simp]:
  "parseFunc (m # ms) s =
     (case CheckProtocal (me_Name m) of
        (protocal, True) \<Rightarrow> parseFunc ms (s\<lparr>sv_proto := protocal\<rparr>)
      | (protocal, False) \<Rightarrow>
          go_bind (parseMethodsNumIn (new_func m)) (\<lambda>(err, tmp).
            case err of
              Some e \<Rightarrow> Ret (Some e, s)
            | None \<Rightarrow> parseFunc ms (s\<lparr>sv_funcs := (sv_funcs s)(sf_fname tmp \<mapsto> tmp)\<rparr>)))"
  by (simp add: checkCompilerProtocal_def split: prod.split bool.split)

declare parseFunc.simps(2) [simp del]

section \<open>Registration\<close>

text \<open>The part of \<open>NodeDetail\<close> that services use; \<open>hlist\<close> keeps the server and method of a path.\<close>

record NodeBase =
  nd_info :: NodeInfo
  nd_funcs :: "string \<rightharpoonup> Server"
  nd_hlist :: "string \<rightharpoonup> Server \<times> ServerFunc"

definition httpCall :: "string \<Rightarrow> Server \<Rightarrow> ServerFunc \<Rightarrow> 'a NodeBase_scheme \<Rightarrow> 'a NodeBase_scheme" where
  "httpCall name s f n =
     (if sf_api f = Multi then n else n\<lparr>nd_hlist := (nd_hlist n)(name \<mapsto> (s, f))\<rparr>)"

text \<open>The loop over the map of functions, in the order \<open>names\<close> of its keys.\<close>

fun publish :: "Server \<Rightarrow> string list \<Rightarrow> 'a NodeBase_scheme \<Rightarrow> 'a NodeBase_scheme" where
  "publish server [] n = n"
| "publish server (k # ks) n =
     (case sv_funcs server k of
        None \<Rightarrow> publish server ks n
      | Some s \<Rightarrow>
          let name = sv_sname server @ ''.'' @ sf_fname s;
              n = n\<lparr>nd_info := (nd_info n)\<lparr>ni_Funcs := ni_Funcs (nd_info n) @
                    [\<lparr>fa_ID = 0, fa_Name = name, fa_Type = sf_api s, fa_Kind = sv_proto server\<rparr>]\<rparr>\<rparr>
          in publish server ks (if ni_Hport (nd_info n) \<noteq> 0 then httpCall name server s n else n))"

definition Register ::
    "string list \<Rightarrow> string \<Rightarrow> Method list \<Rightarrow> 'a NodeBase_scheme \<Rightarrow> (error option \<times> 'a NodeBase_scheme) go"
where
  "Register order sname ms n =
     go_bind (parseFunc ms \<lparr>sv_proto = PROTO, sv_sname = sname, sv_funcs = Map.empty\<rparr>) (\<lambda>(err, server).
       case err of
         Some e \<Rightarrow> Ret (Some e, n)
       | None \<Rightarrow> Ret (None, publish server order (n\<lparr>nd_funcs := (nd_funcs n)(sname \<mapsto> server)\<rparr>)))"

section \<open>Marshalling\<close>

text \<open>The three libraries; the type tells which Go type a value is decoded into.\<close>

record 'v codec =
  cd_message :: "'v \<Rightarrow> bool"
  cd_proto_decode :: "gotype \<Rightarrow> byte list \<Rightarrow> error + 'v"
  cd_json_decode :: "gotype \<Rightarrow> byte list \<Rightarrow> error + 'v"
  cd_protojson_decode :: "gotype \<Rightarrow> byte list \<Rightarrow> error + 'v"
  cd_proto_encode :: "'v \<Rightarrow> error + byte list"
  cd_json_encode :: "'v \<Rightarrow> error + byte list"

text \<open>
  \<open>UnmarshalValue\<close> makes a value of the type that \<open>argv\<close> points to; \<open>Elem\<close> of an interface type
  panics.
\<close>

definition UnmarshalValue :: "'v codec \<Rightarrow> Compiler \<Rightarrow> gotype \<Rightarrow> byte list \<Rightarrow> (error + 'v) go" where
  "UnmarshalValue cd protocal argv data =
     (if gt_kind argv \<noteq> Ptr then Panic ExplicitPanic
      else Ret (case protocal of
          PROTO \<Rightarrow> if gt_message argv then cd_proto_decode cd argv data
                   else Inl ''not implement proto.Message''
        | JSON \<Rightarrow> cd_json_decode cd argv data
        | JSONPB \<Rightarrow> if gt_message argv then cd_protojson_decode cd argv data
                    else Inl ''not implement proto.Message''
        | Compiler_unknown i \<Rightarrow> Inl ''undefind compiler protocal''))"

definition MarshalValue :: "'v codec \<Rightarrow> Compiler \<Rightarrow> 'v \<Rightarrow> error + byte list" where
  "MarshalValue cd protocal data =
     (case protocal of
        JSON \<Rightarrow> cd_json_encode cd data
      | Compiler_unknown i \<Rightarrow> Inl ''undefind compiler protocal''
      | _ \<Rightarrow> if cd_message cd data then cd_proto_encode cd data
             else Inl ''marsha1 response value wrong'')"

text \<open>\<open>UnmarshalInterface\<close> decodes into a value that the caller gives; here, its type.\<close>

definition UnmarshalInterface :: "'v codec \<Rightarrow> Compiler \<Rightarrow> gotype \<Rightarrow> byte list \<Rightarrow> error + 'v" where
  "UnmarshalInterface cd protocal argv data =
     (if gt_kind argv \<noteq> Ptr then Inl ''rsp interface not ptr''
      else (case protocal of
          PROTO \<Rightarrow> if gt_message argv then cd_proto_decode cd argv data
                   else Inl ''not implement proto.Message''
        | JSON \<Rightarrow> cd_json_decode cd argv data
        | JSONPB \<Rightarrow> if gt_message argv then cd_protojson_decode cd argv data
                    else Inl ''not implement proto.Message''
        | Compiler_unknown i \<Rightarrow> Inl ''undefind compiler protocal''))"

definition MarshalInterface :: "'v codec \<Rightarrow> Compiler \<Rightarrow> 'v \<Rightarrow> error + byte list" where
  "MarshalInterface cd protocal data =
     (case protocal of
        JSON \<Rightarrow> cd_json_encode cd data
      | Compiler_unknown i \<Rightarrow> Inl ''undefind compiler protocal''
      | _ \<Rightarrow> if cd_message cd data then cd_proto_encode cd data
             else Inl ''marsha1 response value wrong'')"

section \<open>Calling methods\<close>

text \<open>
  What is passed to a method: the struct itself, or a value. \<open>exec\<close> is the body of the method, with
  the fresh response value among its arguments; it gives the error and the response. \<open>zero\<close> is
  \<open>reflect.New\<close> of a response type.
\<close>

datatype 'v argument = Receiver | Arg 'v

type_synonym 'v methods = "string \<Rightarrow> Method \<Rightarrow> 'v argument list \<Rightarrow> (error option \<times> 'v) go"

text \<open>\<open>reflect.Value.Call\<close> panics when the number of arguments is wrong.\<close>

definition reflect_call :: "'v methods \<Rightarrow> string \<Rightarrow> ServerFunc \<Rightarrow> 'v argument list \<Rightarrow> (error option \<times> 'v) go"
where
  "reflect_call exec sname f args =
     (if length args \<noteq> length (me_In (sf_method f)) then Panic ExplicitPanic
      else exec sname (sf_method f) args)"

definition ValueMulti :: "'v methods \<Rightarrow> string \<Rightarrow> ServerFunc \<Rightarrow> 'v argument list \<Rightarrow> (error option \<times> 'v) go"
where
  "ValueMulti exec sname f args =
     go_bind (reflect_call exec sname f args) (\<lambda>(err, v).
       Ret (if length (me_Out (sf_method f)) \<noteq> 1 then Some ''call result value length wrong'' else err, v))"

definition ValueSend :: "'v methods \<Rightarrow> string \<Rightarrow> ServerFunc \<Rightarrow> 'v \<Rightarrow> (error option \<times> 'v) go" where
  "ValueSend exec sname f req = ValueMulti exec sname f [Receiver, Arg req]"

definition ValueCall :: "'v methods \<Rightarrow> string \<Rightarrow> ServerFunc \<Rightarrow> 'v \<Rightarrow> 'v \<Rightarrow> (error option \<times> 'v) go" where
  "ValueCall exec sname f req rsp = ValueMulti exec sname f [Receiver, Arg req, Arg rsp]"

definition LocalSend :: "'v methods \<Rightarrow> string \<Rightarrow> ServerFunc \<Rightarrow> 'v \<Rightarrow> (error option \<times> 'v) go" where
  "LocalSend exec sname f req =
     go_bind (reflect_call exec sname f [Receiver, Arg req]) (\<lambda>(err, v).
       Ret (if length (me_Out (sf_method f)) \<noteq> 1 then Some ''call result value length wrong'' else err, v))"

definition LocalCall :: "'v methods \<Rightarrow> string \<Rightarrow> ServerFunc \<Rightarrow> 'v \<Rightarrow> 'v \<Rightarrow> (error option \<times> 'v) go" where
  "LocalCall exec sname f req rsp =
     go_bind (reflect_call exec sname f [Receiver, Arg req, Arg rsp]) (\<lambda>(err, v).
       Ret (if length (me_Out (sf_method f)) \<noteq> 1 then Some ''call result value length wrong'' else err, v))"

text \<open>\<open>LocalMulti\<close> loops over the slice it has just made, not over its arguments.\<close>

definition LocalMulti :: "'v methods \<Rightarrow> string \<Rightarrow> ServerFunc \<Rightarrow> 'v list \<Rightarrow> (error option \<times> 'v) go" where
  "LocalMulti exec sname f args =
     (let rows = [Receiver]; rows = rows @ rows
      in go_bind (reflect_call exec sname f rows) (\<lambda>(err, v).
           Ret (if length (me_Out (sf_method f)) \<noteq> 1 then Some ''call result value length wrong'' else err, v)))"

section \<open>Serving a request\<close>

text \<open>\<open>reflect.New(t.Elem())\<close>, which panics for an interface type, and for a missing one.\<close>

definition reflect_new :: "(gotype \<Rightarrow> 'v) \<Rightarrow> gotype option \<Rightarrow> 'v go" where
  "reflect_new zero t =
     (case t of
        None \<Rightarrow> Panic NilDereference
      | Some t \<Rightarrow> if gt_kind t = Ptr then Ret (zero t) else Panic ExplicitPanic)"

definition unmarshal_req :: "'v codec \<Rightarrow> Compiler \<Rightarrow> gotype option \<Rightarrow> byte list \<Rightarrow> (error + 'v) go" where
  "unmarshal_req cd p t bts =
     (case t of None \<Rightarrow> Panic NilDereference | Some t \<Rightarrow> UnmarshalValue cd p t bts)"

text \<open>The loop over the arguments of a multi-argument method.\<close>

fun unmarshal_args :: "'v codec \<Rightarrow> Compiler \<Rightarrow> gotype list \<Rightarrow> byte list list \<Rightarrow> (error + 'v list) go" where
  "unmarshal_args cd p [] ds = Ret (Inr [])"
| "unmarshal_args cd p (t # ts) [] = Panic IndexOutOfRange"
| "unmarshal_args cd p (t # ts) (d # ds) =
     go_bind (UnmarshalValue cd p t d) (\<lambda>r.
       case r of
         Inl e \<Rightarrow> Ret (Inl e)
       | Inr v \<Rightarrow> go_bind (unmarshal_args cd p ts ds) (\<lambda>r.
           Ret (case r of Inl e \<Rightarrow> Inl e | Inr vs \<Rightarrow> Inr (v # vs))))"

definition reply :: "error + byte list \<Rightarrow> byte list \<times> error option" where
  "reply r = (case r of Inl e \<Rightarrow> ([], Some e) | Inr b \<Rightarrow> (b, None))"

text \<open>The decoder of \<open>pb.MultiBody\<close> is the protobuf library's, \<open>multi\<close>.\<close>

definition findCall ::
    "'v codec \<Rightarrow> (byte list \<Rightarrow> error + MultiBody) \<Rightarrow> (gotype \<Rightarrow> 'v) \<Rightarrow> 'v methods \<Rightarrow> 'a NodeBase_scheme
     \<Rightarrow> FuncMsg \<Rightarrow> byte list \<Rightarrow> (byte list \<times> error option) go"
where
  "findCall cd multi zero exec n fmsg bts =
     (case nd_funcs n (fmsg_ServName fmsg) of
        None \<Rightarrow> Ret ([], Some (''not found server: '' @ fmsg_ServName fmsg @ '' by local''))
      | Some s \<Rightarrow>
          (case sv_funcs s (fmsg_FuncName fmsg) of
             None \<Rightarrow> Ret ([], Some (''not found server function: '' @ fmsg_FuncName fmsg))
           | Some f \<Rightarrow>
               (case sf_api f of
                  Send \<Rightarrow>
                    go_bind (unmarshal_req cd (sv_proto s) (sf_req f) bts) (\<lambda>r.
                      case r of
                        Inl e \<Rightarrow> Ret ([], Some e)
                      | Inr req \<Rightarrow>
                          go_bind (ValueSend exec (sv_sname s) f req) (\<lambda>(err, v). Ret ([], err)))
                | Call \<Rightarrow>
                    go_bind (reflect_new zero (sf_rsp f)) (\<lambda>rsp.
                      go_bind (unmarshal_req cd (sv_proto s) (sf_req f) bts) (\<lambda>r.
                        case r of
                          Inl e \<Rightarrow> Ret ([], Some e)
                        | Inr req \<Rightarrow>
                            go_bind (ValueCall exec (sv_sname s) f req rsp) (\<lambda>(err, v).
                              case err of
                                Some e \<Rightarrow> Ret ([], Some e)
                              | None \<Rightarrow> Ret (reply (MarshalValue cd (sv_proto s) v)))))
                | Multi \<Rightarrow>
                    (case multi bts of
                       Inl e \<Rightarrow> Ret ([], Some e)
                     | Inr req \<Rightarrow>
                         if mb_Count req \<noteq> of_nat (length (sf_args f))
                         then Ret ([], Some ''request args number were wrong'')
                         else
                           go_bind (unmarshal_args cd (sv_proto s) (sf_args f) (mb_Data req)) (\<lambda>r.
                             case r of
                               Inl e \<Rightarrow> Ret ([], Some e)
                             | Inr vs \<Rightarrow>
                                 go_bind (reflect_new zero (sf_rsp f)) (\<lambda>rsp.
                                   go_bind (ValueMulti exec (sv_sname s) f (Receiver # map Arg vs @ [Arg rsp]))
                                     (\<lambda>(err, v).
                                       case err of
                                         None \<Rightarrow> Ret (reply (MarshalValue cd (sv_proto s) v))
                                       | Some e \<Rightarrow> Ret ([], Some e)))))
                | ApiType_unknown i \<Rightarrow>
                    Ret ([], Some (''not found server function: '' @ fmsg_FuncName fmsg)))))"

section \<open>HTTP\<close>

definition HttpReqSuccessBody :: string where "HttpReqSuccessBody = ''000''"
definition HttpReqSuccessNull :: string where "HttpReqSuccessNull = ''001''"
definition HttpReqFailMessage :: string where "HttpReqFailMessage = ''002''"
definition HttpReqFailNetwork :: string where "HttpReqFailNetwork = ''003''"

lemmas http_codes = HttpReqSuccessBody_def HttpReqSuccessNull_def HttpReqFailMessage_def
  HttpReqFailNetwork_def

text \<open>
  A response that is being written: the headers go out with the first \<open>Write\<close>, and setting a header
  after that has no effect.
\<close>

record http_response =
  hr_code :: string
  hr_sent :: bool
  hr_body :: "byte list"

definition fresh_response :: http_response where
  "fresh_response = \<lparr>hr_code = [], hr_sent = False, hr_body = []\<rparr>"

definition set_code :: "string \<Rightarrow> http_response \<Rightarrow> http_response" where
  "set_code c w = (if hr_sent w then w else w\<lparr>hr_code := c\<rparr>)"

definition http_write :: "byte list \<Rightarrow> http_response \<Rightarrow> http_response" where
  "http_write b w = w\<lparr>hr_sent := True, hr_body := hr_body w @ b\<rparr>"

definition makeHttpResp :: "byte list \<Rightarrow> error option \<Rightarrow> http_response \<Rightarrow> http_response" where
  "makeHttpResp bts err w =
     (case err of
        Some e \<Rightarrow> http_write (bytes_of_string e) (set_code HttpReqFailMessage w)
      | None \<Rightarrow>
          if length bts = 0 then set_code HttpReqSuccessNull w
          else http_write bts (set_code HttpReqSuccessBody w))"

text \<open>
  The handler that \<open>httpCall\<close> stores for a path, on a request whose body could be read. After a
  failed call it writes the error and goes on to marshal the response.
\<close>

definition http_handler ::
    "'v codec \<Rightarrow> (gotype \<Rightarrow> 'v) \<Rightarrow> 'v methods \<Rightarrow> Server \<Rightarrow> ServerFunc \<Rightarrow> byte list \<Rightarrow> http_response go"
where
  "http_handler cd zero exec s f bts =
     (let w = fresh_response in
      go_bind (unmarshal_req cd (sv_proto s) (sf_req f) bts) (\<lambda>r.
        case r of
          Inl e \<Rightarrow> Ret (makeHttpResp [] (Some e) w)
        | Inr req \<Rightarrow>
            if sf_api f = Send then
              go_bind (ValueSend exec (sv_sname s) f req) (\<lambda>(err, v). Ret (makeHttpResp [] err w))
            else if sf_api f = Call then
              go_bind (reflect_new zero (sf_rsp f)) (\<lambda>rsp.
                go_bind (ValueCall exec (sv_sname s) f req rsp) (\<lambda>(err, v).
                  let w = (case err of Some e \<Rightarrow> makeHttpResp [] (Some e) w | None \<Rightarrow> w);
                      (bts, err) = reply (MarshalValue cd (sv_proto s) v)
                  in Ret (makeHttpResp bts err w)))
            else Ret w))"

text \<open>
  \<open>postHttpApi\<close> on the outcome of the post: an error, or a response whose body could be read. The
  result is the error of the api, the error of the post, and the decoded response, if any; \<open>rsp\<close>
  is the type of the value to fill, nil for a send.
\<close>

definition postHttpApi ::
    "'v codec \<Rightarrow> Compiler \<Rightarrow> gotype option \<Rightarrow> error + http_response \<Rightarrow> error option \<times> error option \<times> 'v option"
where
  "postHttpApi cd protocal rsp post =
     (case post of
        Inl e \<Rightarrow> (None, Some e, None)
      | Inr resp \<Rightarrow>
          if hr_code resp = HttpReqSuccessBody \<and> rsp \<noteq> None then
            (case UnmarshalInterface cd protocal (the rsp) (hr_body resp) of
               Inl e \<Rightarrow> (Some e, None, None)
             | Inr v \<Rightarrow> (None, None, Some v))
          else if hr_code resp = HttpReqSuccessNull then (None, None, None)
          else if hr_code resp = HttpReqFailMessage then
            if length (hr_body resp) > 0 then (Some (string_of_bytes (hr_body resp)), None, None)
            else (None, None, None)
          else (None, Some ''http post server api wrong'', None))"

section \<open>What registration establishes\<close>

text \<open>A function as \<open>Register\<close> accepts it: its kind, its types and its result fit its parameters.\<close>

definition sf_ok :: "ServerFunc \<Rightarrow> bool" where
  "sf_ok f \<longleftrightarrow> (let ins = me_In (sf_method f) in
     me_Out (sf_method f) = [TypeOfError] \<and> sf_fname f = me_Name (sf_method f) \<and>
     (sf_api f = Send \<and> length ins = 2 \<and> sf_req f = Some (ins ! 1) \<and> indirect (ins ! 1) \<or>
      sf_api f = Call \<and> length ins = 3 \<and> sf_req f = Some (ins ! 1) \<and> sf_rsp f = Some (ins ! 2) \<and>
        indirect (ins ! 1) \<and> indirect (ins ! 2) \<or>
      sf_api f = Multi \<and> 4 \<le> length ins \<and> sf_args f = butlast (tl ins) \<and> sf_rsp f = Some (last ins) \<and>
        list_all indirect (tl ins)))"

definition server_ok :: "Server \<Rightarrow> bool" where
  "server_ok s \<longleftrightarrow> (\<forall>k f. sv_funcs s k = Some f \<longrightarrow> sf_ok f \<and> sf_fname f = k)"

lemma parse_args_ok: "parse_args ts = Ret rs \<Longrightarrow> rs = ts \<and> list_all indirect ts"
  by (induction ts arbitrary: rs) (auto simp: go_bind_Ret_iff split: if_splits)

lemma parse_args_panic: "parse_args ts = Panic p \<longleftrightarrow> p = NilDereference \<and> \<not> list_all indirect ts"
  by (induction ts) (auto simp: go_bind_Panic_iff)

lemma butlast_tl_last: "4 \<le> length ins \<Longrightarrow> tl ins = butlast (tl ins) @ [last ins]"
  by (cases ins) (auto simp: last_tl)

lemma parse_in_ok:
  assumes "parse_in (new_func m) = Ret (None, s)"
  shows "sf_method s = m \<and> sf_fname s = me_Name m \<and> (me_Out m = [TypeOfError] \<longrightarrow> sf_ok s)"
proof -
  let ?ins = "me_In m"
  consider "length ?ins = 0 \<or> length ?ins = 1" | "length ?ins = 2" | "length ?ins = 3" | "4 \<le> length ?ins" by linarith
  then show ?thesis
  proof cases
    case 1
    with assms show ?thesis by (auto simp: parse_in_def new_func_def)
  next
    case 4
    with assms obtain args where "parse_args (butlast (tl ?ins)) = Ret args"
      "s = (new_func m)\<lparr>sf_args := args, sf_rsp := Some (last ?ins), sf_api := Multi\<rparr>" "indirect (last ?ins)"
      by (auto simp: parse_in_def new_func_def Let_def go_bind_Ret_iff split: if_splits)
    with parse_args_ok [of "butlast (tl ?ins)" args] butlast_tl_last [OF 4] 4 show ?thesis
      by (auto simp: sf_ok_def new_func_def Let_def list_all_iff) (metis Un_iff empty_iff insert_iff list.set set_append)
  qed (use assms in \<open>auto simp: parse_in_def new_func_def sf_ok_def Let_def split: if_splits\<close>)
qed

lemma parseMethodsNumIn_ok:
  assumes "parseMethodsNumIn (new_func m) = Ret (None, s)"
  shows "sf_ok s \<and> sf_fname s = me_Name m"
proof -
  from assms obtain s1 where "parse_in (new_func m) = Ret (None, s1)" "s1 = s" "me_Out (sf_method s1) = [TypeOfError]"
    by (auto simp: parseMethodsNumIn_def go_bind_Ret_iff split: option.splits list.splits OutType.splits)
  with parse_in_ok [of m s1] show ?thesis by auto
qed

definition plain_methods :: "Method list \<Rightarrow> Method list" where
  "plain_methods ms = filter (\<lambda>m. \<not> snd (CheckProtocal (me_Name m))) ms"

lemma parseFunc_ok:
  assumes "parseFunc ms s = Ret (None, s')" and "server_ok s"
  shows "server_ok s' \<and> sv_sname s' = sv_sname s \<and>
    dom (sv_funcs s') = dom (sv_funcs s) \<union> me_Name ` set (plain_methods ms)"
  using assms
proof (induction ms arbitrary: s)
  case (Cons m ms)
  obtain p b where p: "CheckProtocal (me_Name m) = (p, b)" by fastforce
  show ?case
  proof (cases b)
    case True
    have "server_ok (s\<lparr>sv_proto := p\<rparr>)" using Cons.prems(2) by (simp add: server_ok_def)
    with Cons.IH [of "s\<lparr>sv_proto := p\<rparr>"] Cons.prems(1) p True show ?thesis
      by (simp add: plain_methods_def)
  next
    case False
    with Cons.prems(1) p obtain tmp where tmp: "parseMethodsNumIn (new_func m) = Ret (None, tmp)"
      "parseFunc ms (s\<lparr>sv_funcs := (sv_funcs s)(sf_fname tmp \<mapsto> tmp)\<rparr>) = Ret (None, s')"
      by (auto simp: go_bind_Ret_iff split: option.splits)
    note parsed = parseMethodsNumIn_ok [OF tmp(1)]
    then have "server_ok (s\<lparr>sv_funcs := (sv_funcs s)(sf_fname tmp \<mapsto> tmp)\<rparr>)"
      using Cons.prems(2) by (simp add: server_ok_def)
    from Cons.IH [OF tmp(2) this] parsed p False show ?thesis
      by (simp add: plain_methods_def del: fun_upd_apply)
  qed
qed (auto simp: plain_methods_def)

lemma publish_fields:
  "nd_funcs (publish server ks n) = nd_funcs n \<and>
   ni_Funcs (nd_info (publish server ks n)) = ni_Funcs (nd_info n) @
     List.map_filter (\<lambda>k. map_option (\<lambda>s. \<lparr>fa_ID = 0, fa_Name = sv_sname server @ ''.'' @ sf_fname s,
       fa_Type = sf_api s, fa_Kind = sv_proto server\<rparr>) (sv_funcs server k)) ks"
  by (induction ks arbitrary: n) (auto simp: Let_def httpCall_def List.map_filter_simps split: option.splits)

section \<open>Properties\<close>


definition msg_type :: gotype where
  "msg_type = \<lparr>gt_kind = Ptr, gt_message = True, gt_name = ''*pb.NodeInfo''\<rparr>"

definition echo_method :: Method where
  "echo_method = \<lparr>me_Name = ''Echo'', me_In = [msg_type, msg_type, msg_type], me_Out = [TypeOfError]\<rparr>"

definition bare_node :: NodeBase where
  "bare_node = \<lparr>nd_info = NodeInfo_zero, nd_funcs = Map.empty, nd_hlist = Map.empty\<rparr>"

lemma echo_parses: "parseMethodsNumIn (new_func echo_method) =
    Ret (None, (new_func echo_method)\<lparr>sf_req := Some msg_type, sf_rsp := Some msg_type, sf_api := Call\<rparr>)"
  by (simp add: parseMethodsNumIn_def parse_in_def new_func_def echo_method_def indirect_def msg_type_def)

lemma echo_registers: "\<exists>n'. Register [''Echo''] ''Svc'' [echo_method] bare_node = Ret (None, n')"
proof -
  have "\<not> snd (CheckProtocal (me_Name echo_method))" by (simp add: CheckProtocal_def echo_method_def)
  then show ?thesis
    by (simp add: Register_def echo_parses split: prod.splits bool.splits)
qed


text \<open>A method with more than two arguments one of which is passed by value makes registration panic:
  the error message asks for the kind of a type that is not set.\<close>

lemma register_panics_on_value_argument:
  assumes "\<forall>m \<in> set pre. snd (CheckProtocal (me_Name m)) \<or> (\<exists>f. parseMethodsNumIn (new_func m) = Ret (None, f))"
    and "\<not> snd (CheckProtocal (me_Name m))" and "4 \<le> length (me_In m)"
    and "t \<in> set (butlast (tl (me_In m)))" and "\<not> indirect t"
  shows "Register order sname (pre @ m # post) n = Panic NilDereference"
proof -
  have "parse_args (butlast (tl (me_In m))) = Panic NilDereference"
    using assms(4,5) by (auto simp: parse_args_panic list_all_iff)
  then have bad: "parseMethodsNumIn (new_func m) = Panic NilDereference"
    using assms(3)
    by (simp add: parseMethodsNumIn_def parse_in_def new_func_def Let_def del: length_0_conv)
  have "parseFunc (pre @ m # post) s = Panic NilDereference" for s
    using assms(1)
  proof (induction pre arbitrary: s)
    case Nil
    with assms(2) bad show ?case by (auto split: prod.splits bool.splits)
  next
    case (Cons x pre)
    then show ?case by (cases "CheckProtocal (me_Name x)"; cases "snd (CheckProtocal (me_Name x))") auto
  qed
  then show ?thesis by (simp add: Register_def)
qed

definition pair_method :: Method where
  "pair_method = \<lparr>me_Name = ''Pair'',
     me_In = [msg_type, msg_type\<lparr>gt_kind := OtherKind ''int''\<rparr>, msg_type, msg_type], me_Out = [TypeOfError]\<rparr>"

lemma register_panics_on_value_argument_witness:
  "Register [''Pair''] ''Svc'' ([] @ pair_method # []) bare_node = Panic NilDereference"
  by (rule register_panics_on_value_argument [where t = "msg_type\<lparr>gt_kind := OtherKind ''int''\<rparr>"])
    (simp_all add: pair_method_def CheckProtocal_def indirect_def)

lemma UnmarshalValue_Ptr: "gt_kind t = Ptr \<Longrightarrow> \<exists>r. UnmarshalValue cd p t b = Ret r"
  by (simp add: UnmarshalValue_def)

lemma unmarshal_args_panic:
  assumes "list_all (\<lambda>t. gt_kind t = Ptr) ts" and "unmarshal_args cd p ts ds = Panic q"
  shows "q = IndexOutOfRange \<and> length ds < length ts"
  using assms
proof (induction cd p ts ds rule: unmarshal_args.induct)
  case (3 cd p t ts d ds)
  obtain r where r: "UnmarshalValue cd p t d = Ret r"
    using UnmarshalValue_Ptr [of t cd p d] 3(2) by auto
  with 3 show ?case
    by (cases r) (auto simp: go_bind_Panic_iff)
qed simp_all

lemma unmarshal_args_length:
  "unmarshal_args cd p ts ds = Ret (Inr vs) \<Longrightarrow> length vs = length ts"
proof (induction cd p ts ds arbitrary: vs rule: unmarshal_args.induct)
  case (3 cd p t ts d ds)
  obtain x ys where "unmarshal_args cd p ts ds = Ret (Inr ys)" "vs = x # ys"
    using 3(2) by (cases "UnmarshalValue cd p t d"; cases "unmarshal_args cd p ts ds")
      (auto split: sum.splits)
  with 3(1) show ?case by (auto split: sum.splits)
qed simp_all

lemma ValueMulti_total:
  assumes "\<forall>s m args p. exec s m args \<noteq> Panic p" and "length args = length (me_In (sf_method f))"
  shows "\<exists>r. ValueMulti exec sname f args = Ret r"
proof -
  obtain err v where "exec sname (sf_method f) args = Ret (err, v)"
    using assms(1) by (metis go.exhaust surj_pair)
  with assms(2) show ?thesis by (simp add: ValueMulti_def reflect_call_def)
qed

text \<open>A function whose parameters are pointers, and method bodies that do not panic.\<close>

definition pointer_params :: "ServerFunc \<Rightarrow> bool" where
  "pointer_params f \<longleftrightarrow> sf_ok f \<and> list_all (\<lambda>t. gt_kind t = Ptr) (tl (me_In (sf_method f)))"

lemma pointer_param: "pointer_params f \<Longrightarrow> 0 < i \<Longrightarrow> i < length (me_In (sf_method f)) \<Longrightarrow> gt_kind (me_In (sf_method f) ! i) = Ptr"
  by (cases "me_In (sf_method f)") (auto simp: pointer_params_def list_all_length nth_Cons')

lemma ValueMulti_no_panic:
  assumes "\<forall>s m args p. exec s m args \<noteq> Panic p" and "length args = length (me_In (sf_method f))"
  shows "ValueMulti exec sname f args \<noteq> Panic p"
  using ValueMulti_total [where args = args and f = f and sname = sname, OF assms] by fastforce

lemma findCall_Send_no_panic:
  assumes "nd_funcs n (fmsg_ServName fmsg) = Some s" and "sv_funcs s (fmsg_FuncName fmsg) = Some f"
    and "pointer_params f" and "\<forall>s m args p. exec s m args \<noteq> Panic p" and "sf_api f = Send"
  shows "findCall cd multi zero exec n fmsg bts \<noteq> Panic p"
proof -
  have "length (me_In (sf_method f)) = 2" "sf_req f = Some (me_In (sf_method f) ! 1)"
    using assms(3,5) by (auto simp: pointer_params_def sf_ok_def Let_def)
  then show ?thesis
    using assms(1,2,5) pointer_param [OF assms(3), of 1] ValueMulti_no_panic [OF assms(4)]
    by (auto simp: findCall_def unmarshal_req_def UnmarshalValue_def ValueSend_def go_bind_Panic_iff split: sum.splits)
qed

lemma findCall_Call_no_panic:
  assumes "nd_funcs n (fmsg_ServName fmsg) = Some s" and "sv_funcs s (fmsg_FuncName fmsg) = Some f"
    and "pointer_params f" and "\<forall>s m args p. exec s m args \<noteq> Panic p" and "sf_api f = Call"
  shows "findCall cd multi zero exec n fmsg bts \<noteq> Panic p"
proof -
  have "length (me_In (sf_method f)) = 3" "sf_req f = Some (me_In (sf_method f) ! 1)"
    "sf_rsp f = Some (me_In (sf_method f) ! 2)"
    using assms(3,5) by (auto simp: pointer_params_def sf_ok_def Let_def)
  then show ?thesis
    using assms(1,2,5) pointer_param [OF assms(3), of 1] pointer_param [OF assms(3), of 2]
      ValueMulti_no_panic [OF assms(4)]
    by (auto simp: findCall_def reflect_new_def unmarshal_req_def UnmarshalValue_def ValueCall_def
        go_bind_Panic_iff split: sum.splits option.splits)
qed

lemma Multi_shape:
  assumes "pointer_params f" and "sf_api f = Multi"
  shows "4 \<le> length (me_In (sf_method f))" and "sf_args f = butlast (tl (me_In (sf_method f)))"
    and "sf_rsp f = Some (last (me_In (sf_method f)))" and "list_all (\<lambda>t. gt_kind t = Ptr) (sf_args f)"
    and "gt_kind (last (me_In (sf_method f))) = Ptr"
proof -
  show shape: "4 \<le> length (me_In (sf_method f))" "sf_args f = butlast (tl (me_In (sf_method f)))"
    "sf_rsp f = Some (last (me_In (sf_method f)))"
    using assms by (auto simp: pointer_params_def sf_ok_def Let_def)
  then show "list_all (\<lambda>t. gt_kind t = Ptr) (sf_args f)" "gt_kind (last (me_In (sf_method f))) = Ptr"
    using assms(1) butlast_tl_last [OF shape(1)] unfolding pointer_params_def
    by (metis list_all_append list.pred_inject(2))+
qed

text \<open>A call with several arguments panics only while it takes them from the request.\<close>

lemma findCall_Multi_panic:
  assumes "nd_funcs n (fmsg_ServName fmsg) = Some s" and "sv_funcs s (fmsg_FuncName fmsg) = Some f"
    and "pointer_params f" and "\<forall>s m args p. exec s m args \<noteq> Panic p" and "sf_api f = Multi"
    and "findCall cd multi zero exec n fmsg bts = Panic p"
  obtains req where "multi bts = Inr req" and "mb_Count req = of_nat (length (sf_args f))"
    and "unmarshal_args cd (sv_proto s) (sf_args f) (mb_Data req) = Panic p"
proof -
  note shape = Multi_shape [OF assms(3,5)]
  from assms(1,2,5,6) obtain req where
    req: "multi bts = Inr req" "mb_Count req = of_nat (length (sf_args f))"
    by (auto simp: findCall_def split: sum.splits if_splits)
  have "unmarshal_args cd (sv_proto s) (sf_args f) (mb_Data req) = Panic p"
  proof (cases "unmarshal_args cd (sv_proto s) (sf_args f) (mb_Data req)")
    case (Panic q)
    with assms(1,2,5,6) req show ?thesis by (simp add: findCall_def)
  next
    case (Ret r)
    show ?thesis
    proof (cases r)
      case (Inl e)
      with assms(1,2,5,6) req Ret show ?thesis by (simp add: findCall_def)
    next
      case (Inr vs)
      let ?args = "Receiver # map Arg vs @ [Arg (zero (last (me_In (sf_method f))))]"
      have "length ?args = length (me_In (sf_method f))"
        using unmarshal_args_length [of cd "sv_proto s" "sf_args f" "mb_Data req" vs] Ret Inr shape(1,2) by simp
      moreover have "ValueMulti exec (sv_sname s) f ?args = Panic p"
        using assms(1,2,5,6) req Ret Inr shape(3,5)
        by (auto simp: findCall_def reflect_new_def go_bind_Panic_iff split: option.splits)
      ultimately show ?thesis using ValueMulti_no_panic [OF assms(4)] by blast
    qed
  qed
  with req show thesis by (rule that)
qed


definition pair_func :: ServerFunc where
  "pair_func = \<lparr>sf_method = \<lparr>me_Name = ''Pair'', me_In = replicate 5 msg_type, me_Out = [TypeOfError]\<rparr>,
     sf_fname = ''Pair'', sf_api = Multi, sf_req = None, sf_rsp = Some msg_type, sf_args = replicate 3 msg_type\<rparr>"

definition pair_server :: Server where
  "pair_server = \<lparr>sv_proto = PROTO, sv_sname = ''Svc'', sv_funcs = [''Pair'' \<mapsto> pair_func]\<rparr>"

definition pair_node :: NodeBase where
  "pair_node = bare_node\<lparr>nd_funcs := [''Svc'' \<mapsto> pair_server]\<rparr>"

definition pair_msg :: FuncMsg where
  "pair_msg = FuncMsg_zero\<lparr>fmsg_ServName := ''Svc'', fmsg_FuncName := ''Pair''\<rparr>"

text \<open>A toy library that reads and writes byte lists as they are.\<close>

definition bytes_codec :: "byte list codec" where
  "bytes_codec = \<lparr>cd_message = (\<lambda>_. True), cd_proto_decode = (\<lambda>_ b. Inr b), cd_json_decode = (\<lambda>_ b. Inr b),
     cd_protojson_decode = (\<lambda>_ b. Inr b), cd_proto_encode = Inr, cd_json_encode = Inr\<rparr>"

definition quiet_method :: "byte list methods" where
  "quiet_method = (\<lambda>_ _ _. Ret (None, []))"

definition short_multi :: "byte list \<Rightarrow> error + MultiBody" where
  "short_multi = (\<lambda>_. Inr \<lparr>mb_Count = 3, mb_Data = []\<rparr>)"


section \<open>Calls and their answers\<close>

text \<open>
  What clients and servers rely on: decoding into the type of a value undoes its encoding. \<open>JSONPB\<close> has
  no such law, because the code encodes it with the binary library and decodes it with the JSON one.
\<close>

definition faithful_codec :: "'v codec \<Rightarrow> ('v \<Rightarrow> gotype) \<Rightarrow> bool" where
  "faithful_codec cd ty \<longleftrightarrow>
     (\<forall>v b. cd_proto_encode cd v = Inr b \<longrightarrow> cd_proto_decode cd (ty v) b = Inr v) \<and>
     (\<forall>v b. cd_json_encode cd v = Inr b \<longrightarrow> cd_json_decode cd (ty v) b = Inr v) \<and>
     (\<forall>v. gt_message (ty v) = cd_message cd v) \<and> (\<forall>v. gt_kind (ty v) = Ptr)"

lemma faithful_codecD:
  assumes "faithful_codec cd ty"
  shows "cd_proto_encode cd v = Inr b \<Longrightarrow> cd_proto_decode cd (ty v) b = Inr v"
    "cd_json_encode cd v = Inr b \<Longrightarrow> cd_json_decode cd (ty v) b = Inr v"
    "gt_message (ty v) = cd_message cd v" "gt_kind (ty v) = Ptr"
  using assms by (auto simp: faithful_codec_def)

text \<open>The two sides use the same functions in effect.\<close>

lemma MarshalValue_MarshalInterface: "MarshalValue cd p v = MarshalInterface cd p v"
  by (simp add: MarshalValue_def MarshalInterface_def)

lemma UnmarshalValue_UnmarshalInterface:
  "gt_kind t = Ptr \<Longrightarrow> UnmarshalValue cd p t b = Ret (UnmarshalInterface cd p t b)"
  by (simp add: UnmarshalValue_def UnmarshalInterface_def)

lemma Unmarshal_Marshal:
  assumes "faithful_codec cd ty" "p \<noteq> JSONPB" "MarshalInterface cd p v = Inr b"
  shows "UnmarshalInterface cd p (ty v) b = Inr v"
  using assms(2,3) faithful_codecD [OF assms(1)]
  by (auto simp: MarshalInterface_def UnmarshalInterface_def split: Compiler.splits if_splits)

lemma sf_ok_Call:
  "sf_ok f \<Longrightarrow> sf_api f = Call \<Longrightarrow> length (me_In (sf_method f)) = 3 \<and> me_Out (sf_method f) = [TypeOfError] \<and>
    sf_req f = Some (me_In (sf_method f) ! 1) \<and> sf_rsp f = Some (me_In (sf_method f) ! 2)"
  by (auto simp: sf_ok_def Let_def)

lemma ValueCall_ok:
  "sf_ok f \<Longrightarrow> sf_api f = Call \<Longrightarrow> ValueCall exec sname f req rsp = exec sname (sf_method f) [Receiver, Arg req, Arg rsp]"
  by (cases "exec sname (sf_method f) [Receiver, Arg req, Arg rsp]")
    (auto simp: ValueCall_def ValueMulti_def reflect_call_def dest: sf_ok_Call)

text \<open>Serving a call on a request that the client has encoded.\<close>

lemma findCall_Call:
  assumes "faithful_codec cd ty" and "sv_proto s \<noteq> JSONPB"
    and "nd_funcs n (fmsg_ServName fmsg) = Some s" and "server_ok s"
    and "sv_funcs s (fmsg_FuncName fmsg) = Some f" and "sf_api f = Call"
    and "sf_req f = Some (ty v)" and "MarshalInterface cd (sv_proto s) v = Inr bts" and "sf_rsp f = Some t"
    and "gt_kind t = Ptr"
  shows "findCall cd multi zero exec n fmsg bts =
    go_bind (exec (sv_sname s) (sf_method f) [Receiver, Arg v, Arg (zero t)]) (\<lambda>(err, x).
      case err of Some e \<Rightarrow> Ret ([], Some e) | None \<Rightarrow> Ret (reply (MarshalInterface cd (sv_proto s) x)))"
proof -
  have ok: "sf_ok f" using assms(4,5) by (simp add: server_ok_def)
  have req: "UnmarshalValue cd (sv_proto s) (ty v) bts = Ret (Inr v)"
    using Unmarshal_Marshal [OF assms(1,2,8)] faithful_codecD(4) [OF assms(1)]
    by (simp add: UnmarshalValue_UnmarshalInterface)
  with assms show ?thesis
    by (cases "exec (sv_sname s) (sf_method f) [Receiver, Arg v, Arg (zero t)]")
      (auto simp: findCall_def reflect_new_def unmarshal_req_def ValueCall_ok [OF ok assms(6)]
        MarshalValue_MarshalInterface split: option.splits)
qed


definition rev_func :: ServerFunc where
  "rev_func = \<lparr>sf_method = \<lparr>me_Name = ''Rev'', me_In = replicate 3 msg_type, me_Out = [TypeOfError]\<rparr>,
     sf_fname = ''Rev'', sf_api = Call, sf_req = Some msg_type, sf_rsp = Some msg_type, sf_args = []\<rparr>"

definition rev_server :: Server where
  "rev_server = \<lparr>sv_proto = PROTO, sv_sname = ''Svc'', sv_funcs = [''Rev'' \<mapsto> rev_func]\<rparr>"

definition rev_node :: NodeBase where
  "rev_node = bare_node\<lparr>nd_funcs := [''Svc'' \<mapsto> rev_server]\<rparr>"

definition rev_msg :: FuncMsg where
  "rev_msg = FuncMsg_zero\<lparr>fmsg_ServName := ''Svc'', fmsg_FuncName := ''Rev''\<rparr>"

fun rev_method :: "byte list methods" where
  "rev_method s m [Receiver, Arg v, Arg r] = (if v = [] then Ret (Some ''empty'', r) else Ret (None, rev v))"
| "rev_method s m args = Panic ExplicitPanic"

lemma rev_setting:
  "faithful_codec bytes_codec (\<lambda>_. msg_type)" "server_ok rev_server" "sv_proto rev_server \<noteq> JSONPB"
  "nd_funcs rev_node (fmsg_ServName rev_msg) = Some rev_server"
  "sv_funcs rev_server (fmsg_FuncName rev_msg) = Some rev_func" "sf_api rev_func = Call"
  "sf_req rev_func = Some msg_type" "sf_rsp rev_func = Some msg_type" "gt_kind msg_type = Ptr"
  "MarshalInterface bytes_codec (sv_proto rev_server) v = Inr v"
  by (auto simp: faithful_codec_def bytes_codec_def msg_type_def server_ok_def sf_ok_def rev_server_def
      rev_func_def rev_node_def rev_msg_def indirect_def numeral_eq_Suc MarshalInterface_def)


section \<open>The HTTP side\<close>

definition http_answer :: "byte list \<Rightarrow> http_response" where
  "http_answer b = makeHttpResp b None fresh_response"

lemmas http_defs = makeHttpResp_def http_write_def set_code_def fresh_response_def http_codes

lemma postHttpApi_answer:
  "postHttpApi cd p (Some t) (Inr (makeHttpResp b None fresh_response)) =
    (if b = [] then (None, None, None)
     else case UnmarshalInterface cd p t b of Inl e \<Rightarrow> (Some e, None, None) | Inr v \<Rightarrow> (None, None, Some v))"
  by (simp add: postHttpApi_def http_defs)

lemma postHttpApi_error:
  "hr_code w = HttpReqFailMessage \<Longrightarrow> postHttpApi cd p rsp (Inr w) =
    (if hr_body w = [] then (None, None, None) else (Some (string_of_bytes (hr_body w)), None, None))"
  by (simp add: postHttpApi_def http_codes)

lemma http_handler_Call:
  assumes "faithful_codec cd ty" "sv_proto s \<noteq> JSONPB" "sf_ok f" "sf_api f = Call" "sf_req f = Some (ty v)"
    "MarshalInterface cd (sv_proto s) v = Inr bts" "sf_rsp f = Some t" "gt_kind t = Ptr"
    "exec (sv_sname s) (sf_method f) [Receiver, Arg v, Arg (zero t)] = Ret (err, x)"
  shows "http_handler cd zero exec s f bts =
    (let (b, e) = reply (MarshalInterface cd (sv_proto s) x)
     in Ret (makeHttpResp b e
          (case err of Some e \<Rightarrow> makeHttpResp [] (Some e) fresh_response | None \<Rightarrow> fresh_response)))"
proof -
  have "UnmarshalValue cd (sv_proto s) (ty v) bts = Ret (Inr v)"
    using Unmarshal_Marshal [OF assms(1,2,6)] faithful_codecD(4) [OF assms(1)]
    by (simp add: UnmarshalValue_UnmarshalInterface)
  with assms show ?thesis
    by (simp add: http_handler_def unmarshal_req_def reflect_new_def ValueCall_ok [OF assms(3,4)]
        MarshalValue_MarshalInterface split: prod.splits option.splits)
qed

text \<open>Over HTTP the client of a call gets the value the method produced. When the response encodes to no
  bytes at all, the call succeeds and the client's response variable keeps its old value.\<close>

lemma http_round_trip:
  assumes "faithful_codec cd ty" and "sv_proto s \<noteq> JSONPB" and "sf_ok f" and "sf_api f = Call"
    and "sf_req f = Some (ty v)" and "MarshalInterface cd (sv_proto s) v = Inr bts"
    and "sf_rsp f = Some t" and "gt_kind t = Ptr"
    and "exec (sv_sname s) (sf_method f) [Receiver, Arg v, Arg (zero t)] = Ret (None, x)"
    and "ty x = t" and "MarshalInterface cd (sv_proto s) x = Inr rsp"
  shows "\<exists>w. http_handler cd zero exec s f bts = Ret w \<and>
    postHttpApi cd (sv_proto s) (Some t) (Inr w) = (None, None, if rsp = [] then None else Some x)"
  using http_handler_Call [where zero = zero and exec = exec, OF assms(1-9)]
    Unmarshal_Marshal [OF assms(1,2,11)] assms(10,11)
  by (simp add: reply_def postHttpApi_answer)

lemma http_round_trip_witness:
  "\<exists>w. http_handler bytes_codec (\<lambda>_. []) rev_method rev_server rev_func [1, 2] = Ret w \<and>
    postHttpApi bytes_codec (sv_proto rev_server) (Some msg_type) (Inr w) = (None, None, Some [2, 1])"
proof -
  have "sf_ok rev_func"
    by (simp add: sf_ok_def rev_func_def indirect_def msg_type_def numeral_eq_Suc)
  from http_round_trip [where ty = "\<lambda>_. msg_type" and v = "[1, 2]" and x = "[2, 1]"
      and zero = "\<lambda>_. []" and exec = rev_method and rsp = "[2, 1]",
      OF rev_setting(1,3) this rev_setting(6,7,10,8,9)]
  show ?thesis by (simp add: rev_setting)
qed

text \<open>When the method fails, the handler writes its error and then goes on: it appends the encoded
  response to the text, so the client sees an error the method never returned unless the response encodes to
  nothing. An error with an empty text and an empty response counts as success.\<close>

lemma http_error_corrupted:
  assumes "faithful_codec cd ty" and "sv_proto s \<noteq> JSONPB" and "sf_ok f" and "sf_api f = Call"
    and "sf_req f = Some (ty v)" and "MarshalInterface cd (sv_proto s) v = Inr bts"
    and "sf_rsp f = Some t" and "gt_kind t = Ptr"
    and "exec (sv_sname s) (sf_method f) [Receiver, Arg v, Arg (zero t)] = Ret (Some e, x)"
    and "MarshalInterface cd (sv_proto s) x = Inr rsp"
  shows "\<exists>w. http_handler cd zero exec s f bts = Ret w \<and>
    postHttpApi cd (sv_proto s) (Some t) (Inr w) =
      (if e = [] \<and> rsp = [] then None else Some (e @ string_of_bytes rsp), None, None)"
proof -
  let ?w = "makeHttpResp rsp None (makeHttpResp [] (Some e) fresh_response)"
  have "hr_code ?w = HttpReqFailMessage" "hr_body ?w = bytes_of_string e @ rsp"
    by (simp_all add: http_defs)
  then have "postHttpApi cd (sv_proto s) (Some t) (Inr ?w) =
      (if e = [] \<and> rsp = [] then None else Some (e @ string_of_bytes rsp), None, None)"
    by (auto simp: postHttpApi_error string_of_bytes_append)
  with http_handler_Call [where zero = zero and exec = exec, OF assms(1-9)] assms(10) show ?thesis
    by (simp add: reply_def)
qed

fun fail_method :: "byte list methods" where
  "fail_method s m args = Ret (Some ''no'', bytes_of_string ''zero'')"

lemma http_error_corrupted_witness:
  "\<exists>w. http_handler bytes_codec (\<lambda>_. []) fail_method rev_server rev_func [] = Ret w \<and>
    postHttpApi bytes_codec (sv_proto rev_server) (Some msg_type) (Inr w) = (Some ''nozero'', None, None)"
proof -
  have "sf_ok rev_func"
    by (simp add: sf_ok_def rev_func_def indirect_def msg_type_def numeral_eq_Suc)
  from http_error_corrupted [where ty = "\<lambda>_. msg_type" and v = "[]"
      and zero = "\<lambda>_. []" and exec = fail_method and e = "''no''" and x = "bytes_of_string ''zero''"
      and rsp = "bytes_of_string ''zero''", OF rev_setting(1,3) this rev_setting(6,7,10,8,9)]
  show ?thesis by (simp add: rev_setting)
qed

text \<open>A local call of a method with several arguments never reaches the method: \<open>LocalMulti\<close> passes the
  receiver twice and nothing else, and reflection panics.\<close>

lemma LocalMulti_always_panics:
  "sf_ok f \<Longrightarrow> sf_api f = Multi \<Longrightarrow> LocalMulti exec sname f args = Panic ExplicitPanic"
  by (auto simp: LocalMulti_def reflect_call_def sf_ok_def Let_def)

lemma LocalMulti_always_panics_witness:
  "LocalMulti quiet_method ''Svc'' pair_func [[1], [2], [3]] = Panic ExplicitPanic"
  by (rule LocalMulti_always_panics)
    (simp_all add: sf_ok_def pair_func_def msg_type_def indirect_def numeral_eq_Suc)

end
