(* ===== verification/Typing.thy ===== *)
theory Typing
  imports Service
begin

text \<open>
  The types of the values that a registered method is called with. \<open>reflect.Value.Call\<close> panics when an argument has not the type
  of its parameter; the model of \<open>reflect_call\<close> in theory \<open>Service\<close> counts arguments only and leaves the rest to the body
  of the method. Here the bodies check the types as reflection does, and the check is shown to find nothing.
\<close>

section \<open>Typed methods\<close>

text \<open>A value decoded at a type, and a fresh value of a type, have that type: that is what \<open>reflect.New\<close> and the
  decoders of the libraries, which fill the value they are given, do.\<close>

definition typed_codec :: "'v codec \<Rightarrow> (gotype \<Rightarrow> 'v) \<Rightarrow> ('v \<Rightarrow> gotype) \<Rightarrow> bool" where
  "typed_codec cd zero ty \<longleftrightarrow>
     (\<forall>t b v. cd_proto_decode cd t b = Inr v \<or> cd_json_decode cd t b = Inr v \<or> cd_protojson_decode cd t b = Inr v
        \<longrightarrow> ty v = t) \<and> (\<forall>t. ty (zero t) = t)"

fun arg_types :: "('v \<Rightarrow> gotype) \<Rightarrow> 'v argument list \<Rightarrow> gotype list option" where
  "arg_types ty (Receiver # args) = those (map (\<lambda>a. case a of Arg v \<Rightarrow> Some (ty v) | Receiver \<Rightarrow> None) args)"
| "arg_types ty args = None"

definition typed_methods :: "('v \<Rightarrow> gotype) \<Rightarrow> 'v methods \<Rightarrow> 'v methods" where
  "typed_methods ty exec sname m args =
     (if arg_types ty args \<noteq> Some (tl (me_In m)) then Panic ExplicitPanic else exec sname m args)"

section \<open>The arguments have the types of the parameters\<close>

lemma those_args: "those (map (\<lambda>a. case a of Arg v \<Rightarrow> Some (ty v) | Receiver \<Rightarrow> None) (map Arg vs)) = Some (map ty vs)"
  by (induction vs) simp_all

lemma arg_types_values: "arg_types ty (Receiver # map Arg vs) = Some (map ty vs)"
  by (simp only: arg_types.simps those_args)

lemma ValueMulti_typed:
  "map ty vs = tl (me_In (sf_method f)) \<Longrightarrow>
    ValueMulti (typed_methods ty exec) sname f (Receiver # map Arg vs) = ValueMulti exec sname f (Receiver # map Arg vs)"
  by (simp only: ValueMulti_def reflect_call_def typed_methods_def arg_types_values simp_thms if_False)

lemma UnmarshalValue_typed:
  assumes "typed_codec cd zero ty" and "UnmarshalValue cd p t b = Ret (Inr v)"
  shows "ty v = t"
  using assms by (auto simp: UnmarshalValue_def typed_codec_def split: if_splits Compiler.splits)

lemma unmarshal_args_typed:
  assumes "typed_codec cd zero ty" and "unmarshal_args cd p ts ds = Ret (Inr vs)"
  shows "map ty vs = ts"
  using assms
proof (induction cd p ts ds arbitrary: vs rule: unmarshal_args.induct)
  case (3 cd p t ts d ds)
  from 3(3) obtain x ys where x: "UnmarshalValue cd p t d = Ret (Inr x)" "unmarshal_args cd p ts ds = Ret (Inr ys)" and vs: "vs = x # ys"
    by (cases "UnmarshalValue cd p t d"; cases "unmarshal_args cd p ts ds") (auto split: sum.splits)
  with 3(1,2) UnmarshalValue_typed [OF 3(2) x(1)] show ?case by simp
qed simp_all

lemma unmarshal_req_typed:
  assumes "typed_codec cd zero ty" and "unmarshal_req cd p t b = Ret (Inr v)"
  shows "t = Some (ty v)"
  using assms by (auto simp: unmarshal_req_def dest: UnmarshalValue_typed split: option.splits)

lemma reflect_new_typed:
  assumes "typed_codec cd zero ty" and "reflect_new zero t = Ret v"
  shows "t = Some (ty v)"
  using assms by (auto simp: reflect_new_def typed_codec_def split: option.splits if_splits)

lemma ValueSend_typed:
  assumes "sf_ok f" "sf_api f = Send" "sf_req f = Some (ty v)"
  shows "ValueSend (typed_methods ty exec) sname f v = ValueSend exec sname f v"
  using ValueMulti_typed [of ty "[v]" f exec sname] assms
  by (cases "me_In (sf_method f)") (auto simp: ValueSend_def sf_ok_def Let_def numeral_eq_Suc length_Suc_conv)

lemma ValueCall_typed:
  assumes "sf_ok f" "sf_api f = Call" "sf_req f = Some (ty v)" "sf_rsp f = Some (ty r)"
  shows "ValueCall (typed_methods ty exec) sname f v r = ValueCall exec sname f v r"
  using ValueMulti_typed [of ty "[v, r]" f exec sname] assms
  by (cases "me_In (sf_method f)") (auto simp: ValueCall_def sf_ok_def Let_def numeral_eq_Suc length_Suc_conv)

lemma Multi_typed:
  assumes "sf_ok f" "sf_api f = Multi" "map ty vs = sf_args f" "sf_rsp f = Some (ty r)"
  shows "ValueMulti (typed_methods ty exec) sname f (Receiver # map Arg vs @ [Arg r]) =
    ValueMulti exec sname f (Receiver # map Arg vs @ [Arg r])"
  using ValueMulti_typed [of ty "vs @ [r]" f exec sname] assms butlast_tl_last [of "me_In (sf_method f)"]
  by (auto simp: sf_ok_def Let_def)

lemma go_bind_cong: "(\<And>x. m = Ret x \<Longrightarrow> f x = g x) \<Longrightarrow> go_bind m f = go_bind m g"
  by (cases m) simp_all

lemma sum_case_cong: "(\<And>v. r = Inr v \<Longrightarrow> f v = g v) \<Longrightarrow> case_sum h f r = case_sum h g r"
  by (cases r) simp_all

text \<open>C29: The methods of registered services are never called with arguments of wrong types: checking every argument against the
  parameters of the method, as reflection does, makes no difference to any request that a node serves, over a
  connection or over HTTP, whatever bytes it carries.\<close>

theorem arguments_well_typed:
  assumes "typed_codec cd zero ty" and "\<forall>s. nd_funcs n (fmsg_ServName fmsg) = Some s \<longrightarrow> server_ok s" and "sf_ok g"
  shows "findCall cd multi zero (typed_methods ty exec) n fmsg bts = findCall cd multi zero exec n fmsg bts \<and>
    http_handler cd zero (typed_methods ty exec) s g bts = http_handler cd zero exec s g bts"
proof
  note typed = unmarshal_req_typed [OF assms(1)] reflect_new_typed [OF assms(1)] unmarshal_args_typed [OF assms(1)]
  show "findCall cd multi zero (typed_methods ty exec) n fmsg bts = findCall cd multi zero exec n fmsg bts"
  proof (cases "nd_funcs n (fmsg_ServName fmsg)")
    case (Some s)
    show ?thesis
    proof (cases "sv_funcs s (fmsg_FuncName fmsg)")
      case f: (Some f)
      have ok: "sf_ok f" using assms(2) Some f by (simp add: server_ok_def)
      show ?thesis
        by (simp only: findCall_def Some f option.case, cases "sf_api f")
          (auto intro!: go_bind_cong sum_case_cong dest!: typed
            simp: ValueSend_typed [OF ok] ValueCall_typed [OF ok] Multi_typed [OF ok] split: sum.split)
    qed (simp add: findCall_def Some)
  qed (simp add: findCall_def)
  show "http_handler cd zero (typed_methods ty exec) s g bts = http_handler cd zero exec s g bts"
    by (auto simp: http_handler_def Let_def ValueSend_typed [OF assms(3)] ValueCall_typed [OF assms(3)]
        intro!: go_bind_cong sum_case_cong dest!: typed)
qed

text \<open>Values that carry their type, and a method on them.\<close>

definition tagged_codec :: "(gotype \<times> byte list) codec" where
  "tagged_codec = \<lparr>cd_message = (\<lambda>_. True), cd_proto_decode = (\<lambda>t b. Inr (t, b)), cd_json_decode = (\<lambda>t b. Inr (t, b)),
     cd_protojson_decode = (\<lambda>t b. Inr (t, b)), cd_proto_encode = (\<lambda>v. Inr (snd v)), cd_json_encode = (\<lambda>v. Inr (snd v))\<rparr>"

fun swap_method :: "(gotype \<times> byte list) methods" where
  "swap_method s m [Receiver, Arg v, Arg r] = Ret (None, (fst r, rev (snd v)))"
| "swap_method s m args = Panic ExplicitPanic"

theorem arguments_well_typed_witness:
  "findCall tagged_codec short_multi (\<lambda>t. (t, [])) (typed_methods fst swap_method) rev_node rev_msg [1, 2] = Ret ([2, 1], None) \<and>
   typed_methods fst swap_method ''Svc'' (sf_method rev_func) [Receiver, Arg (msg_type\<lparr>gt_name := ''*int''\<rparr>, []), Arg (msg_type, [])] =
     Panic ExplicitPanic"
proof -
  have "typed_codec tagged_codec (\<lambda>t. (t, [])) fst" by (simp add: typed_codec_def tagged_codec_def)
  moreover have "\<forall>s. nd_funcs rev_node (fmsg_ServName rev_msg) = Some s \<longrightarrow> server_ok s" and "sf_ok rev_func"
    using rev_setting(2,4,5) by (auto simp: server_ok_def)
  moreover have "findCall tagged_codec short_multi (\<lambda>t. (t, [])) swap_method rev_node rev_msg [1, 2] = Ret ([2, 1], None)"
    by (simp add: findCall_def rev_setting unmarshal_req_def UnmarshalValue_def reflect_new_def ValueCall_def ValueMulti_def
        reflect_call_def MarshalValue_def reply_def rev_server_def tagged_codec_def)
      (simp add: rev_func_def rev_msg_def msg_type_def)
  ultimately show ?thesis
    using arguments_well_typed [of tagged_codec "\<lambda>t. (t, [])" fst rev_node rev_msg rev_func short_multi swap_method "[1, 2]" rev_server]
    by (simp add: typed_methods_def rev_func_def msg_type_def numeral_eq_Suc)
qed

end
