(* ===== verification/Framing.thy ===== *)
theory Framing
  imports Naming
begin

text \<open>
  The wire format of network/rpc/encode.go: fixed-size frames with a 12 byte head, a body of
  \<open>BodySplit\<close> bytes and the end mark 0, 1. Here are the frame encoders (\<open>buffPrefix\<close>,
  \<open>MakeReqBody\<close>, \<open>MakeRspBody\<close>), the decoder of one frame (\<open>parse\<close>), and the two layouts
  of the program, \<open>tcpsplit\<close> (tcp.go) and \<open>udpsplit\<close> (udp.go). The locale \<open>frame_layout\<close> holds
  what the encoders and the decoder need of a layout; both layouts are interpretations of it.

  Event numbers and function ids are Go \<open>int\<close>s that every caller takes from a counter, a
  \<open>uint32\<close> or a constant, so they are natural numbers here; the conversion \<open>byte(x)\<close> is
  \<^term>\<open>of_nat :: nat \<Rightarrow> byte\<close>, which wraps modulo 256 as Go's does.
\<close>

section \<open>Constants and data\<close>

definition FirstByte :: byte where "FirstByte = 1"
definition SecondByte :: byte where "SecondByte = 0"

definition BodyWholeData :: byte where "BodyWholeData = 0"
definition BodyBodyStart :: byte where "BodyBodyStart = 1"
definition BodyReqMiddle :: byte where "BodyReqMiddle = 2"
definition BodyReqFinaly :: byte where "BodyReqFinaly = 3"
definition BodyReqDataNil :: byte where "BodyReqDataNil = 4"

definition BodyRespSuccess :: byte where "BodyRespSuccess = 11"
definition BodyRespFailed :: byte where "BodyRespFailed = 12"
definition BodyRespNoFound :: byte where "BodyRespNoFound = 13"
definition BodyRespDataNil :: byte where "BodyRespDataNil = 14"
definition BodyRespStart :: byte where "BodyRespStart = 15"
definition BodyRespMiddle :: byte where "BodyRespMiddle = 16"
definition BodyRespFinaly :: byte where "BodyRespFinaly = 17"

lemmas frame_marks = FirstByte_def SecondByte_def

lemmas body_types =
  BodyWholeData_def BodyBodyStart_def BodyReqMiddle_def BodyReqFinaly_def BodyReqDataNil_def
  BodyRespSuccess_def BodyRespFailed_def BodyRespNoFound_def BodyRespDataNil_def
  BodyRespStart_def BodyRespMiddle_def BodyRespFinaly_def

record NetworkBuffer =
  TotalSize :: nat
  BodySplit :: nat
  BodyStart :: nat
  FinalByte :: nat
  PingBytes :: "byte list"

record JoinBodyData =
  jb_Uuid :: nat
  jb_Func :: nat
  jb_Buck :: nat
  jb_Sort :: nat
  jb_Data :: "byte list"

section \<open>Encoding\<close>

definition buffPrefix :: "nat \<Rightarrow> nat \<Rightarrow> nat \<Rightarrow> nat \<Rightarrow> byte \<Rightarrow> byte list" where
  "buffPrefix num fid buck lst model =
     [FirstByte, SecondByte,
      of_nat (num div 65536 mod 256), of_nat (num div 256 mod 256), of_nat (num mod 256),
      model,
      of_nat (fid div 256), of_nat (fid mod 256),
      of_nat (buck div 256), of_nat (buck mod 256),
      of_nat (lst div 256), of_nat (lst mod 256)]"

text \<open>
  The three branches of \<open>MakeReqBody\<close>: no data, one frame, several frames. In the last the
  loop makes frames 1 to \<open>count - 1\<close>, the first of which is then marked as the start, and the
  rest of the data goes into the final frame, which carries its own length.
\<close>

definition MakeReqBody :: "NetworkBuffer \<Rightarrow> byte list \<Rightarrow> nat \<Rightarrow> nat \<Rightarrow> byte list list" where
  "MakeReqBody n bts num fid =
     (if length bts = 0 then
        let b = go_copy (replicate (TotalSize n) 0)
                  [1, 0, of_nat (num div 65536 mod 256), of_nat (num div 256 mod 256),
                   of_nat (num mod 256), BodyReqDataNil, of_nat (fid div 256), of_nat (fid mod 256)]
        in [b[TotalSize n - 1 := FirstByte]]
      else if length bts \<le> BodySplit n then
        let b = buffPrefix num fid 1 (length bts) BodyWholeData @ bts
        in [b @ replicate (TotalSize n - length b - 2) 0 @ [0, 1]]
      else
        let rest = length bts mod BodySplit n;
            count = length bts div BodySplit n + (if rest > 0 then 1 else 0);
            lst = (if rest > 0 then rest else BodySplit n);
            tmp = [1, 0, of_nat (num div 65536 mod 256), of_nat (num div 256 mod 256),
                   of_nat (num mod 256), BodyReqMiddle, of_nat (fid div 256), of_nat (fid mod 256),
                   of_nat (count div 256), of_nat (count mod 256)];
            result = map (\<lambda>i. tmp @ [of_nat (i div 256 mod 256), of_nat (i mod 256)]
                              @ take (BodySplit n) (drop (BodySplit n * (i - 1)) bts) @ [0, 1])
                         [1..<count];
            started = result[0 := (result ! 0)[5 := BodyBodyStart]];
            b = tmp @ [of_nat (lst div 256 mod 256), of_nat (lst mod 256)]
                @ drop (BodySplit n * (count - 1)) bts @ replicate (BodySplit n - lst) 0 @ [0, 1]
        in started @ [b[5 := BodyReqFinaly]])"

definition MakeRspBody ::
    "NetworkBuffer \<Rightarrow> byte list \<Rightarrow> nat \<Rightarrow> nat \<Rightarrow> error option \<Rightarrow> byte list list" where
  "MakeRspBody n bts num fid err =
     (case err of
        Some e \<Rightarrow>
          let msg = bytes_of_string e;
              msg = (if length msg > BodySplit n then take (BodySplit n) msg else msg)
          in [buffPrefix num fid 1 (length msg) BodyRespFailed @ msg
              @ replicate (BodySplit n - length msg) 0 @ [0, 1]]
      | None \<Rightarrow>
          if fid = 0 then
            let msg = bytes_of_string ''not found this server api by function id''
            in [buffPrefix num fid 1 (length msg) BodyRespNoFound @ msg
                @ replicate (BodySplit n - length msg) 0 @ [0, 1]]
          else MakeReqBody n bts num fid)"

section \<open>Decoding one frame\<close>

text \<open>
  \<open>parse_switch\<close> is the \<open>switch b.Data[5]\<close> of \<open>parse\<close>; its last two arguments are the two
  16-bit fields the cases read. The result pair is the code's \<open>(*JoinBodyData, error)\<close>; a length field that points behind the
  frame makes the slice expression panic. The receive buffers have capacity \<open>TotalSize\<close>.
\<close>

definition parse_switch ::
    "NetworkBuffer \<Rightarrow> byte list \<Rightarrow> byte \<Rightarrow> JoinBodyData \<Rightarrow> nat \<Rightarrow> nat
     \<Rightarrow> (JoinBodyData option \<times> error option) go" where
  "parse_switch n d kind tmp buck lenght =
     (if kind = BodyReqDataNil \<or> kind = BodyRespDataNil then
        Ret (Some (tmp\<lparr>jb_Buck := 1, jb_Sort := 1\<rparr>), None)
      else if kind = BodyWholeData \<or> kind = BodyRespSuccess then
        go_bind (go_slice d (BodyStart n) (BodyStart n + lenght)) (\<lambda>s.
          Ret (Some (tmp\<lparr>jb_Buck := 1, jb_Sort := 1, jb_Data := s\<rparr>), None))
      else if kind = BodyRespFailed then
        go_bind (go_slice d (BodyStart n) (BodyStart n + lenght)) (\<lambda>s.
          Ret (Some (tmp\<lparr>jb_Buck := 1, jb_Sort := 1\<rparr>), Some (string_of_bytes s)))
      else if kind = BodyBodyStart \<or> kind = BodyRespStart then
        go_bind (go_slice d (BodyStart n) (FinalByte n)) (\<lambda>s.
          Ret (Some (tmp\<lparr>jb_Buck := buck, jb_Sort := 1, jb_Data := s\<rparr>), None))
      else if kind = BodyReqMiddle \<or> kind = BodyRespMiddle then
        go_bind (go_slice d (BodyStart n) (FinalByte n)) (\<lambda>s.
          Ret (Some (tmp\<lparr>jb_Buck := buck, jb_Sort := lenght, jb_Data := s\<rparr>), None))
      else if kind = BodyReqFinaly \<or> kind = BodyRespFinaly then
        go_bind (go_slice d (BodyStart n) (BodyStart n + lenght)) (\<lambda>s.
          Ret (Some (tmp\<lparr>jb_Buck := buck, jb_Sort := buck, jb_Data := s\<rparr>), None))
      else Ret (Some tmp, None))"

definition parse :: "NetworkBuffer \<Rightarrow> byte list \<Rightarrow> (JoinBodyData option \<times> error option) go" where
  "parse n d =
     (if length d \<noteq> TotalSize n then Ret (None, Some ''request body lenght was wrong'')
      else if d ! 0 \<noteq> FirstByte \<or> d ! 1 \<noteq> SecondByte \<or>
              d ! (length d - 1) \<noteq> FirstByte \<or> d ! (length d - 2) \<noteq> SecondByte
      then Ret (None, Some ''request body rule was wrong'')
      else
        parse_switch n d (d ! 5)
          \<lparr>jb_Uuid = unat (d ! 2) * 65536 + unat (d ! 3) * 256 + unat (d ! 4),
           jb_Func = unat (d ! 6) * 256 + unat (d ! 7),
           jb_Buck = 0, jb_Sort = 0, jb_Data = []\<rparr>
          (unat (d ! 8) * 256 + unat (d ! 9))
          (unat (d ! 10) * 256 + unat (d ! 11)))"

section \<open>The two layouts\<close>

definition ping_frame :: "nat \<Rightarrow> byte list" where
  "ping_frame sz =
     (let d = go_copy (replicate sz 0) (buffPrefix 1 PingNetwork 1 1 0)
      in d[length d - 1 := FirstByte])"

definition tcpsplit :: NetworkBuffer where
  "tcpsplit = \<lparr>TotalSize = 1444, BodySplit = 1430, BodyStart = 12, FinalByte = 1442,
               PingBytes = ping_frame 1444\<rparr>"

definition udpsplit :: NetworkBuffer where
  "udpsplit = \<lparr>TotalSize = 534, BodySplit = 520, BodyStart = 12, FinalByte = 532,
               PingBytes = ping_frame 534\<rparr>"

section \<open>What a layout must satisfy\<close>

text \<open>
  The reference description of a message on the wire: how many frames it takes and which part
  of the data each of them carries.
\<close>

definition frame_count :: "NetworkBuffer \<Rightarrow> byte list \<Rightarrow> nat" where
  "frame_count n bts =
     (if length bts \<le> BodySplit n then 1
      else length bts div BodySplit n + (if length bts mod BodySplit n > 0 then 1 else 0))"

definition last_len :: "NetworkBuffer \<Rightarrow> byte list \<Rightarrow> nat" where
  "last_len n bts =
     (if length bts mod BodySplit n > 0 then length bts mod BodySplit n else BodySplit n)"

definition frame_part :: "NetworkBuffer \<Rightarrow> byte list \<Rightarrow> nat \<Rightarrow> byte list" where
  "frame_part n bts i = take (BodySplit n) (drop (BodySplit n * i) bts)"

text \<open>A buffer of the right size with the start and end marks.\<close>

definition well_marked :: "NetworkBuffer \<Rightarrow> byte list \<Rightarrow> bool" where
  "well_marked n d \<longleftrightarrow> length d = TotalSize n \<and> d ! 0 = FirstByte \<and> d ! 1 = SecondByte \<and>
     d ! (length d - 1) = FirstByte \<and> d ! (length d - 2) = SecondByte"

locale frame_layout =
  fixes n :: NetworkBuffer
  assumes start: "BodyStart n = 12"
    and final: "FinalByte n = 12 + BodySplit n"
    and whole: "TotalSize n = 14 + BodySplit n"
    and split_pos: "0 < BodySplit n"
    and split_lt: "BodySplit n < 65536"
    and ping: "PingBytes n = ping_frame (TotalSize n)"
begin

lemma split_ne: "BodySplit n \<noteq> 0"
  using split_pos by simp

text \<open>Decoding a frame that is given by its twelve head bytes and its body.\<close>

lemma parse_head:
  assumes d: "d = 1 # 0 # a # b # c # k # f # g # h # i # j # l # body @ [0, 1]"
    and body: "length body = BodySplit n"
  shows "parse n d = parse_switch n d k
      \<lparr>jb_Uuid = unat a * 65536 + unat b * 256 + unat c,
       jb_Func = unat f * 256 + unat g, jb_Buck = 0, jb_Sort = 0, jb_Data = []\<rparr>
      (unat h * 256 + unat i) (unat j * 256 + unat l)"
proof -
  have len: "length d = TotalSize n"
    using body whole by (simp add: d)
  have ends: "d ! (length d - 1) = FirstByte" "d ! (length d - 2) = SecondByte"
    by (simp_all add: d frame_marks nth_append nth_Cons')
  have head: "d ! 0 = FirstByte" "d ! 1 = SecondByte" "d ! 2 = a" "d ! 3 = b" "d ! 4 = c"
    "d ! 5 = k" "d ! 6 = f" "d ! 7 = g" "d ! 8 = h" "d ! 9 = i" "d ! 10 = j" "d ! 11 = l"
    by (simp_all add: d frame_marks)
  show ?thesis
    unfolding parse_def by (simp only: len head ends [unfolded len]) simp
qed

text \<open>The slices the cases of the decoder take out of such a frame.\<close>

lemma slice_body:
  assumes d: "d = hd12 @ body @ [0, 1]" and "length hd12 = 12" and "length body = BodySplit n"
  shows "go_slice d (BodyStart n) (FinalByte n) = Ret body"
    and "len \<le> BodySplit n \<Longrightarrow> go_slice d (BodyStart n) (BodyStart n + len) = Ret (take len body)"
  using assms by (simp_all add: go_slice_def start final)

lemma slice_beyond:
  assumes "length d = TotalSize n" and "BodySplit n + 2 < len"
  shows "go_slice d (BodyStart n) (BodyStart n + len) = Panic SliceOutOfRange"
  using assms by (simp add: go_slice_panic start whole)

subsection \<open>How many frames, and how the data is cut\<close>

lemma frame_count_pos: "0 < frame_count n bts"
  by (auto simp: frame_count_def div_greater_zero_iff split_pos)

lemma several_frames:
  assumes "BodySplit n < length bts"
  shows "2 \<le> frame_count n bts"
    and "BodySplit n * (frame_count n bts - 1) + last_len n bts = length bts"
    and "0 < last_len n bts" and "last_len n bts \<le> BodySplit n"
proof -
  let ?q = "length bts div BodySplit n" and ?N = "frame_count n bts"
  define rest where "rest = length bts mod BodySplit n"
  have eq: "BodySplit n * ?q + rest = length bts"
    by (simp add: rest_def)
  have q: "1 \<le> ?q"
    using assms(1) split_pos by (simp add: div_greater_zero_iff Suc_le_eq)
  have N: "?N = ?q + (if rest > 0 then 1 else 0)"
    using assms(1) by (simp add: frame_count_def rest_def)
  have lst: "last_len n bts = (if rest > 0 then rest else BodySplit n)"
    by (simp add: last_len_def rest_def)
  have q2: "2 \<le> ?q" if "rest = 0"
  proof (rule ccontr)
    assume "\<not> 2 \<le> ?q"
    with q have "?q = 1" by simp
    with eq that assms(1) show False by simp
  qed
  show "2 \<le> ?N" using N q q2 by auto
  show "BodySplit n * (?N - 1) + last_len n bts = length bts"
    using eq N q by (cases ?q) (auto simp: lst)
  show "0 < last_len n bts" "last_len n bts \<le> BodySplit n"
    using split_pos by (auto simp: last_len_def intro: less_imp_le mod_less_divisor)
qed

lemma frame_count_bound:
  assumes "length bts \<le> 65535 * BodySplit n"
  shows "frame_count n bts \<le> 65535"
proof (cases "length bts \<le> BodySplit n")
  case True
  then show ?thesis by (simp add: frame_count_def)
next
  case False
  note s = several_frames [of bts]
  show ?thesis
  proof (rule ccontr)
    assume "\<not> ?thesis"
    then have "65535 \<le> frame_count n bts - 1" by simp
    then have "BodySplit n * 65535 \<le> BodySplit n * (frame_count n bts - 1)" by simp
    with s(2,3) False assms show False by linarith
  qed
qed

lemma frame_part_nonempty:
  assumes "bts \<noteq> []" and "i < frame_count n bts"
  shows "frame_part n bts i \<noteq> []"
proof (cases "length bts \<le> BodySplit n")
  case True
  with assms split_pos show ?thesis by (simp add: frame_count_def frame_part_def)
next
  case False
  note s = several_frames [of bts]
  have "BodySplit n * i \<le> BodySplit n * (frame_count n bts - 1)"
    using assms(2) by (intro mult_le_mono2) simp
  also have "\<dots> < length bts" using s(2,3) False by linarith
  finally show ?thesis using split_pos by (simp add: frame_part_def)
qed

lemma concat_frame_parts:
  "concat (map (frame_part n bts) [0..<frame_count n bts]) = bts"
proof -
  have "length bts \<le> BodySplit n * frame_count n bts"
  proof (cases "length bts \<le> BodySplit n")
    case True
    then show ?thesis by (simp add: frame_count_def)
  next
    case False
    note s = several_frames [of bts]
    have "length bts \<le> BodySplit n * (frame_count n bts - 1) + BodySplit n"
      using s(2,4) False by simp
    also have "\<dots> = BodySplit n * frame_count n bts"
      using s(1) False by (cases "frame_count n bts") auto
    finally show ?thesis .
  qed
  moreover have "frame_part n bts = (\<lambda>i. take (BodySplit n) (drop (BodySplit n * i) bts))"
    by (simp add: frame_part_def fun_eq_iff)
  ultimately show ?thesis
    by (simp add: concat_pieces)
qed

subsection \<open>The frames of a message, one by one\<close>

text \<open>The head of a frame: frame \<open>i\<close> of \<open>N\<close> is the data-less one, the only one, the start, a
  middle one or the final one.\<close>

lemma MakeReqBody_nil:
  "MakeReqBody n [] num fid =
     [buffPrefix num fid 0 0 BodyReqDataNil @ replicate (BodySplit n) 0 @ [0, 1]]"
proof -
  let ?h = "[1, 0, of_nat (num div 65536 mod 256), of_nat (num div 256 mod 256),
    of_nat (num mod 256), BodyReqDataNil, of_nat (fid div 256), of_nat (fid mod 256)] :: byte list"
  let ?b = "?h @ [0, 0, 0, 0] @ replicate (BodySplit n) 0 @ [0]"
  have "replicate (TotalSize n) (0::byte) = replicate 8 0 @ replicate (6 + BodySplit n) 0"
    by (simp add: whole flip: replicate_add)
  moreover have "replicate (6 + BodySplit n) (0::byte) =
      replicate 4 0 @ replicate (BodySplit n) 0 @ replicate 2 0"
  proof -
    have "6 + BodySplit n = 4 + (BodySplit n + 2)" by simp
    then show ?thesis by (simp only: replicate_add)
  qed
  moreover have "replicate 4 (0::byte) = [0, 0, 0, 0]" "replicate 2 (0::byte) = [0] @ [0]"
    by (simp_all add: numeral_eq_Suc)
  ultimately have "go_copy (replicate (TotalSize n) 0) ?h = ?b @ [0]"
    by (simp add: go_copy_def whole)
  moreover have "TotalSize n - 1 = length ?b"
    by (simp add: whole)
  ultimately have "(go_copy (replicate (TotalSize n) 0) ?h)[TotalSize n - 1 := FirstByte] = ?b @ [1]"
    by (simp only: list_update_length frame_marks)
  then show ?thesis
    by (simp add: MakeReqBody_def buffPrefix_def frame_marks)
qed

lemma MakeReqBody_whole:
  assumes "bts \<noteq> []" and "length bts \<le> BodySplit n"
  shows "MakeReqBody n bts num fid =
     [buffPrefix num fid 1 (length bts) BodyWholeData
      @ (bts @ replicate (BodySplit n - length bts) 0) @ [0, 1]]"
  using assms by (simp add: MakeReqBody_def buffPrefix_def whole)

lemma MakeReqBody_several:
  assumes "BodySplit n < length bts"
  defines "N \<equiv> frame_count n bts"
  shows "MakeReqBody n bts num fid =
      (buffPrefix num fid N 1 BodyBodyStart @ frame_part n bts 0 @ [0, 1])
      # map (\<lambda>i. buffPrefix num fid N (Suc i) BodyReqMiddle @ frame_part n bts i @ [0, 1])
          [1..<N - 1]
      @ [buffPrefix num fid N (last_len n bts) BodyReqFinaly
         @ (frame_part n bts (N - 1) @ replicate (BodySplit n - last_len n bts) 0) @ [0, 1]]"
proof -
  note s = several_frames [OF assms(1)]
  have len: "\<not> length bts = 0" "\<not> length bts \<le> BodySplit n" using assms(1) by auto
  have N: "length bts div BodySplit n + (if length bts mod BodySplit n > 0 then 1 else 0) = N"
    using len by (simp add: N_def frame_count_def)
  have part: "drop (BodySplit n * (N - 1)) bts = frame_part n bts (N - 1)"
    using s(2,4) by (auto simp: frame_part_def N_def)
  have cut: "[1..<N] = 1 # [2..<N]"
    using upt_conv_Cons [of 1 N] s(1) unfolding Suc_1 by (simp add: N_def)
  have shift: "[2..<N] = map Suc [1..<N - 1]"
    by (rule nth_equalityI) auto
  show ?thesis
    unfolding MakeReqBody_def Let_def
    apply (simp only: len if_False N last_len_def [symmetric] part cut shift)
    by (simp add: buffPrefix_def frame_marks frame_part_def of_nat_mod_byte)
qed

lemma length_MakeReqBody: "length (MakeReqBody n bts num fid) = frame_count n bts"
proof (cases "BodySplit n < length bts")
  case True
  with several_frames(1) [OF True] show ?thesis by (simp add: MakeReqBody_several)
next
  case False
  then show ?thesis
    by (cases "bts = []") (simp_all add: MakeReqBody_nil MakeReqBody_whole frame_count_def)
qed

text \<open>A frame with the head \<open>buffPrefix\<close> decodes to the numbers the head was made of.\<close>

lemma parse_prefixed:
  assumes d: "d = buffPrefix num fid buck lst k @ body @ [0, 1]"
    and body: "length body = BodySplit n"
    and "num < 16777216" "fid < 65536" "buck < 65536" "lst < 65536"
  shows "parse n d = parse_switch n d k
      \<lparr>jb_Uuid = num, jb_Func = fid, jb_Buck = 0, jb_Sort = 0, jb_Data = []\<rparr> buck lst"
proof -
  let ?b = "\<lambda>x. of_nat x :: byte"
  have "d = 1 # 0 # ?b (num div 65536 mod 256) # ?b (num div 256 mod 256) # ?b (num mod 256) # k
      # ?b (fid div 256) # ?b (fid mod 256) # ?b (buck div 256) # ?b (buck mod 256)
      # ?b (lst div 256) # ?b (lst mod 256) # body @ [0, 1]"
    by (simp add: d buffPrefix_def frame_marks)
  from parse_head [OF this body] show ?thesis
    by (simp only: be16_decode be24_decode assms)
qed

lemma length_buffPrefix: "length (buffPrefix num fid buck lst k) = 12"
  by (simp add: buffPrefix_def)

lemmas prefixed_slice = slice_body [OF _ length_buffPrefix]

lemma parse_prefixed_data:
  assumes "d = buffPrefix num fid buck lst k @ body @ [0, 1]" and "length body = BodySplit n"
    and "num < 16777216" "fid < 65536" "buck < 65536" "lst < 65536"
  shows "k \<in> {BodyReqDataNil, BodyRespDataNil} \<Longrightarrow> parse n d =
           Ret (Some \<lparr>jb_Uuid = num, jb_Func = fid, jb_Buck = 1, jb_Sort = 1, jb_Data = []\<rparr>, None)"
    and "k \<in> {BodyBodyStart, BodyRespStart} \<Longrightarrow> parse n d =
           Ret (Some \<lparr>jb_Uuid = num, jb_Func = fid, jb_Buck = buck, jb_Sort = 1, jb_Data = body\<rparr>, None)"
    and "k \<in> {BodyReqMiddle, BodyRespMiddle} \<Longrightarrow> parse n d =
           Ret (Some \<lparr>jb_Uuid = num, jb_Func = fid, jb_Buck = buck, jb_Sort = lst, jb_Data = body\<rparr>, None)"
    and "k \<in> {BodyReqFinaly, BodyRespFinaly} \<Longrightarrow> lst \<le> BodySplit n \<Longrightarrow> parse n d =
           Ret (Some \<lparr>jb_Uuid = num, jb_Func = fid, jb_Buck = buck, jb_Sort = buck,
                      jb_Data = take lst body\<rparr>, None)"
    and "k \<in> {BodyWholeData, BodyRespSuccess} \<Longrightarrow> lst \<le> BodySplit n \<Longrightarrow> parse n d =
           Ret (Some \<lparr>jb_Uuid = num, jb_Func = fid, jb_Buck = 1, jb_Sort = 1,
                      jb_Data = take lst body\<rparr>, None)"
    and "k = BodyRespFailed \<Longrightarrow> lst \<le> BodySplit n \<Longrightarrow> parse n d =
           Ret (Some \<lparr>jb_Uuid = num, jb_Func = fid, jb_Buck = 1, jb_Sort = 1, jb_Data = []\<rparr>,
                Some (string_of_bytes (take lst body)))"
  using parse_prefixed [OF assms] prefixed_slice [OF assms(1,2)]
  by (auto simp: parse_switch_def body_types)

lemma frame_part_length:
  assumes "BodySplit n < length bts"
  shows "i < frame_count n bts - 1 \<Longrightarrow> length (frame_part n bts i) = BodySplit n"
    and "length (frame_part n bts (frame_count n bts - 1)) = last_len n bts"
proof -
  note s = several_frames [OF assms]
  show "length (frame_part n bts i) = BodySplit n" if "i < frame_count n bts - 1"
  proof -
    have "BodySplit n * Suc i \<le> BodySplit n * (frame_count n bts - 1)"
      using that by (intro mult_le_mono2) simp
    with s(2) show ?thesis by (simp add: frame_part_def)
  qed
  show "length (frame_part n bts (frame_count n bts - 1)) = last_len n bts"
    using s(2,4) by (simp add: frame_part_def)
qed

lemma parse_frame:
  assumes num: "num < 16777216" and fid: "fid < 65536"
    and len: "length bts \<le> 65535 * BodySplit n" and i: "i < frame_count n bts"
  shows "parse n (MakeReqBody n bts num fid ! i) =
    Ret (Some \<lparr>jb_Uuid = num, jb_Func = fid, jb_Buck = frame_count n bts, jb_Sort = Suc i,
               jb_Data = frame_part n bts i\<rparr>, None)"
proof -
  note decode = parse_prefixed_data [OF _ _ num fid]
  have N: "frame_count n bts < 65536"
    using frame_count_bound [OF len] by simp
  consider (nil) "bts = []" | (one) "bts \<noteq> []" "length bts \<le> BodySplit n"
    | (many) "BodySplit n < length bts"
    by linarith
  then show ?thesis
  proof cases
    case nil
    with i have "i = 0" by (simp add: frame_count_def)
    with nil show ?thesis
      by (simp add: MakeReqBody_nil decode(1) frame_count_def frame_part_def)
  next
    case one
    with i have "i = 0" by (simp add: frame_count_def)
    with one split_lt show ?thesis
      by (simp add: MakeReqBody_whole decode(5) frame_count_def frame_part_def)
  next
    case many
    note s = several_frames [OF many]
    let ?N = "frame_count n bts"
    note full = frame_part_length(1) [OF many, of i] and last = frame_part_length(2) [OF many]
    consider "i = 0" | "0 < i" "i < ?N - 1" | "0 < i" "i = ?N - 1" using i by linarith
    then show ?thesis
    proof cases
      case 1
      with full s(1) N show ?thesis
        by (simp add: MakeReqBody_several many decode(2))
    next
      case 2
      then have "i - Suc 0 < ?N - Suc (Suc 0)" by linarith
      with 2 full N show ?thesis
        by (simp add: MakeReqBody_several many decode(3) nth_Cons' nth_append)
    next
      case 3
      with last s N split_lt show ?thesis
        by (simp add: MakeReqBody_several many decode(4) nth_Cons' nth_append)
    qed
  qed
qed

lemma frame_length:
  assumes "fr \<in> set (MakeReqBody n bts num fid)"
  shows "length fr = TotalSize n"
proof (cases "BodySplit n < length bts")
  case True
  note s = several_frames [OF True]
  with assms frame_part_length [OF True] True show ?thesis
    by (auto simp: MakeReqBody_several length_buffPrefix whole)
next
  case False
  with assms show ?thesis
    by (cases "bts = []")
      (auto simp: MakeReqBody_nil MakeReqBody_whole length_buffPrefix whole)
qed

subsection \<open>Responses and pings\<close>

text \<open>An error answer is one frame; it carries the message, cut to the body size.\<close>

lemma parse_error_answer:
  assumes "num < 16777216" and "fid < 65536"
  shows "\<exists>fr. MakeRspBody n bts num fid (Some e) = [fr] \<and>
    parse n fr = Ret (Some \<lparr>jb_Uuid = num, jb_Func = fid, jb_Buck = 1, jb_Sort = 1, jb_Data = []\<rparr>,
                      Some (take (BodySplit n) e))"
proof -
  define msg where "msg = take (BodySplit n) (bytes_of_string e)"
  have len: "length msg \<le> BodySplit n" by (simp add: msg_def)
  define fr where "fr = buffPrefix num fid 1 (length msg) BodyRespFailed
      @ (msg @ replicate (BodySplit n - length msg) 0) @ [0, 1]"
  have mk: "MakeRspBody n bts num fid (Some e) = [fr]"
    by (simp add: MakeRspBody_def fr_def msg_def Let_def min_def)
  have "parse n fr = Ret (Some \<lparr>jb_Uuid = num, jb_Func = fid, jb_Buck = 1, jb_Sort = 1, jb_Data = []\<rparr>,
          Some (string_of_bytes (take (length msg) (msg @ replicate (BodySplit n - length msg) 0))))"
    by (rule parse_prefixed_data(6) [OF fr_def]) (use assms len split_lt in auto)
  moreover have "string_of_bytes msg = take (BodySplit n) e"
    by (simp add: msg_def string_of_bytes_take)
  ultimately show ?thesis using mk by auto
qed

lemma ping_frame_form:
  "PingBytes n = buffPrefix 1 PingNetwork 1 1 BodyWholeData @ replicate (BodySplit n) 0 @ [0, 1]"
proof -
  let ?h = "buffPrefix 1 PingNetwork 1 1 0"
  have "14 + BodySplit n = 12 + (BodySplit n + 2)" by simp
  then have "replicate (TotalSize n) (0::byte) =
      replicate 12 0 @ replicate (BodySplit n) 0 @ replicate 2 0"
    by (simp only: whole replicate_add)
  moreover have "replicate 2 (0::byte) = [0] @ [0]" by (simp add: numeral_eq_Suc)
  ultimately have d: "go_copy (replicate (TotalSize n) 0) ?h =
      (?h @ replicate (BodySplit n) 0 @ [0]) @ [0]"
    by (simp add: go_copy_def whole length_buffPrefix)
  moreover have "length ((?h @ replicate (BodySplit n) 0 @ [0]) @ [0]) - 1 =
      length (?h @ replicate (BodySplit n) 0 @ [0])"
    by simp
  ultimately show ?thesis
    by (simp only: ping ping_frame_def Let_def list_update_length)
      (simp add: frame_marks BodyWholeData_def)
qed

lemma parse_ping: "parse n (PingBytes n) =
    Ret (Some \<lparr>jb_Uuid = 1, jb_Func = PingNetwork, jb_Buck = 1, jb_Sort = 1, jb_Data = [0]\<rparr>, None)"
proof -
  have "take 1 (replicate (BodySplit n) (0::byte)) = [0]"
    using split_pos by (cases "BodySplit n") auto
  then show ?thesis
    using parse_prefixed_data(5) [OF ping_frame_form] split_pos
    by (simp add: builtin_ids)
qed

subsection \<open>When decoding panics\<close>

lemma parse_panic_iff:
  "parse n d = Panic p \<longleftrightarrow> p = SliceOutOfRange \<and> well_marked n d \<and>
     d ! 5 \<in> {BodyWholeData, BodyRespSuccess, BodyRespFailed, BodyReqFinaly, BodyRespFinaly} \<and>
     BodySplit n + 2 < unat (d ! 10) * 256 + unat (d ! 11)"
proof (cases "well_marked n d")
  case True
  then have len: "length d = TotalSize n" by (simp add: well_marked_def)
  have inner: "go_slice d (BodyStart n) (FinalByte n) \<noteq> Panic q" for q
    by (simp add: go_slice_def len start final whole)
  have outer: "go_slice d (BodyStart n) (BodyStart n + l) = Panic q \<longleftrightarrow>
      q = SliceOutOfRange \<and> BodySplit n + 2 < l" for l q
    by (auto simp: go_slice_def len start whole)
  have switch: "parse_switch n d k t b l = Panic p \<longleftrightarrow> p = SliceOutOfRange \<and>
      k \<in> {BodyWholeData, BodyRespSuccess, BodyRespFailed, BodyReqFinaly, BodyRespFinaly} \<and>
      BodySplit n + 2 < l" for k t b l
    by (auto simp: parse_switch_def go_bind_Panic_iff inner outer body_types)
  from True show ?thesis
    by (auto simp: parse_def well_marked_def switch)
next
  case False
  then show ?thesis
    by (auto simp: parse_def well_marked_def)
qed

end

interpretation tcp: frame_layout tcpsplit
  by unfold_locales (simp_all add: tcpsplit_def)

interpretation udp: frame_layout udpsplit
  by unfold_locales (simp_all add: udpsplit_def)

section \<open>Properties\<close>

text \<open>C1: On both layouts of the program a request of at most 65535 frames is cut into frames of the
  layout's size; frame \<open>i\<close> decodes to the event number, the function id, the number of frames, its
  own position and its part of the data, and the parts joined are the data.\<close>

theorem frames_carry_message:
  assumes "nt \<in> {tcpsplit, udpsplit}" and "num < 16777216" and "fid < 65536"
    and "length bts \<le> 65535 * BodySplit nt"
  shows "length (MakeReqBody nt bts num fid) = frame_count nt bts \<and>
    (\<forall>fr \<in> set (MakeReqBody nt bts num fid). length fr = TotalSize nt) \<and>
    (\<forall>i < frame_count nt bts. parse nt (MakeReqBody nt bts num fid ! i) =
       Ret (Some \<lparr>jb_Uuid = num, jb_Func = fid, jb_Buck = frame_count nt bts, jb_Sort = Suc i,
                  jb_Data = frame_part nt bts i\<rparr>, None)) \<and>
    concat (map (frame_part nt bts) [0..<frame_count nt bts]) = bts"
  using assms tcp.parse_frame udp.parse_frame tcp.frame_length udp.frame_length
  by (auto simp: tcp.length_MakeReqBody udp.length_MakeReqBody tcp.concat_frame_parts
      udp.concat_frame_parts)

theorem frames_carry_message_witness:
  "parse udpsplit (MakeReqBody udpsplit [7, 8, 9] 70000 321 ! 0) =
     Ret (Some \<lparr>jb_Uuid = 70000, jb_Func = 321, jb_Buck = frame_count udpsplit [7, 8, 9],
                jb_Sort = Suc 0, jb_Data = frame_part udpsplit [7, 8, 9] 0\<rparr>, None)"
  using frames_carry_message [of udpsplit 70000 321 "[7, 8, 9]"]
  by (simp add: udpsplit_def frame_count_def)

text \<open>C13: Decoding one buffer panics exactly when the buffer has the layout's size and marks, its type
  is one whose length field is used, and that field points behind the buffer.\<close>

theorem decode_panics_iff:
  assumes "nt \<in> {tcpsplit, udpsplit}"
  shows "parse nt d = Panic p \<longleftrightarrow> p = SliceOutOfRange \<and> well_marked nt d \<and>
     d ! 5 \<in> {BodyWholeData, BodyRespSuccess, BodyRespFailed, BodyReqFinaly, BodyRespFinaly} \<and>
     BodySplit nt + 2 < unat (d ! 10) * 256 + unat (d ! 11)"
  using assms tcp.parse_panic_iff udp.parse_panic_iff by blast

theorem decode_panics_iff_witness:
  "parse udpsplit ([1, 0, 0, 0, 1, 0, 0, 80, 0, 1, 255, 255] @ replicate 520 0 @ [0, 1]) =
     Panic SliceOutOfRange"
  using decode_panics_iff [of udpsplit
      "[1, 0, 0, 0, 1, 0, 0, 80, 0, 1, 255, 255] @ replicate 520 0 @ [0, 1]" SliceOutOfRange]
  by (simp add: udpsplit_def well_marked_def frame_marks body_types nth_append)

text \<open>An error answer is a single frame that decodes to the event number, the function id and the
  error message, cut to the size of a body.\<close>

lemma error_answer_decodes:
  assumes "nt \<in> {tcpsplit, udpsplit}" and "num < 16777216" and "fid < 65536"
  shows "\<exists>fr. MakeRspBody nt bts num fid (Some e) = [fr] \<and>
    parse nt fr = Ret (Some \<lparr>jb_Uuid = num, jb_Func = fid, jb_Buck = 1, jb_Sort = 1, jb_Data = []\<rparr>,
                       Some (take (BodySplit nt) e))"
  using assms tcp.parse_error_answer udp.parse_error_answer by blast

lemma error_answer_decodes_witness:
  "\<exists>fr. MakeRspBody tcpsplit [] 789 987 (Some ''no'') = [fr] \<and>
    parse tcpsplit fr = Ret (Some \<lparr>jb_Uuid = 789, jb_Func = 987, jb_Buck = 1, jb_Sort = 1,
      jb_Data = []\<rparr>, Some (take (BodySplit tcpsplit) ''no''))"
  by (rule error_answer_decodes) simp_all

end
