(* ===== verification/Reassembly.thy ===== *)
theory Reassembly
  imports Framing
begin

text \<open>
  The receiving side of a connection in network/rpc/conns.go: \<open>ReadLink\<close>, the table of messages
  whose frames are still arriving (field \<open>list\<close> of \<open>NodeConn\<close>), and \<open>ParseResp\<close>, which decodes one
  frame, files it and returns the message once all its frames are there. The table maps an event
  number to its \<open>ReadLink\<close>; \<open>ParseResp\<close> is the only code that touches it, so the pointers it holds
  are modelled by their contents.

  The lemmas show the reassembly correct: frames in any order, repeated, and interleaved with
  frames of other messages give the message back exactly once.
\<close>

section \<open>State and operations\<close>

record ReadLink =
  rl_funcid :: nat
  rl_buck :: nat
  rl_uuid :: nat
  rl_body :: "byte list list"
  rl_recv :: uint32

type_synonym link_table = "nat \<rightharpoonup> ReadLink"

text \<open>The four results of \<open>ParseResp\<close>: event number, function id, body, error.\<close>

type_synonym resp = "nat \<times> nat \<times> byte list \<times> error option"

definition no_resp :: resp where "no_resp = (0, 0, [], None)"
definition resp_error :: "error \<Rightarrow> resp" where "resp_error e = (0, 0, [], Some e)"

text \<open>
  A frame for an event number that is already in the table. \<open>tmp.body[body.Sort-1]\<close> with
  \<open>Sort = 0\<close> reads index -1, a panic: this branch does not check the lower bound.
\<close>

definition join_known :: "link_table \<Rightarrow> JoinBodyData \<Rightarrow> ReadLink \<Rightarrow> (link_table \<times> resp) go" where
  "join_known m b tmp =
     (if jb_Buck b \<noteq> rl_buck tmp \<or> jb_Func b \<noteq> rl_funcid tmp then
        Ret (m(jb_Uuid b := None), resp_error ''recv wrong'')
      else if jb_Sort b \<noteq> 0 \<and> jb_Sort b - 1 \<ge> length (rl_body tmp) then
        Ret (m(jb_Uuid b := None), resp_error ''recv uuid body buck wrong'')
      else if jb_Sort b = 0 then Panic IndexOutOfRange
      else if length (rl_body tmp ! (jb_Sort b - 1)) = 0 then
        let tmp = tmp\<lparr>rl_recv := rl_recv tmp + 1,
                      rl_body := (rl_body tmp)[jb_Sort b - 1 := jb_Data b]\<rparr>;
            m = m(jb_Uuid b \<mapsto> tmp)
        in if unat (rl_recv tmp) \<ge> rl_buck tmp then
             if [] \<in> set (rl_body tmp) then Ret (m, no_resp)
             else Ret (m(jb_Uuid b := None),
                       (jb_Uuid b, jb_Func b, concat (rl_body tmp), None))
           else Ret (m, no_resp)
      else Ret (m, no_resp))"

text \<open>The first frame that arrives of a message.\<close>

definition join_new :: "link_table \<Rightarrow> JoinBodyData \<Rightarrow> link_table \<times> resp" where
  "join_new m b =
     (let tmp = \<lparr>rl_funcid = jb_Func b, rl_buck = jb_Buck b, rl_uuid = jb_Uuid b,
                 rl_body = replicate (jb_Buck b) [], rl_recv = 1\<rparr>
      in if jb_Sort b = 0 \<or> jb_Sort b - 1 \<ge> length (rl_body tmp) then
           (m(jb_Uuid b := None), resp_error ''recv uuid body buck wrong'')
         else
           (m(jb_Uuid b \<mapsto> tmp\<lparr>rl_body := (rl_body tmp)[jb_Sort b - 1 := jb_Data b]\<rparr>), no_resp))"

text \<open>The part of \<open>ParseResp\<close> behind its check of the decoder's error.\<close>

definition join_body :: "link_table \<Rightarrow> JoinBodyData \<Rightarrow> (link_table \<times> resp) go" where
  "join_body m b =
     (if jb_Sort b > jb_Buck b then Ret (m, no_resp)
      else if jb_Buck b = 1 then Ret (m, (jb_Uuid b, jb_Func b, jb_Data b, None))
      else if jb_Buck b > 1 then
        (case m (jb_Uuid b) of
           Some tmp \<Rightarrow> join_known m b tmp
         | None \<Rightarrow> Ret (join_new m b))
      else Ret (m, no_resp))"

definition ParseResp ::
    "NetworkBuffer \<Rightarrow> link_table \<Rightarrow> byte list \<Rightarrow> (link_table \<times> resp) go" where
  "ParseResp nt m d =
     go_bind (parse nt d) (\<lambda>(body, err).
       case err of
         Some e \<Rightarrow> Ret (m, resp_error e)
       | None \<Rightarrow> (case body of None \<Rightarrow> Ret (m, no_resp) | Some b \<Rightarrow> join_body m b))"

text \<open>Frames that arrive one after the other on one connection, with the results in order.\<close>

fun receive ::
    "NetworkBuffer \<Rightarrow> link_table \<Rightarrow> byte list list \<Rightarrow> (link_table \<times> resp list) go" where
  "receive nt m [] = Ret (m, [])"
| "receive nt m (d # ds) =
     go_bind (ParseResp nt m d) (\<lambda>(m', r).
       go_bind (receive nt m' ds) (\<lambda>(m'', rs). Ret (m'', r # rs)))"

section \<open>The abstract receiver\<close>

text \<open>
  What the table means: of every message, identified by its event number, the set of frame
  indices that have arrived. A message is complete when the set is full; it is then handed out
  and forgotten. \<open>msgs\<close> gives the function id and the data of each message on the way.
\<close>

type_synonym messages = "nat \<Rightarrow> nat \<times> byte list"

abbreviation frames_of :: "NetworkBuffer \<Rightarrow> messages \<Rightarrow> nat \<Rightarrow> nat set" where
  "frames_of n msgs u \<equiv> {..<frame_count n (snd (msgs u))}"

fun arrive :: "NetworkBuffer \<Rightarrow> messages \<Rightarrow> (nat \<Rightarrow> nat set) \<Rightarrow> nat \<times> nat \<Rightarrow> (nat \<Rightarrow> nat set) \<times> nat option"
where
  "arrive n msgs A (u, i) =
     (if insert i (A u) = frames_of n msgs u then (A(u := {}), Some u)
      else (A(u := insert i (A u)), None))"

fun arrivals ::
    "NetworkBuffer \<Rightarrow> messages \<Rightarrow> (nat \<Rightarrow> nat set) \<Rightarrow> (nat \<times> nat) list
     \<Rightarrow> (nat \<Rightarrow> nat set) \<times> nat option list" where
  "arrivals n msgs A [] = (A, [])"
| "arrivals n msgs A (e # es) =
     (let (A', r) = arrive n msgs A e; (A'', rs) = arrivals n msgs A' es in (A'', r # rs))"

text \<open>The frame on the wire, the result and the table that stand for the abstract ones.\<close>

definition wire :: "NetworkBuffer \<Rightarrow> messages \<Rightarrow> nat \<times> nat \<Rightarrow> byte list" where
  "wire n msgs e = MakeReqBody n (snd (msgs (fst e))) (fst e) (fst (msgs (fst e))) ! snd e"

definition resp_of :: "messages \<Rightarrow> nat option \<Rightarrow> resp" where
  "resp_of msgs r = (case r of None \<Rightarrow> no_resp | Some u \<Rightarrow> (u, fst (msgs u), snd (msgs u), None))"

definition link_of :: "NetworkBuffer \<Rightarrow> messages \<Rightarrow> nat \<Rightarrow> nat set \<Rightarrow> ReadLink option" where
  "link_of n msgs u S =
     (if S = {} then None
      else Some \<lparr>rl_funcid = fst (msgs u), rl_buck = frame_count n (snd (msgs u)), rl_uuid = u,
                 rl_body = map (\<lambda>i. if i \<in> S then frame_part n (snd (msgs u)) i else [])
                               [0..<frame_count n (snd (msgs u))],
                 rl_recv = of_nat (card S)\<rparr>)"

definition table_of :: "NetworkBuffer \<Rightarrow> messages \<Rightarrow> nat set \<Rightarrow> link_table \<Rightarrow> (nat \<Rightarrow> nat set) \<Rightarrow> link_table"
where
  "table_of n msgs U m A = (\<lambda>u. if u \<in> U then link_of n msgs u (A u) else m u)"

definition sendable :: "NetworkBuffer \<Rightarrow> messages \<Rightarrow> nat set \<Rightarrow> bool" where
  "sendable n msgs U \<longleftrightarrow> (\<forall>u \<in> U. u < 16777216 \<and> fst (msgs u) < 65536 \<and>
     length (snd (msgs u)) \<le> 65535 * BodySplit n)"

definition partial :: "NetworkBuffer \<Rightarrow> messages \<Rightarrow> nat set \<Rightarrow> (nat \<Rightarrow> nat set) \<Rightarrow> bool" where
  "partial n msgs U A \<longleftrightarrow> (\<forall>u \<in> U. A u \<subset> frames_of n msgs u)"

lemma fst_arrive [simp]: "fst (arrive n msgs A (u, i)) =
    A(u := if insert i (A u) = frames_of n msgs u then {} else insert i (A u))"
  by simp

lemma snd_arrive [simp]: "snd (arrive n msgs A (u, i)) =
    (if insert i (A u) = frames_of n msgs u then Some u else None)"
  by simp

declare arrive.simps [simp del]

lemma arrivals_Cons:
  "arrivals n msgs A (e # es) =
     (let A' = fst (arrive n msgs A e)
      in (fst (arrivals n msgs A' es), snd (arrive n msgs A e) # snd (arrivals n msgs A' es)))"
  by (simp split: prod.splits)

declare arrivals.simps(2) [simp del]
declare arrivals_Cons [simp]

lemma table_of_update: "u \<in> U \<Longrightarrow>
    table_of n msgs U m (A(u := S)) = (table_of n msgs U m A)(u := link_of n msgs u S)"
  by (auto simp: table_of_def fun_eq_iff)

context frame_layout
begin

lemma join_first:
  assumes "i < N" and "N \<le> 65535"
    and b: "b = \<lparr>jb_Uuid = u, jb_Func = f, jb_Buck = N, jb_Sort = Suc i, jb_Data = d\<rparr>"
  shows "join_new m b = (m(u \<mapsto> \<lparr>rl_funcid = f, rl_buck = N, rl_uuid = u,
      rl_body = map (\<lambda>j. if j = i then d else []) [0..<N], rl_recv = 1\<rparr>), no_resp)"
proof -
  have "(replicate N [])[i := d] = map (\<lambda>j. if j = i then d else []) [0..<N]"
    using assms(1) by (intro nth_equalityI) (auto simp: nth_list_update)
  then show ?thesis using assms by (simp add: join_new_def)
qed

lemma join_next:
  assumes i: "i < N" and N: "N \<le> 65535" and S: "S \<subset> {..<N}" and ne: "\<And>j. j < N \<Longrightarrow> f j \<noteq> []"
    and b: "b = \<lparr>jb_Uuid = u, jb_Func = fid, jb_Buck = N, jb_Sort = Suc i, jb_Data = f i\<rparr>"
    and l: "l = (\<lambda>S. \<lparr>rl_funcid = fid, rl_buck = N, rl_uuid = u,
        rl_body = map (\<lambda>j. if j \<in> S then f j else []) [0..<N], rl_recv = of_nat (card S)\<rparr>)"
    and m: "m u = Some (l S)"
  shows "join_known m b (l S) = Ret
    (if insert i S = {..<N} then (m(u := None), (u, fid, concat (map f [0..<N]), None))
     else (m(u \<mapsto> l (insert i S)), no_resp))"
proof (cases "i \<in> S")
  case True
  then have "insert i S = S" by blast
  with True i S ne m show ?thesis
    by (auto simp: join_known_def b l map_upd_triv)
next
  case False
  let ?body = "\<lambda>S. map (\<lambda>j. if j \<in> S then f j else []) [0..<N]"
  define T where "T = insert i S"
  have upd: "(?body S)[i := f i] = ?body T"
    using i by (intro nth_equalityI) (auto simp: nth_list_update T_def)
  have fin: "finite S" using S finite_subset by blast
  have T: "T \<subseteq> {..<N}" "card T \<le> N"
    using S i card_mono [of "{..<N}" T] by (auto simp: T_def)
  have recv: "(of_nat (card S) + 1 :: uint32) = of_nat (card T)"
    using False fin by (simp add: T_def)
  have unat: "unat (of_nat (card T) :: uint32) = card T"
    using T N by (simp add: unat_of_nat)
  have full: "N \<le> card T \<longleftrightarrow> T = {..<N}"
    using T card_subset_eq [of "{..<N}" T] by auto
  have step: "join_known m b (l S) =
      (if T = {..<N} then
         if [] \<in> set (?body T) then Ret (m(u \<mapsto> l T), no_resp)
         else Ret (m(u := None), (u, fid, concat (?body T), None))
       else Ret (m(u \<mapsto> l T), no_resp))"
    using False i by (simp add: join_known_def b l upd recv unat full Let_def)
  have eq: "?body T = map f [0..<N]" if "T = {..<N}"
    using that by simp
  have gap: "[] \<notin> set (map f [0..<N])" using ne by force
  have "join_known m b (l S) =
      (if T = {..<N} then Ret (m(u := None), (u, fid, concat (map f [0..<N]), None))
       else Ret (m(u \<mapsto> l T), no_resp))"
  proof (cases "T = {..<N}")
    case True
    then show ?thesis unfolding step eq [OF True] using gap by simp
  qed (simp add: step)
  then show ?thesis by (simp add: T_def)
qed

text \<open>One frame: the concrete step is the abstract one, for a message of one frame, for the first frame of a longer
  message, and for a later one.\<close>

lemma parse_wire:
  assumes "sendable n msgs U" and "u \<in> U" and "i \<in> frames_of n msgs u"
  shows "parse n (wire n msgs (u, i)) = Ret (Some \<lparr>jb_Uuid = u, jb_Func = fst (msgs u),
      jb_Buck = frame_count n (snd (msgs u)), jb_Sort = Suc i, jb_Data = frame_part n (snd (msgs u)) i\<rparr>, None)"
    and "frame_count n (snd (msgs u)) \<le> 65535"
proof -
  from assms(1,2) have bounds: "u < 16777216" "fst (msgs u) < 65536" "length (snd (msgs u)) \<le> 65535 * BodySplit n"
    by (auto simp: sendable_def)
  show "frame_count n (snd (msgs u)) \<le> 65535" by (rule frame_count_bound) (rule bounds)
  from assms(3) show "parse n (wire n msgs (u, i)) = Ret (Some \<lparr>jb_Uuid = u, jb_Func = fst (msgs u),
      jb_Buck = frame_count n (snd (msgs u)), jb_Sort = Suc i, jb_Data = frame_part n (snd (msgs u)) i\<rparr>, None)"
    using parse_frame [OF bounds] by (simp add: wire_def)
qed

lemma arrive_whole:
  assumes "sendable n msgs U" and "partial n msgs U A" and "u \<in> U" and "i \<in> frames_of n msgs u"
    and one: "frame_count n (snd (msgs u)) = 1"
  shows "ParseResp n (table_of n msgs U m A) (wire n msgs (u, i)) =
    Ret (table_of n msgs U m (fst (arrive n msgs A (u, i))), resp_of msgs (snd (arrive n msgs A (u, i))))"
proof -
  let ?T = "table_of n msgs U m A"
  have "A u \<subset> frames_of n msgs u" using assms(2,3) unfolding partial_def by blast
  moreover have single: "frames_of n msgs u = {0}" unfolding one by (simp add: lessThan_Suc)
  ultimately have empty: "A u = {}" "i = 0" using assms(4) by (simp only: single, blast)+
  moreover have "frame_part n (snd (msgs u)) 0 = snd (msgs u)"
    using concat_frame_parts [of "snd (msgs u)"] one by simp
  moreover have "?T(u := None) = ?T"
    using assms(3) empty(1) by (auto simp: table_of_def link_of_def fun_eq_iff)
  ultimately show ?thesis
    using one assms(3) parse_wire(1) [OF assms(1,3,4)]
    by (simp add: ParseResp_def join_body_def resp_of_def table_of_update link_of_def lessThan_Suc)
qed

lemma arrive_first:
  assumes "sendable n msgs U" and "u \<in> U" and "i \<in> frames_of n msgs u"
    and more: "1 < frame_count n (snd (msgs u))" and empty: "A u = {}"
  shows "ParseResp n (table_of n msgs U m A) (wire n msgs (u, i)) =
    Ret (table_of n msgs U m (fst (arrive n msgs A (u, i))), resp_of msgs (snd (arrive n msgs A (u, i))))"
proof -
  let ?N = "frame_count n (snd (msgs u))" and ?d = "frame_part n (snd (msgs u))" and ?T = "table_of n msgs U m A"
  have T: "?T u = None" using assms(2) empty by (simp add: table_of_def link_of_def)
  have i: "i < ?N" using assms(3) by simp
  have "0 \<in> {..<?N}" "1 \<in> {..<?N}" using more by simp_all
  then have "{i} \<noteq> {..<?N}" by (metis singletonD zero_neq_one)
  moreover have "(\<lambda>j. if j = i then ?d i else []) = (\<lambda>j. if j \<in> {i} then ?d j else [])" by auto
  ultimately show ?thesis
    using more empty assms(2) T i join_first [where u = u and f = "fst (msgs u)" and d = "?d i" and m = ?T,
        OF i parse_wire(2) [OF assms(1-3)] refl]
    by (simp add: ParseResp_def join_body_def parse_wire(1) [OF assms(1-3)] resp_of_def table_of_update link_of_def)
qed

lemma arrive_later:
  assumes "sendable n msgs U" and "partial n msgs U A" and "u \<in> U" and "i \<in> frames_of n msgs u"
    and more: "1 < frame_count n (snd (msgs u))" and later: "A u \<noteq> {}"
  shows "ParseResp n (table_of n msgs U m A) (wire n msgs (u, i)) =
    Ret (table_of n msgs U m (fst (arrive n msgs A (u, i))), resp_of msgs (snd (arrive n msgs A (u, i))))"
proof -
  let ?bts = "snd (msgs u)" and ?T = "table_of n msgs U m A"
  have "?bts \<noteq> []" using more by (auto simp: frame_count_def)
  then have ne: "frame_part n ?bts j \<noteq> []" if "j < frame_count n ?bts" for j
    using that by (rule frame_part_nonempty)
  have i: "i < frame_count n ?bts" and S: "A u \<subset> {..<frame_count n ?bts}"
    using assms(2-4) by (auto simp: partial_def)
  have T: "?T u = link_of n msgs u (A u)" using assms(3) by (simp add: table_of_def)
  show ?thesis
    using later more assms(3) T i concat_frame_parts [of ?bts]
      join_next [where f = "frame_part n ?bts" and u = u and fid = "fst (msgs u)" and m = ?T,
        OF i parse_wire(2) [OF assms(1,3,4)] S ne refl refl]
    by (simp add: ParseResp_def join_body_def parse_wire(1) [OF assms(1,3,4)] resp_of_def table_of_update link_of_def)
qed

lemma ParseResp_arrive:
  assumes "sendable n msgs U" and "partial n msgs U A" and "u \<in> U" and "i \<in> frames_of n msgs u"
  shows "ParseResp n (table_of n msgs U m A) (wire n msgs (u, i)) =
    Ret (table_of n msgs U m (fst (arrive n msgs A (u, i))),
         resp_of msgs (snd (arrive n msgs A (u, i))))"
proof -
  consider "frame_count n (snd (msgs u)) = 1" | "1 < frame_count n (snd (msgs u))" "A u = {}"
    | "1 < frame_count n (snd (msgs u))" "A u \<noteq> {}"
    using assms(4) by fastforce
  then show ?thesis
    using arrive_whole [OF assms] arrive_first [OF assms(1,3,4)] arrive_later [OF assms] by cases
qed

lemma arrive_partial:
  assumes "partial n msgs U A" and "u \<in> U" and "i \<in> frames_of n msgs u"
  shows "partial n msgs U (fst (arrive n msgs A (u, i)))"
  using assms frame_count_pos [of "snd (msgs u)"] by (auto simp: partial_def)

text \<open>Whole runs: the table of the code simulates the sets of the abstract receiver.\<close>

lemma receive_arrivals:
  assumes "sendable n msgs U" and "partial n msgs U A"
    and "\<forall>(u, i) \<in> set es. u \<in> U \<and> i \<in> frames_of n msgs u"
  shows "receive n (table_of n msgs U m A) (map (wire n msgs) es) =
    Ret (table_of n msgs U m (fst (arrivals n msgs A es)), map (resp_of msgs) (snd (arrivals n msgs A es)))"
  using assms(2,3)
proof (induction es arbitrary: A)
  case Nil
  then show ?case by simp
next
  case (Cons e es)
  obtain u i where e: "e = (u, i)" by (cases e)
  with Cons.prems have u: "u \<in> U" and i: "i \<in> frames_of n msgs u" by auto
  let ?A = "fst (arrive n msgs A (u, i))"
  have "partial n msgs U ?A"
    by (rule arrive_partial [OF Cons.prems(1) u i])
  then have "receive n (table_of n msgs U m ?A) (map (wire n msgs) es) =
      Ret (table_of n msgs U m (fst (arrivals n msgs ?A es)),
           map (resp_of msgs) (snd (arrivals n msgs ?A es)))"
    by (rule Cons.IH) (use Cons.prems(2) in simp)
  then show ?case
    using ParseResp_arrive [OF assms(1) Cons.prems(1) u i, of m]
    by (simp only: e list.map receive.simps go_bind.simps prod.case arrivals_Cons Let_def fst_conv snd_conv)
qed

end

subsection \<open>Facts about the abstract receiver\<close>

text \<open>Frames of other messages do not matter to a message.\<close>

lemma arrivals_cong:
  assumes "\<forall>e \<in> set es. fst e = u" and "A u = B u"
  shows "fst (arrivals n msgs A es) u = fst (arrivals n msgs B es) u \<and>
    snd (arrivals n msgs A es) = snd (arrivals n msgs B es)"
  using assms
proof (induction es arbitrary: A B)
  case (Cons e es)
  then obtain i where e: "e = (u, i)" by (cases e) auto
  have "fst (arrive n msgs A (u, i)) u = fst (arrive n msgs B (u, i)) u"
    using Cons.prems by simp
  with Cons.IH [of "fst (arrive n msgs A (u, i))" "fst (arrive n msgs B (u, i))"] Cons.prems
  show ?case by (simp add: e Let_def del: fst_arrive)
qed simp

text \<open>
  The results for one message in a mixed sequence are those of its own frames alone, and so is
  what is left of it in the table.
\<close>

lemma arrivals_filter:
  "fst (arrivals n msgs A es) u = fst (arrivals n msgs A (filter (\<lambda>e. fst e = u) es)) u \<and>
   filter ((=) (Some u)) (snd (arrivals n msgs A es)) =
     filter ((=) (Some u)) (snd (arrivals n msgs A (filter (\<lambda>e. fst e = u) es)))"
proof (induction es arbitrary: A)
  case (Cons e es)
  obtain v i where e: "e = (v, i)" by (cases e)
  let ?es = "filter (\<lambda>e. fst e = u) es" and ?A = "fst (arrive n msgs A (v, i))"
  show ?case
  proof (cases "v = u")
    case True
    with Cons.IH [of ?A] show ?thesis by (simp add: e Let_def del: fst_arrive)
  next
    case False
    then have "fst (arrivals n msgs ?A ?es) u = fst (arrivals n msgs A ?es) u"
      "snd (arrivals n msgs ?A ?es) = snd (arrivals n msgs A ?es)"
      using arrivals_cong [of ?es u ?A A] by simp_all
    with Cons.IH [of ?A] False show ?thesis
      by (simp add: e Let_def del: fst_arrive)
  qed
qed simp

text \<open>
  Frames of one message: nothing is handed out while a frame is missing, and the frame that
  fills the set hands the message out.
\<close>

lemma arrivals_incomplete:
  assumes "A u \<union> set is \<subset> frames_of n msgs u"
  shows "arrivals n msgs A (map (Pair u) is) =
    (A(u := A u \<union> set is), replicate (length is) None)"
  using assms
proof (induction "is" arbitrary: A)
  case (Cons i "is")
  let ?A = "A(u := insert i (A u))"
  have eq: "?A u \<union> set is = A u \<union> set (i # is)" by simp
  have "arrivals n msgs ?A (map (Pair u) is) =
      (?A(u := ?A u \<union> set is), replicate (length is) None)"
    by (rule Cons.IH) (use Cons.prems in \<open>simp add: eq\<close>)
  moreover have "insert i (A u) \<noteq> frames_of n msgs u" using Cons.prems by auto
  ultimately show ?case by (simp add: eq del: fun_upd_apply)
qed simp

lemma arrivals_append:
  "arrivals n msgs A (es @ es') =
    (let A' = fst (arrivals n msgs A es)
     in (fst (arrivals n msgs A' es'), snd (arrivals n msgs A es) @ snd (arrivals n msgs A' es')))"
  by (induction es arbitrary: A) (simp_all add: Let_def)

lemma arrivals_complete:
  assumes "A u \<union> set js \<subset> frames_of n msgs u"
    and "insert j (A u \<union> set js) = frames_of n msgs u"
  shows "arrivals n msgs A (map (Pair u) (js @ [j])) =
    (A(u := {}), replicate (length js) None @ [Some u])"
proof -
  have "arrivals n msgs A (map (Pair u) js) = (A(u := A u \<union> set js), replicate (length js) None)"
    by (rule arrivals_incomplete) (rule assms(1))
  with assms(2) show ?thesis by (simp add: arrivals_append)
qed

section \<open>Invariant and panics for arbitrary input\<close>

text \<open>
  What holds of every entry of the table, whatever frames the peer sends: it is filed under its
  own event number, has between 2 and 65535 slots, and no slot holds more than a frame can carry.
\<close>

definition link_ok :: "NetworkBuffer \<Rightarrow> nat \<Rightarrow> ReadLink \<Rightarrow> bool" where
  "link_ok n u l \<longleftrightarrow> rl_uuid l = u \<and> 1 < rl_buck l \<and> rl_buck l < 65536 \<and>
     length (rl_body l) = rl_buck l \<and> (\<forall>p \<in> set (rl_body l). length p \<le> BodySplit n + 2)"

definition table_ok :: "NetworkBuffer \<Rightarrow> link_table \<Rightarrow> bool" where
  "table_ok n m \<longleftrightarrow> (\<forall>u l. m u = Some l \<longrightarrow> link_ok n u l)"

lemma table_ok_upd: "table_ok n m \<Longrightarrow> link_ok n u l \<Longrightarrow> table_ok n (m(u \<mapsto> l))"
  by (simp add: table_ok_def)

lemma table_ok_del: "table_ok n m \<Longrightarrow> table_ok n (m(u := None))"
  by (simp add: table_ok_def)

definition body_ok :: "NetworkBuffer \<Rightarrow> JoinBodyData \<Rightarrow> bool" where
  "body_ok n b \<longleftrightarrow> jb_Buck b < 65536 \<and> length (jb_Data b) \<le> BodySplit n + 2"

lemma slots_update: "length p \<le> k \<Longrightarrow> \<forall>q \<in> set ps. length q \<le> k \<Longrightarrow>
    \<forall>q \<in> set (ps[i := p]). length q \<le> k"
  by (auto dest!: set_update_subset_insert [THEN subsetD])

lemma join_known_ok:
  assumes "table_ok n m" and "body_ok n b" and "m (jb_Uuid b) = Some l"
    and "join_known m b l = Ret (m', r)"
  shows "table_ok n m' \<and> (\<forall>v. v \<noteq> jb_Uuid b \<longrightarrow> m' v = m v)"
proof -
  have l: "link_ok n (jb_Uuid b) l" using assms(1,3) by (simp add: table_ok_def)
  let ?l = "l\<lparr>rl_recv := rl_recv l + 1, rl_body := (rl_body l)[jb_Sort b - 1 := jb_Data b]\<rparr>"
  have "link_ok n (jb_Uuid b) ?l"
    using l assms(2) slots_update [of "jb_Data b" "BodySplit n + 2" "rl_body l"]
    by (simp add: link_ok_def body_ok_def)
  with assms(1,4) show ?thesis
    by (auto simp: join_known_def Let_def table_ok_upd table_ok_del split: if_splits)
qed

lemma join_new_ok:
  assumes "table_ok n m" and "body_ok n b" and "1 < jb_Buck b" and "join_new m b = (m', r)"
  shows "table_ok n m' \<and> (\<forall>v. v \<noteq> jb_Uuid b \<longrightarrow> m' v = m v)"
proof -
  let ?l = "\<lparr>rl_funcid = jb_Func b, rl_buck = jb_Buck b, rl_uuid = jb_Uuid b,
      rl_body = (replicate (jb_Buck b) [])[jb_Sort b - 1 := jb_Data b], rl_recv = 1\<rparr>"
  have "link_ok n (jb_Uuid b) ?l"
    using assms(2,3) slots_update [of "jb_Data b" "BodySplit n + 2" "replicate (jb_Buck b) []"]
    by (simp add: link_ok_def body_ok_def)
  with assms show ?thesis
    by (auto simp: join_new_def Let_def table_ok_del table_ok_upd split: if_splits)
qed

lemma join_body_ok:
  assumes "table_ok n m" and "body_ok n b" and "join_body m b = Ret (m', r)"
  shows "table_ok n m' \<and> (\<forall>v. v \<noteq> jb_Uuid b \<longrightarrow> m' v = m v)"
  using assms join_known_ok [OF assms(1,2)] join_new_ok [OF assms(1,2)]
  by (auto simp: join_body_def split: option.splits if_splits)

lemma join_body_panic:
  "join_body m b = Panic p \<longleftrightarrow>
     p = IndexOutOfRange \<and> jb_Sort b = 0 \<and> 1 < jb_Buck b \<and>
     (\<exists>l. m (jb_Uuid b) = Some l \<and> jb_Buck b = rl_buck l \<and> jb_Func b = rl_funcid l)"
  by (auto simp: join_body_def join_known_def Let_def split: option.splits)

context frame_layout
begin

lemma parse_body_ok:
  assumes "parse n d = Ret (Some b, err)"
  shows "body_ok n b"
proof -
  let ?buck = "unat (d ! 8) * 256 + unat (d ! 9)"
  have buck: "?buck < 65536" by (rule byte_pair_bound)
  have len: "length d = TotalSize n" using assms by (auto simp: parse_def split: if_splits)
  have slice: "length s \<le> BodySplit n + 2" if "go_slice d (BodyStart n) h = Ret s" for h s
    using that len by (auto simp: go_slice_def start whole split: if_splits)
  show ?thesis
    using assms buck
    by (auto simp: parse_def parse_switch_def body_ok_def go_bind_Ret_iff dest: slice
        split: if_splits)
qed

lemma ParseResp_ok:
  assumes "table_ok n m" and "ParseResp n m d = Ret (m', r)"
  shows "table_ok n m'"
proof -
  obtain body err where dec: "parse n d = Ret (body, err)"
    using assms(2) by (auto simp: ParseResp_def go_bind_Ret_iff)
  show ?thesis
  proof (cases "err = None \<and> body \<noteq> None")
    case True
    then obtain b where "body = Some b" by auto
    with dec True assms join_body_ok [OF assms(1) parse_body_ok] show ?thesis
      by (simp add: ParseResp_def)
  next
    case False
    with dec assms show ?thesis by (auto simp: ParseResp_def split: option.splits)
  qed
qed

lemma ParseResp_panic:
  "ParseResp n m d = Panic p \<longleftrightarrow>
     parse n d = Panic p \<or>
     (p = IndexOutOfRange \<and>
      (\<exists>b l. parse n d = Ret (Some b, None) \<and> jb_Sort b = 0 \<and> 1 < jb_Buck b \<and>
             m (jb_Uuid b) = Some l \<and> jb_Buck b = rl_buck l \<and> jb_Func b = rl_funcid l))"
proof (cases "parse n d")
  case (Ret x)
  then show ?thesis
    by (cases x; cases "fst x"; cases "snd x") (auto simp: ParseResp_def join_body_panic)
qed (simp add: ParseResp_def)

end

section \<open>Properties\<close>

text \<open>C2: The table of partly received messages simulates the abstract receiver that keeps, per
  message, the set of frame positions seen: any sequence of frames of any messages, repeated and
  interleaved in any way, gives the abstract results and leaves the table of the abstract state.\<close>

theorem receiver_refines_sets:
  assumes "nt \<in> {tcpsplit, udpsplit}" and "sendable nt msgs U" and "partial nt msgs U A"
    and "\<forall>(u, i) \<in> set es. u \<in> U \<and> i \<in> frames_of nt msgs u"
  shows "receive nt (table_of nt msgs U m A) (map (wire nt msgs) es) =
    Ret (table_of nt msgs U m (fst (arrivals nt msgs A es)),
         map (resp_of msgs) (snd (arrivals nt msgs A es)))"
  using assms tcp.receive_arrivals udp.receive_arrivals by blast

theorem receiver_refines_sets_witness:
  "receive tcpsplit (table_of tcpsplit (\<lambda>_. (80, [1, 2])) {5} Map.empty (\<lambda>_. {}))
      (map (wire tcpsplit (\<lambda>_. (80, [1, 2]))) [(5, 0), (5, 0)]) =
    Ret (table_of tcpsplit (\<lambda>_. (80, [1, 2])) {5} Map.empty
           (fst (arrivals tcpsplit (\<lambda>_. (80, [1, 2])) (\<lambda>_. {}) [(5, 0), (5, 0)])),
         map (resp_of (\<lambda>_. (80, [1, 2])))
           (snd (arrivals tcpsplit (\<lambda>_. (80, [1, 2])) (\<lambda>_. {}) [(5, 0), (5, 0)])))"
  by (rule receiver_refines_sets)
    (auto simp: sendable_def partial_def frame_count_def tcpsplit_def)

text \<open>C12: Whatever bytes a peer sends, every entry of the table stays filed under its own number, with
  2 to 65535 slots of bounded size.\<close>

theorem table_invariant:
  assumes "nt \<in> {tcpsplit, udpsplit}" and "table_ok nt m" and "ParseResp nt m d = Ret (m', r)"
  shows "table_ok nt m'"
  using assms tcp.ParseResp_ok udp.ParseResp_ok by blast

theorem table_invariant_witness:
  "table_ok udpsplit Map.empty \<and> ParseResp udpsplit Map.empty [] =
     Ret (Map.empty, resp_error ''request body lenght was wrong'') \<and> table_ok udpsplit Map.empty"
proof -
  have "table_ok udpsplit Map.empty" by (simp add: table_ok_def)
  moreover have "ParseResp udpsplit Map.empty [] =
      Ret (Map.empty, resp_error ''request body lenght was wrong'')"
    by (simp add: ParseResp_def parse_def udpsplit_def)
  ultimately show ?thesis
    using table_invariant [of udpsplit Map.empty "[]" Map.empty] by blast
qed

text \<open>\<open>ParseResp\<close> panics exactly when decoding does, or when a middle frame with position 0 arrives
  for a message that is already in the table with the same frame count and function id.\<close>

lemma receive_panics_iff:
  assumes "nt \<in> {tcpsplit, udpsplit}"
  shows "ParseResp nt m d = Panic p \<longleftrightarrow>
     parse nt d = Panic p \<or>
     (p = IndexOutOfRange \<and>
      (\<exists>b l. parse nt d = Ret (Some b, None) \<and> jb_Sort b = 0 \<and> 1 < jb_Buck b \<and>
             m (jb_Uuid b) = Some l \<and> jb_Buck b = rl_buck l \<and> jb_Func b = rl_funcid l))"
  using assms tcp.ParseResp_panic udp.ParseResp_panic by blast

lemma receive_panics_iff_witness:
  "ParseResp udpsplit
     [1 \<mapsto> \<lparr>rl_funcid = 80, rl_buck = 2, rl_uuid = 1, rl_body = [[7], []], rl_recv = 1\<rparr>]
     ([1, 0, 0, 0, 1, 2, 0, 80, 0, 2, 0, 0] @ replicate 520 0 @ [0, 1]) = Panic IndexOutOfRange"
proof -
  let ?d = "[1, 0, 0, 0, 1, 2, 0, 80, 0, 2, 0, 0] @ replicate 520 0 @ [0, 1] :: byte list"
  have "parse udpsplit ?d = Ret (Some \<lparr>jb_Uuid = 1, jb_Func = 80, jb_Buck = 2, jb_Sort = 0,
      jb_Data = replicate 520 0\<rparr>, None)"
    by (simp add: parse_def parse_switch_def udpsplit_def frame_marks body_types nth_append go_slice_def)
  then show ?thesis
    using receive_panics_iff [of udpsplit
        "[1 \<mapsto> \<lparr>rl_funcid = 80, rl_buck = 2, rl_uuid = 1, rl_body = [[7], []], rl_recv = 1\<rparr>]"
        ?d IndexOutOfRange]
    by simp
qed

end
