(* ===== verification/Transport.thy ===== *)
theory Transport
  imports Reassembly
begin

text \<open>
  The reading side of a client connection in network/rpc/conns.go: the table of callers that wait
  for an answer (\<open>RecvChan\<close>, field \<open>rc\<close> of \<open>NodeConn\<close>, with \<open>NewChan\<close> and \<open>DelChan\<close>) and the loops
  \<open>ReadRespTCP\<close> and \<open>ReadRespUDP\<close>: filling a buffer from a byte stream that arrives in pieces of any
  size (TCP) or taking whole datagrams (UDP), decoding it and handing the result to its caller.
\<close>

section \<open>Callers waiting for an answer\<close>

text \<open>
  A \<open>RecvChan\<close> has two channels of capacity one; \<^const>\<open>None\<close> is an empty channel. \<open>NewChan\<close>
  registers a fresh one under the event number, \<open>DelChan\<close> removes it.
\<close>

record RecvChan =
  ch_body :: "byte list option"
  ch_err :: "error option"
  ch_stamp :: int

type_synonym wait_table = "nat \<rightharpoonup> RecvChan"

definition NewChan :: "int \<Rightarrow> wait_table \<Rightarrow> nat \<Rightarrow> wait_table \<times> RecvChan" where
  "NewChan now rc num =
     (let tmp = \<lparr>ch_body = None, ch_err = None, ch_stamp = now\<rparr> in (rc(num \<mapsto> tmp), tmp))"

definition DelChan :: "wait_table \<Rightarrow> nat \<Rightarrow> wait_table" where
  "DelChan rc num = rc(num := None)"

text \<open>
  What the read loops of \<open>ReadRespTCP\<close> and \<open>ReadRespUDP\<close> do with the result of \<open>ParseResp\<close>: the
  caller with that event number gets the error or the body. A send on a channel that is still
  full blocks the reader; that outcome is \<open>Blocked\<close>.
\<close>

datatype deliver_result = Delivered wait_table | Dropped | Blocked

definition deliver :: "wait_table \<Rightarrow> resp \<Rightarrow> deliver_result" where
  "deliver rc r =
     (case r of (num, fid, bts, err) \<Rightarrow>
        if num > 0 then
          (case rc num of
             None \<Rightarrow> Dropped
           | Some c \<Rightarrow>
               (case err of
                  Some e \<Rightarrow> (if ch_err c = None then Delivered (rc(num \<mapsto> c\<lparr>ch_err := Some e\<rparr>))
                            else Blocked)
                | None \<Rightarrow> (if ch_body c = None then Delivered (rc(num \<mapsto> c\<lparr>ch_body := Some bts\<rparr>))
                          else Blocked)))
        else Dropped)"

definition client_frame ::
    "NetworkBuffer \<Rightarrow> link_table \<Rightarrow> wait_table \<Rightarrow> byte list \<Rightarrow> (link_table \<times> deliver_result) go" where
  "client_frame nt m rc d =
     go_bind (ParseResp nt m d) (\<lambda>(m', r). Ret (m', deliver rc r))"

text \<open>The loop over the buffers that are read; a reader that blocks reads no further.\<close>

fun read_frames ::
    "NetworkBuffer \<Rightarrow> link_table \<Rightarrow> wait_table \<Rightarrow> byte list list \<Rightarrow> (link_table \<times> wait_table \<times> bool) go"
where
  "read_frames nt m rc [] = Ret (m, rc, False)"
| "read_frames nt m rc (d # ds) =
     go_bind (client_frame nt m rc d) (\<lambda>(m', out).
       case out of
         Delivered rc' \<Rightarrow> read_frames nt m' rc' ds
       | Dropped \<Rightarrow> read_frames nt m' rc ds
       | Blocked \<Rightarrow> Ret (m', rc, True))"

section \<open>Cutting a byte stream into buffers\<close>

text \<open>
  \<open>conn.Read(buf)\<close> on a connection whose bytes have arrived in the given pieces: it copies at most
  what fits, and what does not fit stays for the next call; \<^const>\<open>None\<close> is the end of the stream.
\<close>

fun conn_read :: "nat \<Rightarrow> byte list list \<Rightarrow> (byte list \<times> byte list list) option" where
  "conn_read space [] = None"
| "conn_read space (c # cs) =
     (if length c \<le> space then Some (c, cs) else Some (take space c, drop space c # cs))"

lemma conn_read_bytes: "conn_read space cs = Some (x, cs') \<Longrightarrow>
    concat cs = x @ concat cs' \<and> length x \<le> space"
  by (cases cs) (auto split: if_splits)

lemma conn_read_measure: "conn_read space cs = Some (x, cs') \<Longrightarrow> 0 < space \<Longrightarrow>
    length cs' + length (concat cs') < length cs + length (concat cs)"
  by (cases cs) (auto split: if_splits)

text \<open>The two reading steps of the loop of \<open>ReadRespTCP\<close>: read until the buffer is full.\<close>

function fill :: "nat \<Rightarrow> byte list \<Rightarrow> byte list list \<Rightarrow> (byte list \<times> byte list list) option" where
  "fill tot buf cs =
     (if length buf < tot then
        (case conn_read (tot - length buf) cs of
           None \<Rightarrow> None
         | Some (x, cs') \<Rightarrow> fill tot (buf @ x) cs')
      else Some (buf, cs))"
  by pat_completeness auto
termination
  by (relation "measure (\<lambda>(tot, buf, cs). length cs + length (concat cs))")
    (auto dest: conn_read_measure)

declare fill.simps [simp del]

lemma fill_bytes: "fill tot buf cs = Some (b, cs') \<Longrightarrow> length buf \<le> tot \<Longrightarrow>
    length b = tot \<and> buf @ concat cs = b @ concat cs'"
proof (induction tot buf cs rule: fill.induct)
  case (1 tot buf cs)
  show ?case
  proof (cases "length buf < tot")
    case True
    with "1.prems" obtain x ds where x: "conn_read (tot - length buf) cs = Some (x, ds)"
      "fill tot (buf @ x) ds = Some (b, cs')"
      by (subst (asm) fill.simps) (auto split: option.splits)
    with conn_read_bytes [OF x(1)] "1.IH" True show ?thesis by auto
  next
    case False
    with "1.prems" show ?thesis by (subst (asm) fill.simps) auto
  qed
qed

lemma fill_measure: "fill tot buf cs = Some (b, cs') \<Longrightarrow>
    length cs' + length (concat cs') \<le> length cs + length (concat cs) \<and>
    (length buf < tot \<longrightarrow> length cs' + length (concat cs') < length cs + length (concat cs))"
proof (induction tot buf cs rule: fill.induct)
  case (1 tot buf cs)
  show ?case
  proof (cases "length buf < tot")
    case True
    with "1.prems" obtain x ds where x: "conn_read (tot - length buf) cs = Some (x, ds)"
      "fill tot (buf @ x) ds = Some (b, cs')"
      by (subst (asm) fill.simps) (auto split: option.splits)
    from conn_read_measure [OF x(1)] True
    have "length ds + length (concat ds) < length cs + length (concat cs)" by simp
    with "1.IH" [OF True x(1) refl x(2)] show ?thesis by auto
  next
    case False
    with "1.prems" show ?thesis by (subst (asm) fill.simps) auto
  qed
qed

text \<open>All buffers that the loop fills before the stream ends.\<close>

function read_buffers :: "nat \<Rightarrow> byte list list \<Rightarrow> byte list list" where
  "read_buffers tot cs =
     (if tot = 0 then []
      else (case fill tot [] cs of
              None \<Rightarrow> []
            | Some (b, cs') \<Rightarrow> b # read_buffers tot cs'))"
  by pat_completeness auto
termination
  by (relation "measure (\<lambda>(tot, cs). length cs + length (concat cs))")
    (auto dest: fill_measure)

declare read_buffers.simps [simp del]

text \<open>
  Reference: the stream cut into consecutive pieces of \<open>tot\<close> bytes. The pieces in which the bytes
  arrive make no difference to the buffers that are decoded.
\<close>

function cut :: "nat \<Rightarrow> byte list \<Rightarrow> byte list list" where
  "cut tot bs = (if tot = 0 \<or> length bs < tot then [] else take tot bs # cut tot (drop tot bs))"
  by pat_completeness auto
termination
  by (relation "measure (\<lambda>(tot, bs). length bs)") auto

declare cut.simps [simp del]

lemma fill_end: "fill tot buf cs = None \<Longrightarrow> length buf + length (concat cs) < tot"
proof (induction tot buf cs rule: fill.induct)
  case (1 tot buf cs)
  then have lt: "length buf < tot" by (subst (asm) (2) fill.simps) (auto split: if_splits)
  show ?case
  proof (cases "conn_read (tot - length buf) cs")
    case None
    then have "cs = []" by (cases cs) (auto split: if_splits)
    with lt show ?thesis by simp
  next
    case (Some p)
    obtain x ds where p: "p = (x, ds)" by (cases p)
    with Some "1.prems" lt have "fill tot (buf @ x) ds = None"
      by (subst (asm) fill.simps) simp
    with "1.IH" [OF lt] Some p have "length (buf @ x) + length (concat ds) < tot" by auto
    with conn_read_bytes [of "tot - length buf" cs x ds] Some p show ?thesis by simp
  qed
qed

lemma read_buffers_cut: "read_buffers tot cs = cut tot (concat cs)"
proof (induction tot cs rule: read_buffers.induct)
  case (1 tot cs)
  show ?case
  proof (cases "tot = 0")
    case True
    then show ?thesis by (subst read_buffers.simps, subst cut.simps) simp
  next
    case False
    show ?thesis
    proof (cases "fill tot [] cs")
      case None
      with fill_end [OF None] show ?thesis
        by (simp add: read_buffers.simps [of tot] cut.simps [of tot])
    next
      case (Some p)
      obtain b cs' where p: "p = (b, cs')" by (cases p)
      from fill_bytes [of tot "[]" cs b cs'] Some p
      have b: "length b = tot" "concat cs = b @ concat cs'" by simp_all
      from "1.IH" False Some p have "read_buffers tot cs' = cut tot (concat cs')" by simp
      with b False Some p show ?thesis
        by (simp add: read_buffers.simps [of tot cs] cut.simps [of tot "b @ concat cs'"])
    qed
  qed
qed

lemma cut_concat:
  assumes "0 < tot" and "\<forall>f \<in> set fs. length f = tot"
  shows "cut tot (concat fs) = fs"
  using assms(2)
proof (induction fs)
  case Nil
  then show ?case using assms(1) by (simp add: cut.simps)
next
  case (Cons f fs)
  then show ?case using assms(1) by (simp add: cut.simps [of tot "f @ concat fs"])
qed

section \<open>Handing out the answers\<close>

lemma receive_append:
  "receive nt m (ds @ es) =
     go_bind (receive nt m ds) (\<lambda>(m', rs).
       go_bind (receive nt m' es) (\<lambda>(m'', rs'). Ret (m'', rs @ rs')))"
proof (induction ds arbitrary: m)
  case Nil
  show ?case by (cases "receive nt m es") auto
next
  case (Cons d ds)
  show ?case
  proof (cases "ParseResp nt m d")
    case (Ret x)
    obtain m1 r where x: "x = (m1, r)" by (cases x)
    show ?thesis
    proof (cases "receive nt m1 ds")
      case inner: (Ret y)
      obtain m2 rs where "y = (m2, rs)" by (cases y)
      with Cons [of m1] Ret x inner show ?thesis
        by (cases "receive nt m2 es") auto
    next
      case (Panic p)
      with Cons [of m1] Ret x show ?thesis by simp
    qed
  qed simp
qed

text \<open>Results without an event number change nothing for the waiting callers.\<close>

lemma read_frames_receive:
  "receive nt m ds = Ret (m', rs) \<Longrightarrow> \<forall>r \<in> set rs. fst r = 0 \<Longrightarrow>
     read_frames nt m rc ds = Ret (m', rc, False)"
proof (induction ds arbitrary: m rs)
  case (Cons d ds)
  then obtain m1 r rs' where "ParseResp nt m d = Ret (m1, r)" "receive nt m1 ds = Ret (m', rs')"
    "rs = r # rs'"
    by (auto simp: go_bind_Ret_iff)
  with Cons show ?case
    by (cases r) (simp add: client_frame_def deliver_def)
qed simp

lemma read_frames_append:
  "read_frames nt m rc ds = Ret (m1, rc1, False) \<Longrightarrow>
     read_frames nt m rc (ds @ es) = read_frames nt m1 rc1 es"
proof (induction ds arbitrary: m rc)
  case (Cons d ds)
  then obtain m2 out where "client_frame nt m rc d = Ret (m2, out)"
    by (auto simp: go_bind_Ret_iff)
  with Cons show ?case by (cases out) auto
qed simp

text \<open>When the frames of every message arrive once, every frame that arrives has a place in its message.\<close>

lemma arrivals_in_range:
  assumes "\<forall>u \<in> U. mset (filter (\<lambda>e. fst e = u) es) = mset (map (Pair u) [0..<frame_count n (snd (msgs u))])"
    and "(u, i) \<in> set es" and "u \<in> U"
  shows "i < frame_count n (snd (msgs u))"
proof -
  have "set (filter (\<lambda>e. fst e = u) es) = Pair u ` {0..<frame_count n (snd (msgs u))}"
    using mset_eq_setD [OF bspec [OF assms(1,3)]] by simp
  moreover have "(u, i) \<in> set (filter (\<lambda>e. fst e = u) es)" using assms(2) by simp
  ultimately show ?thesis by auto
qed

context frame_layout
begin

text \<open>One message, its frames in any order: the table is as before, the last result is the message.\<close>

lemma receive_one:
  assumes num: "num < 16777216" and fid: "fid < 65536"
    and len: "length bts \<le> 65535 * BodySplit n" and m: "m num = None"
    and fs: "mset fs = mset (MakeReqBody n bts num fid)"
  shows "receive n m fs = Ret (m, replicate (length fs - 1) no_resp @ [(num, fid, bts, None)])"
proof -
  define msgs where "msgs = (\<lambda>_ :: nat. (fid, bts))"
  let ?N = "frame_count n bts"
  have wire: "MakeReqBody n bts num fid = map (\<lambda>i. wire n msgs (num, i)) [0..<?N]"
    by (rule nth_equalityI) (simp_all add: length_MakeReqBody wire_def msgs_def)
  from fs obtain "is" where "is": "fs = map (\<lambda>i. wire n msgs (num, i)) is" "mset is = mset [0..<?N]"
    unfolding wire by (rule map_eq_mset_mapE)
  have set: "set is = {..<?N}" and dist: "distinct is"
    using mset_eq_setD [OF "is"(2)] mset_eq_imp_distinct_iff [OF "is"(2)]
    by (auto simp: atLeast0LessThan)
  obtain js j where js: "is = js @ [j]"
    using set frame_count_pos [of bts] by (cases "is" rule: rev_cases) auto
  define A :: "nat \<Rightarrow> nat set" where "A = (\<lambda>_. {})"
  have msgs: "resp_of msgs (Some num) = (num, fid, bts, None)" "resp_of msgs None = no_resp"
    "frames_of n msgs num = {..<?N}" "A num = {}"
    by (simp_all add: resp_of_def msgs_def A_def)
  have send: "sendable n msgs {num}" by (simp add: sendable_def msgs_def num fid len)
  have part: "partial n msgs {num} A"
    using frame_count_pos by (auto simp: partial_def A_def msgs_def)
  have table: "table_of n msgs {num} m A = m"
    using m by (auto simp: table_of_def A_def link_of_def fun_eq_iff)
  have "arrivals n msgs A (map (Pair num) (js @ [j])) =
      (A(num := {}), replicate (length js) None @ [Some num])"
    by (rule arrivals_complete) (use set dist js msgs in auto)
  then have run: "arrivals n msgs A (map (Pair num) is) = (A, replicate (length js) None @ [Some num])"
    using msgs(4) by (simp add: js fun_upd_idem)
  have "receive n (table_of n msgs {num} m A) (map (wire n msgs) (map (Pair num) is)) =
      Ret (table_of n msgs {num} m A, replicate (length js) no_resp @ [(num, fid, bts, None)])"
    by (subst receive_arrivals [OF send part]) (use set msgs in \<open>auto simp: run\<close>)
  then show ?thesis
    by (simp add: table "is"(1) js comp_def)
qed

lemma answer_delivered:
  assumes "0 < num" "num < 16777216" "fid < 65536" "length bts \<le> 65535 * BodySplit n"
    and "m num = None" and "mset fs = mset (MakeReqBody n bts num fid)"
    and "rc num = Some c" and "ch_body c = None"
  shows "read_frames n m rc fs = Ret (m, rc(num \<mapsto> c\<lparr>ch_body := Some bts\<rparr>), False)"
proof -
  note run = receive_one [OF assms(2-4), of m fs, OF assms(5,6)]
  have "fs \<noteq> []"
    using assms(6) length_MakeReqBody [of bts num fid] frame_count_pos [of bts] by auto
  then obtain gs g where fs: "fs = gs @ [g]" by (cases fs rule: rev_cases) auto
  from run obtain m1 rs1 r where r: "receive n m gs = Ret (m1, rs1)" "ParseResp n m1 g = Ret (m, r)"
    "rs1 @ [r] = replicate (length gs) no_resp @ [(num, fid, bts, None)]"
    unfolding fs receive_append by (auto simp: go_bind_Ret_iff)
  then have rs: "rs1 = replicate (length gs) no_resp" "r = (num, fid, bts, None)" by auto
  have "read_frames n m rc gs = Ret (m1, rc, False)"
    by (rule read_frames_receive [OF r(1)]) (simp add: rs no_resp_def)
  from read_frames_append [OF this, of "[g]"] show ?thesis
    using r(2) rs(2) assms(1,7,8) by (simp add: fs client_frame_def deliver_def)
qed

lemma error_answer_dropped:
  assumes "num < 16777216" and "fid < 65536"
  shows "read_frames n m rc (MakeRspBody n bts num fid (Some e)) = Ret (m, rc, False)"
proof -
  from parse_error_answer [OF assms, of bts e] obtain fr where
    "MakeRspBody n bts num fid (Some e) = [fr]" and
    "parse n fr = Ret (Some \<lparr>jb_Uuid = num, jb_Func = fid, jb_Buck = 1, jb_Sort = 1, jb_Data = []\<rparr>,
                      Some (take (BodySplit n) e))"
    by blast
  then show ?thesis
    by (simp add: client_frame_def ParseResp_def resp_error_def deliver_def)
qed

lemma stream_frames:
  assumes "concat cs = concat (MakeReqBody n bts num fid)"
  shows "read_buffers (TotalSize n) cs = MakeReqBody n bts num fid"
  using assms frame_length whole by (simp add: read_buffers_cut cut_concat)

text \<open>Many messages at once: each is handed out once, when its last frame is there.\<close>

lemma receive_interleaved:
  assumes send: "sendable n msgs U" and pos: "\<forall>u \<in> U. 0 < u \<and> m u = None"
    and own: "\<forall>e \<in> set es. fst e \<in> U"
    and all: "\<forall>u \<in> U. mset (filter (\<lambda>e. fst e = u) es) = mset (map (Pair u) [0..<frame_count n (snd (msgs u))])"
  shows "\<exists>rs. receive n m (map (wire n msgs) es) = Ret (m, rs) \<and> length rs = length es \<and>
    (\<forall>u \<in> U. filter (\<lambda>r. fst r = u) rs = [(u, fst (msgs u), snd (msgs u), None)])"
proof -
  define A :: "nat \<Rightarrow> nat set" where "A = (\<lambda>_. {})"
  let ?out = "arrivals n msgs A es"
  have part: "partial n msgs U A"
    using frame_count_pos by (auto simp: partial_def A_def)
  have table: "table_of n msgs U m A = m"
    using pos by (auto simp: table_of_def A_def link_of_def fun_eq_iff)
  have alone: "fst ?out u = {} \<and> filter ((=) (Some u)) (snd ?out) = [Some u]" if u: "u \<in> U" for u
  proof -
    obtain "is" where "is": "filter (\<lambda>e. fst e = u) es = map (Pair u) is"
      "mset is = mset [0..<frame_count n (snd (msgs u))]"
      by (rule map_eq_mset_mapE [OF bspec [OF all u]])
    have set: "set is = frames_of n msgs u" and dist: "distinct is"
      using mset_eq_setD [OF "is"(2)] mset_eq_imp_distinct_iff [OF "is"(2)]
      by (auto simp: atLeast0LessThan)
    obtain js j where js: "is = js @ [j]"
      using set frame_count_pos [of "snd (msgs u)"] by (cases "is" rule: rev_cases) auto
    have "arrivals n msgs A (map (Pair u) (js @ [j])) =
        (A(u := {}), replicate (length js) None @ [Some u])"
      by (rule arrivals_complete) (use set dist js in \<open>auto simp: A_def\<close>)
    then show ?thesis
      using arrivals_filter [of n msgs A es u] by (simp add: "is"(1) js)
  qed
  have members: "\<forall>(u, i) \<in> set es. u \<in> U \<and> i \<in> frames_of n msgs u"
    using own arrivals_in_range [OF all] by fastforce
  have final: "table_of n msgs U m (fst ?out) = m"
    using alone pos by (auto simp: table_of_def link_of_def fun_eq_iff)
  have pick: "filter (\<lambda>r. fst r = u) (map (resp_of msgs) rs) =
      map (resp_of msgs) (filter ((=) (Some u)) rs)" if "0 < u" for u rs
    using that by (induction rs) (auto simp: resp_of_def no_resp_def split: option.splits)
  have "length (snd (arrivals n msgs B es)) = length es" for B
    by (induction es arbitrary: B) (simp_all add: Let_def)
  then show ?thesis
    using receive_arrivals [OF send part members, of m] alone pos
    by (auto simp: table final pick resp_of_def)
qed

end

section \<open>Properties\<close>

text \<open>The frames of a request, received in any order on a connection that has no message of that
  number pending, give the request back with the last frame, nothing before it, and leave no trace
  in the table.\<close>

lemma request_any_order:
  assumes "nt \<in> {tcpsplit, udpsplit}" and "num < 16777216" and "fid < 65536"
    and "length bts \<le> 65535 * BodySplit nt" and "m num = None"
    and "mset fs = mset (MakeReqBody nt bts num fid)"
  shows "receive nt m fs = Ret (m, replicate (length fs - 1) no_resp @ [(num, fid, bts, None)])"
  using assms tcp.receive_one udp.receive_one by blast

lemma request_any_order_witness:
  "receive udpsplit Map.empty (rev (MakeReqBody udpsplit (replicate 600 9) 258 321)) =
     Ret (Map.empty, replicate (length (rev (MakeReqBody udpsplit (replicate 600 9) 258 321)) - 1) no_resp
          @ [(258, 321, replicate 600 9, None)])"
proof -
  have "udpsplit \<in> {tcpsplit, udpsplit}" by (rule insertI2) (rule singletonI)
  note layout = this
  have "BodySplit udpsplit = 520" by (simp add: udpsplit_def)
  then have size: "length (replicate 600 (9 :: byte)) \<le> 65535 * BodySplit udpsplit"
    by (simp only: length_replicate)
  show ?thesis
    by (rule request_any_order [OF layout _ _ size _ mset_rev]) simp_all
qed

text \<open>Requests with different event numbers can share a connection: however their frames are
  interleaved, each request is handed out exactly once, whole, and the table ends as it was.\<close>

lemma requests_interleaved:
  assumes "nt \<in> {tcpsplit, udpsplit}" and "sendable nt msgs U" and "\<forall>u \<in> U. 0 < u \<and> m u = None"
    and "\<forall>e \<in> set es. fst e \<in> U"
    and "\<forall>u \<in> U. mset (filter (\<lambda>e. fst e = u) es) =
                  mset (map (Pair u) [0..<frame_count nt (snd (msgs u))])"
  shows "\<exists>rs. receive nt m (map (wire nt msgs) es) = Ret (m, rs) \<and> length rs = length es \<and>
    (\<forall>u \<in> U. filter (\<lambda>r. fst r = u) rs = [(u, fst (msgs u), snd (msgs u), None)])"
proof -
  from assms(1) consider "nt = tcpsplit" | "nt = udpsplit" by blast
  then show ?thesis
  proof cases
    case 1
    show ?thesis unfolding 1 by (rule tcp.receive_interleaved [OF assms(2-5) [unfolded 1]])
  next
    case 2
    show ?thesis unfolding 2 by (rule udp.receive_interleaved [OF assms(2-5) [unfolded 2]])
  qed
qed

lemma requests_interleaved_witness:
  "\<exists>rs. receive tcpsplit Map.empty (map (wire tcpsplit (\<lambda>u. (80, [of_nat u]))) [(4 :: nat, 0 :: nat), (3, 0)]) =
      Ret (Map.empty, rs) \<and> length rs = length [(4 :: nat, 0 :: nat), (3, 0)] \<and>
    (\<forall>u \<in> {3, 4}. filter (\<lambda>r. fst r = u) rs = [(u, fst (80 :: nat, [of_nat u] :: byte list), snd (80 :: nat, [of_nat u] :: byte list), None)])"
  by (rule requests_interleaved) (auto simp: tcpsplit_def sendable_def frame_count_def)

text \<open>The read loop of a TCP connection recovers the frames of a request from the byte stream,
  whatever pieces the stream arrives in.\<close>

lemma stream_pieces_irrelevant:
  assumes "nt \<in> {tcpsplit, udpsplit}" and "concat cs = concat (MakeReqBody nt bts num fid)"
  shows "read_buffers (TotalSize nt) cs = MakeReqBody nt bts num fid"
  using assms tcp.stream_frames udp.stream_frames by blast

lemma stream_pieces_irrelevant_witness:
  "read_buffers (TotalSize tcpsplit)
     (map (\<lambda>b. [b]) (concat (MakeReqBody tcpsplit [1, 2, 3] 7 80))) = MakeReqBody tcpsplit [1, 2, 3] 7 80"
  by (rule stream_pieces_irrelevant) (simp_all add: comp_def)

text \<open>A successful answer to a caller that is waiting arrives in the caller's channel, whatever the
  order of its frames.\<close>

lemma answer_reaches_caller:
  assumes "nt \<in> {tcpsplit, udpsplit}" and "0 < num" "num < 16777216" and "0 < fid" "fid < 65536"
    and "length bts \<le> 65535 * BodySplit nt" and "m num = None"
    and "mset fs = mset (MakeRspBody nt bts num fid None)"
    and "rc num = Some c" and "ch_body c = None"
  shows "read_frames nt m rc fs = Ret (m, rc(num \<mapsto> c\<lparr>ch_body := Some bts\<rparr>), False)"
  using assms tcp.answer_delivered [of num fid bts m fs rc c]
    udp.answer_delivered [of num fid bts m fs rc c]
  by (auto simp: MakeRspBody_def)

lemma answer_reaches_caller_witness:
  "read_frames tcpsplit Map.empty (fst (NewChan 0 Map.empty 9)) (MakeRspBody tcpsplit [5, 6] 9 120 None) =
     Ret (Map.empty, (fst (NewChan 0 Map.empty 9))(9 \<mapsto> (snd (NewChan 0 Map.empty 9))\<lparr>ch_body := Some [5, 6]\<rparr>),
          False)"
  by (rule answer_reaches_caller) (simp_all add: NewChan_def tcpsplit_def Let_def)

text \<open>C18: An error answer never reaches the caller: \<open>ParseResp\<close> returns the error with event number 0, so
  the read loop finds no channel for it, although the caller waits under that number.\<close>

theorem error_answer_never_delivered:
  assumes "nt \<in> {tcpsplit, udpsplit}" and "num < 16777216" and "fid < 65536"
  shows "read_frames nt m rc (MakeRspBody nt bts num fid (Some e)) = Ret (m, rc, False)"
  using assms tcp.error_answer_dropped udp.error_answer_dropped by blast

theorem error_answer_never_delivered_witness:
  "read_frames tcpsplit Map.empty (fst (NewChan 0 Map.empty 9))
     (MakeRspBody tcpsplit [] 9 120 (Some ''refused'')) =
   Ret (Map.empty, fst (NewChan 0 Map.empty 9), False)"
  by (rule error_answer_never_delivered) simp_all

end
