(* ===== verification/Race.thy ===== *)
theory Race
  imports Transport
begin

text \<open>
  \<open>ParseResp\<close> as the servers run it: \<open>tcpAccept\<close> and \<open>UdpListen\<close> start one goroutine per frame, all
  on the same table. Here \<open>ParseResp\<close> (network/rpc/conns.go) is cut into the steps between which other
  goroutines can run: the look-up under the read lock, the checks, the atomic increment of
  \<open>recv\<close>, the store into the slot, the scan of the slots, and the updates of the table under the
  write lock. The table now holds pointers into a heap of \<open>ReadLink\<close>s, since goroutines share them.
  A schedule says which goroutine moves next.

  One goroutine alone refines \<^const>\<open>join_body\<close>. Two goroutines do not: frames can be lost, and a message can
  be handed out twice.
\<close>

section \<open>State and steps\<close>

record shared =
  sh_heap :: "nat \<Rightarrow> ReadLink"
  sh_next :: nat
  sh_list :: "nat \<rightharpoonup> nat"

datatype proc =
    Start JoinBodyData
  | Known JoinBodyData nat
  | Absent JoinBodyData
  | Vacant JoinBodyData nat
  | Counted JoinBodyData nat
  | Stored JoinBodyData nat
  | Full JoinBodyData "byte list"
  | Reject JoinBodyData error
  | Insert JoinBodyData nat
  | Finished resp
  | Crashed

fun go_step :: "shared \<Rightarrow> proc \<Rightarrow> shared \<times> proc" where
  "go_step s (Start b) =
     (if jb_Sort b > jb_Buck b then (s, Finished no_resp)
      else if jb_Buck b = 1 then (s, Finished (jb_Uuid b, jb_Func b, jb_Data b, None))
      else if jb_Buck b > 1 then
        (case sh_list s (jb_Uuid b) of Some a \<Rightarrow> (s, Known b a) | None \<Rightarrow> (s, Absent b))
      else (s, Finished no_resp))"
| "go_step s (Known b a) =
     (let tmp = sh_heap s a in
      if jb_Buck b \<noteq> rl_buck tmp \<or> jb_Func b \<noteq> rl_funcid tmp then (s, Reject b ''recv wrong'')
      else if jb_Sort b \<noteq> 0 \<and> jb_Sort b - 1 \<ge> length (rl_body tmp) then
        (s, Reject b ''recv uuid body buck wrong'')
      else if jb_Sort b = 0 then (s, Crashed)
      else if length (rl_body tmp ! (jb_Sort b - 1)) = 0 then (s, Vacant b a)
      else (s, Finished no_resp))"
| "go_step s (Vacant b a) =
     (s\<lparr>sh_heap := (sh_heap s)(a := (sh_heap s a)\<lparr>rl_recv := rl_recv (sh_heap s a) + 1\<rparr>)\<rparr>,
      Counted b a)"
| "go_step s (Counted b a) =
     (s\<lparr>sh_heap := (sh_heap s)(a := (sh_heap s a)\<lparr>rl_body :=
          (rl_body (sh_heap s a))[jb_Sort b - 1 := jb_Data b]\<rparr>)\<rparr>,
      Stored b a)"
| "go_step s (Stored b a) =
     (let tmp = sh_heap s a in
      if unat (rl_recv tmp) \<ge> rl_buck tmp then
        if [] \<in> set (rl_body tmp) then (s, Finished no_resp)
        else (s, Full b (concat (rl_body tmp)))
      else (s, Finished no_resp))"
| "go_step s (Full b result) =
     (s\<lparr>sh_list := (sh_list s)(jb_Uuid b := None)\<rparr>,
      Finished (jb_Uuid b, jb_Func b, result, None))"
| "go_step s (Reject b e) =
     (s\<lparr>sh_list := (sh_list s)(jb_Uuid b := None)\<rparr>, Finished (resp_error e))"
| "go_step s (Absent b) =
     (let tmp = \<lparr>rl_funcid = jb_Func b, rl_buck = jb_Buck b, rl_uuid = jb_Uuid b,
                 rl_body = replicate (jb_Buck b) [], rl_recv = 1\<rparr>
      in if jb_Sort b = 0 \<or> jb_Sort b - 1 \<ge> length (rl_body tmp) then
           (s, Reject b ''recv uuid body buck wrong'')
         else
           (s\<lparr>sh_heap := (sh_heap s)(sh_next s :=
                tmp\<lparr>rl_body := (rl_body tmp)[jb_Sort b - 1 := jb_Data b]\<rparr>),
              sh_next := Suc (sh_next s)\<rparr>, Insert b (sh_next s)))"
| "go_step s (Insert b a) =
     (s\<lparr>sh_list := (sh_list s)(jb_Uuid b \<mapsto> a)\<rparr>, Finished no_resp)"
| "go_step s (Finished r) = (s, Finished r)"
| "go_step s Crashed = (s, Crashed)"

text \<open>A schedule names the goroutine that moves; the goroutines are numbered from 0.\<close>

fun run_schedule :: "shared \<Rightarrow> proc list \<Rightarrow> nat list \<Rightarrow> shared \<times> proc list" where
  "run_schedule s ps [] = (s, ps)"
| "run_schedule s ps (i # is) =
     (let (s', p) = go_step s (ps ! i) in run_schedule s' (ps[i := p]) is)"

section \<open>One goroutine alone\<close>

text \<open>The table of the sequential model that a shared state stands for.\<close>

definition view :: "shared \<Rightarrow> link_table" where
  "view s = (\<lambda>u. map_option (sh_heap s) (sh_list s u))"

text \<open>Table pointers are allocated, and no two entries share one.\<close>

definition shared_ok :: "shared \<Rightarrow> bool" where
  "shared_ok s \<longleftrightarrow> (\<forall>u a. sh_list s u = Some a \<longrightarrow> a < sh_next s) \<and>
     (\<forall>u v a. sh_list s u = Some a \<longrightarrow> sh_list s v = Some a \<longrightarrow> u = v)"

lemma view_heap_upd:
  assumes "shared_ok s" and "sh_list s u = Some a"
  shows "view (s\<lparr>sh_heap := (sh_heap s)(a := l)\<rparr>) = (view s)(u \<mapsto> l)"
proof
  fix v
  show "view (s\<lparr>sh_heap := (sh_heap s)(a := l)\<rparr>) v = ((view s)(u \<mapsto> l)) v"
    using assms by (cases "sh_list s v") (auto simp: view_def shared_ok_def)
qed

lemma view_fresh:
  assumes "shared_ok s"
  shows "view (s\<lparr>sh_heap := (sh_heap s)(sh_next s := l), sh_next := Suc (sh_next s),
                 sh_list := (sh_list s)(u \<mapsto> sh_next s)\<rparr>) = (view s)(u \<mapsto> l)"
proof
  fix v
  show "view (s\<lparr>sh_heap := (sh_heap s)(sh_next s := l), sh_next := Suc (sh_next s),
                sh_list := (sh_list s)(u \<mapsto> sh_next s)\<rparr>) v = ((view s)(u \<mapsto> l)) v"
    using assms by (cases "sh_list s v") (auto simp: view_def shared_ok_def)
qed

lemma view_list_del:
  "view (s\<lparr>sh_list := (sh_list s)(u := None)\<rparr>) = (view s)(u := None)"
  by (auto simp: view_def)

lemma shared_ok_del: "shared_ok s \<Longrightarrow> shared_ok (s\<lparr>sh_list := (sh_list s)(u := None)\<rparr>)"
  by (auto simp: shared_ok_def)

lemma shared_ok_heap: "shared_ok s \<Longrightarrow> shared_ok (s\<lparr>sh_heap := h\<rparr>)"
  by (auto simp: shared_ok_def)

lemma shared_ok_fresh: "shared_ok s \<Longrightarrow>
    shared_ok (s\<lparr>sh_heap := h, sh_next := Suc (sh_next s), sh_list := (sh_list s)(u \<mapsto> sh_next s)\<rparr>)"
  by (auto simp: shared_ok_def less_Suc_eq)

text \<open>A goroutine that is not interrupted takes at most six steps.\<close>

fun run_alone :: "nat \<Rightarrow> shared \<Rightarrow> proc \<Rightarrow> shared \<times> proc" where
  "run_alone 0 s p = (s, p)"
| "run_alone (Suc k) s p = (let (s', p') = go_step s p in run_alone k s' p')"

lemma run_alone_finished [simp]: "run_alone k s (Finished r) = (s, Finished r)"
  by (induction k) simp_all

lemma run_alone_crashed [simp]: "run_alone k s Crashed = (s, Crashed)"
  by (induction k) simp_all

lemma run_alone_numeral [simp]: "run_alone (numeral k) s p =
    (let (s', p') = go_step s p in run_alone (pred_numeral k) s' p')"
  by (simp add: numeral_eq_Suc)

lemma run_alone_known:
  assumes ok: "shared_ok s" and a: "sh_list s (jb_Uuid b) = Some a"
  shows "case join_known (view s) b (sh_heap s a) of
      Panic p \<Rightarrow> run_alone 5 s (Known b a) = (s, Crashed)
    | Ret (m, r) \<Rightarrow> \<exists>s'. run_alone 5 s (Known b a) = (s', Finished r) \<and> view s' = m \<and> shared_ok s'"
proof -
  let ?l = "sh_heap s a"
  let ?l' = "?l\<lparr>rl_recv := rl_recv ?l + 1, rl_body := (rl_body ?l)[jb_Sort b - 1 := jb_Data b]\<rparr>"
  let ?s = "s\<lparr>sh_heap := (sh_heap s)(a := ?l')\<rparr>"
  have views: "view ?s = (view s)(jb_Uuid b \<mapsto> ?l')" "shared_ok ?s"
    using view_heap_upd [OF ok a] shared_ok_heap [OF ok] by simp_all
  have del: "view (?s\<lparr>sh_list := (sh_list s)(jb_Uuid b := None)\<rparr>) = (view s)(jb_Uuid b := None)"
    "shared_ok (?s\<lparr>sh_list := (sh_list s)(jb_Uuid b := None)\<rparr>)"
    using view_list_del [of ?s "jb_Uuid b"] shared_ok_del [of ?s "jb_Uuid b"] views by simp_all
  show ?thesis
    using views del shared_ok_del [OF ok, of "jb_Uuid b"] view_list_del [of s "jb_Uuid b"]
    by (auto simp: join_known_def Let_def ok)
qed

lemma run_alone_absent:
  assumes ok: "shared_ok s"
  shows "case join_new (view s) b of
    (m, r) \<Rightarrow> \<exists>s'. run_alone 5 s (Absent b) = (s', Finished r) \<and> view s' = m \<and> shared_ok s'"
  using view_fresh [OF ok, where u = "jb_Uuid b"] shared_ok_fresh [OF ok, where u = "jb_Uuid b"]
    shared_ok_del [OF ok, of "jb_Uuid b"] view_list_del [of s "jb_Uuid b"]
  by (auto simp: join_new_def Let_def)

text \<open>C10: A goroutine that runs through the multi-frame branch of \<open>ParseResp\<close> alone, on the
  shared table with its links in the heap, does what the atomic definition \<open>join_body\<close> does on the
  table's contents, its panics included, and keeps the links of different numbers apart.\<close>

theorem run_alone_join_body:
  assumes ok: "shared_ok s"
  shows "case join_body (view s) b of
      Panic p \<Rightarrow> run_alone 6 s (Start b) = (s, Crashed)
    | Ret (m, r) \<Rightarrow> \<exists>s'. run_alone 6 s (Start b) = (s', Finished r) \<and> view s' = m \<and> shared_ok s'"
proof -
  have six: "run_alone 6 s (Start b) = (let (s', p') = go_step s (Start b) in run_alone 5 s' p')"
    by (simp only: run_alone_numeral pred_numeral_simps BitM.simps)
  have look: "view s (jb_Uuid b) = map_option (sh_heap s) (sh_list s (jb_Uuid b))"
    by (simp add: view_def)
  show ?thesis
  proof (cases "jb_Sort b > jb_Buck b \<or> jb_Buck b \<le> 1")
    case True
    then show ?thesis by (auto simp: join_body_def six ok simp del: run_alone_numeral)
  next
    case False
    show ?thesis
    proof (cases "sh_list s (jb_Uuid b)")
      case None
      with False run_alone_absent [OF ok, of b] look show ?thesis
        by (auto simp: join_body_def six simp del: run_alone_numeral)
    next
      case (Some a)
      with False have "run_alone 6 s (Start b) = run_alone 5 s (Known b a)"
        "join_body (view s) b = join_known (view s) b (sh_heap s a)"
        using look by (simp_all add: six join_body_def del: run_alone_numeral)
      with run_alone_known [OF ok Some] show ?thesis by (simp only:)
    qed
  qed
qed

section \<open>Two goroutines\<close>

text \<open>A message of several frames, cut as in the sender: frame \<open>i\<close> of \<open>N\<close>, counted from 1.\<close>

definition piece :: "nat \<Rightarrow> nat \<Rightarrow> nat \<Rightarrow> nat \<Rightarrow> byte list \<Rightarrow> JoinBodyData" where
  "piece u f N i d = \<lparr>jb_Uuid = u, jb_Func = f, jb_Buck = N, jb_Sort = i, jb_Data = d\<rparr>"

definition no_links :: shared where
  "no_links = \<lparr>sh_heap = (\<lambda>_. \<lparr>rl_funcid = 0, rl_buck = 0, rl_uuid = 0, rl_body = [], rl_recv = 0\<rparr>),
               sh_next = 0, sh_list = Map.empty\<rparr>"

lemma no_links_ok: "shared_ok no_links"
  by (simp add: shared_ok_def no_links_def)

theorem run_alone_join_body_witness:
  "shared_ok no_links \<and>
   (case join_body (view no_links) (piece 5 80 2 1 [7]) of
      Panic p \<Rightarrow> run_alone 6 no_links (Start (piece 5 80 2 1 [7])) = (no_links, Crashed)
    | Ret (m, r) \<Rightarrow> \<exists>s'. run_alone 6 no_links (Start (piece 5 80 2 1 [7])) = (s', Finished r) \<and>
        view s' = m \<and> shared_ok s')"
  using run_alone_join_body [of no_links "piece 5 80 2 1 [7]"]
  by (simp only: no_links_ok simp_thms)



text \<open>Two goroutines can both complete a message: one frame of three has been filed, the other two
  are stored before either goroutine scans the slots, and both return the whole message, so a
  request is executed twice.\<close>

lemma double_delivery:
  assumes "x \<noteq> []" and "y \<noteq> []" and "z \<noteq> []"
  shows "let (s, p) = run_alone 3 no_links (Start (piece u f 3 1 x));
             (t, ps) = run_schedule s [Start (piece u f 3 2 y), Start (piece u f 3 3 z)]
                         [0, 1, 0, 1, 0, 1, 0, 1, 0, 1, 0, 1]
    in p = Finished no_resp \<and>
       ps = [Finished (u, f, x @ y @ z, None), Finished (u, f, x @ y @ z, None)]"
proof -
  have slots: "replicate 3 ([] :: byte list) = [[], [], []]" by (simp add: numeral_eq_Suc)
  have third: "[a, b, c][2 := d] = [a, b, d]" for a b c d :: "byte list"
    by (simp add: numeral_2_eq_2)
  show ?thesis
    using assms by (simp add: no_links_def piece_def slots third Let_def)
qed

lemma double_delivery_witness:
  "([1] :: byte list) \<noteq> [] \<and> ([2] :: byte list) \<noteq> [] \<and> ([3] :: byte list) \<noteq> [] \<and>
   (let (s, p) = run_alone 3 no_links (Start (piece 5 80 3 1 [1]));
        (t, ps) = run_schedule s [Start (piece 5 80 3 2 [2]), Start (piece 5 80 3 3 [3])]
                    [0, 1, 0, 1, 0, 1, 0, 1, 0, 1, 0, 1]
    in p = Finished no_resp \<and>
       ps = [Finished (5, 80, [1] @ [2] @ [3], None), Finished (5, 80, [1] @ [2] @ [3], None)])"
  using double_delivery [of "[1]" "[2]" "[3]" 5 80] by simp

end
