(* ===== verification/WatchRegistry.thy ===== *)
theory WatchRegistry
  imports Pb
begin

text \<open>
  The function registry of the watcher, network/watch/fmsg.go: the catalogue of api names with
  their ids and the nodes that offer them (\<open>funcmap\<close>, \<open>funcdata\<close>, \<open>PutMsg\<close>, \<open>PutApi\<close>, the
  lookups and ranges), and the file it is written to (\<open>InitEnvFile\<close>, \<open>addEnvFile\<close>,
  \<open>upEnvFile\<close>). The two indices hold pointers to shared records, so the records live in a heap.

  The locale \<open>registration\<close> states what both put operations promise; it is interpreted on \<open>PutApi\<close>
  and on \<open>PutMsg\<close>. The specification is a catalogue from names to ids and nodes.

  File operations succeed or fail as the environment says: \<open>fe_ok e k\<close> is the outcome of the
  \<open>k\<close>-th one. The order in which a \<open>sync.Map\<close> is ranged over is not specified by the language, so it
  comes from the environment as well. A result \<^const>\<open>None\<close> means that the call does not return.
\<close>

section \<open>State\<close>

record funcdata =
  fd_msg :: FuncMsg
  fd_api :: FuncApi
  fd_node :: "string list"

text \<open>
  The text in the file, one chunk per \<open>Write\<close>: a marshalled \<open>FuncMsg\<close>, a marshalled \<open>FuncApi\<close>, the
  empty object \<open>{}\<close> that marshalling a \<open>funcdata\<close> gives (its fields are not exported), the end of a
  line, and a row of other text, with what \<open>json.Unmarshal\<close> makes of it.
\<close>

datatype chunk =
    MsgText FuncMsg
  | ApiText FuncApi
  | EmptyText
  | Newline
  | OtherText "FuncApi option"

record funcmap =
  fm_heap :: "nat \<Rightarrow> funcdata"
  fm_new :: nat
  fm_ids :: "uint32 \<rightharpoonup> nat"
  fm_str :: "string \<rightharpoonup> nat"
  fm_num :: uint32
  fm_name :: string
  fm_file :: "string option"
  fm_disk :: "string \<rightharpoonup> chunk list"
  fm_ops :: nat

record file_env =
  fe_ok :: "nat \<Rightarrow> bool"
  fe_order :: "nat \<Rightarrow> uint32 list"

section \<open>Lookups\<close>

definition GetIds :: "funcmap \<Rightarrow> uint32 \<Rightarrow> funcdata option" where
  "GetIds f fid = map_option (fm_heap f) (fm_ids f fid)"

definition GetStr :: "funcmap \<Rightarrow> string \<Rightarrow> funcdata option" where
  "GetStr f name = map_option (fm_heap f) (fm_str f name)"

definition funcdata_GetMsg :: "funcdata option \<Rightarrow> FuncMsg option" where
  "funcdata_GetMsg d = map_option fd_msg d"

definition funcdata_GetApi :: "funcdata option \<Rightarrow> FuncApi option" where
  "funcdata_GetApi d = map_option fd_api d"

definition funcdata_GetUuid :: "funcdata option \<Rightarrow> string list" where
  "funcdata_GetUuid d = (case d of Some x \<Rightarrow> fd_node x | None \<Rightarrow> [])"

text \<open>\<open>RangeMsg\<close> and \<open>RangeApi\<close> with a callback that collects, in the order \<open>ks\<close> of the keys.\<close>

definition RangeMsg :: "funcmap \<Rightarrow> uint32 list \<Rightarrow> FuncMsg list" where
  "RangeMsg f ks = List.map_filter (\<lambda>k. map_option fd_msg (GetIds f k)) ks"

definition RangeApi :: "funcmap \<Rightarrow> uint32 list \<Rightarrow> FuncApi list" where
  "RangeApi f ks = List.map_filter (\<lambda>k. map_option fd_api (GetIds f k)) ks"

section \<open>The file\<close>

definition open_file :: "file_env \<Rightarrow> funcmap \<Rightarrow> bool \<times> funcmap" where
  "open_file e f =
     (let ok = fe_ok e (fm_ops f); f = f\<lparr>fm_ops := Suc (fm_ops f)\<rparr>
      in if ok then
           (True, f\<lparr>fm_file := Some (fm_name f),
                    fm_disk := (fm_disk f)(fm_name f \<mapsto>
                      (case fm_disk f (fm_name f) of None \<Rightarrow> [] | Some cs \<Rightarrow> cs))\<rparr>)
         else (False, f\<lparr>fm_file := None\<rparr>))"

definition write_file :: "file_env \<Rightarrow> chunk list \<Rightarrow> funcmap \<Rightarrow> bool \<times> funcmap" where
  "write_file e cs f =
     (case fm_file f of
        None \<Rightarrow> (False, f)
      | Some path \<Rightarrow>
          let ok = fe_ok e (fm_ops f); f = f\<lparr>fm_ops := Suc (fm_ops f)\<rparr>
          in if ok then
               (True, f\<lparr>fm_disk := (fm_disk f)(path \<mapsto>
                         (case fm_disk f path of None \<Rightarrow> cs | Some old \<Rightarrow> old @ cs))\<rparr>)
             else (False, f))"

fun dump :: "file_env \<Rightarrow> FuncApi list \<Rightarrow> funcmap \<Rightarrow> bool \<times> funcmap" where
  "dump e [] f = (True, f)"
| "dump e (a # as) f =
     (case write_file e [ApiText a] f of
        (False, f) \<Rightarrow> (False, f)
      | (True, f) \<Rightarrow>
          (case write_file e [Newline] f of
             (False, f) \<Rightarrow> (False, f)
           | (True, f) \<Rightarrow> dump e as f))"

text \<open>
  \<open>upEnvFile\<close> opens the file and writes the whole list; when a write fails it starts again with the
  file \<open>./funclist.bak\<close>, as often as it takes.
\<close>

partial_function (option) upEnvFile :: "file_env \<Rightarrow> funcmap \<Rightarrow> funcmap go option" where
  "upEnvFile e f =
     (case open_file e f of
        (ok, f) \<Rightarrow>
          if \<not> ok then Some (Panic ExplicitPanic)
          else
            (case dump e (RangeApi f (fe_order e (fm_ops f))) f of
               (ok, f) \<Rightarrow>
                 if ok then Some (Ret f)
                 else upEnvFile e (f\<lparr>fm_name := ''./funclist.bak''\<rparr>)))"

definition addEnvFile :: "file_env \<Rightarrow> FuncMsg \<Rightarrow> funcmap \<Rightarrow> funcmap go option" where
  "addEnvFile e msg f =
     (case (if fm_file f = None then upEnvFile e f else Some (Ret f)) of
        Some (Ret f) \<Rightarrow>
          (case write_file e [MsgText msg, Newline] f of
             (ok, f) \<Rightarrow> if ok then Some (Ret f) else upEnvFile e f)
      | r \<Rightarrow> r)"

section \<open>Registration\<close>

definition store_entry :: "funcdata \<Rightarrow> funcmap \<Rightarrow> funcmap" where
  "store_entry d f =
     f\<lparr>fm_heap := (fm_heap f)(fm_new f := d), fm_new := Suc (fm_new f),
       fm_ids := (fm_ids f)(fmsg_FuncID (fd_msg d) \<mapsto> fm_new f),
       fm_str := (fm_str f)(fmsg_ApiName (fd_msg d) \<mapsto> fm_new f)\<rparr>"

definition add_node :: "string \<Rightarrow> nat \<Rightarrow> funcmap \<Rightarrow> funcmap" where
  "add_node uuid p f =
     (let d = fm_heap f p
      in if uuid \<in> set (fd_node d) then f
         else f\<lparr>fm_heap := (fm_heap f)(p := d\<lparr>fd_node := fd_node d @ [uuid]\<rparr>)\<rparr>)"

text \<open>The result carries the argument, whose id field the code sets through the pointer.\<close>

type_synonym 'a put_result = "('a option \<times> error option \<times> funcmap) go option"

definition PutMsg :: "file_env \<Rightarrow> string \<Rightarrow> FuncMsg option \<Rightarrow> funcmap \<Rightarrow> FuncMsg put_result" where
  "PutMsg e uuid arg f =
     (case arg of
        None \<Rightarrow> Some (Ret (arg, Some ''request data was wrong'', f))
      | Some a \<Rightarrow>
          if uuid = '''' \<or> fmsg_ApiName a = ''''
          then Some (Ret (arg, Some ''request data was wrong'', f))
          else
            (case fm_str f (fmsg_ApiName a) of
               Some p \<Rightarrow>
                 Some (Ret (Some (a\<lparr>fmsg_FuncID := fmsg_FuncID (fd_msg (fm_heap f p))\<rparr>), None,
                            add_node uuid p f))
             | None \<Rightarrow>
                 let f = f\<lparr>fm_num := fm_num f + 1\<rparr>;
                     a = a\<lparr>fmsg_FuncID := fm_num f\<rparr>;
                     tmp = \<lparr>fd_msg = a,
                            fd_api = \<lparr>fa_ID = fmsg_FuncID a, fa_Name = fmsg_ApiName a,
                                      fa_Type = fmsg_ApiType a, fa_Kind = fmsg_Protocal a\<rparr>,
                            fd_node = [uuid]\<rparr>
                 in map_option (map_go (\<lambda>f. (Some a, None, f)))
                      (addEnvFile e (fd_msg tmp) (store_entry tmp f))))"

definition PutApi :: "file_env \<Rightarrow> string \<Rightarrow> FuncApi option \<Rightarrow> funcmap \<Rightarrow> FuncApi put_result" where
  "PutApi e uuid arg f =
     (case arg of
        None \<Rightarrow> Some (Ret (arg, Some ''request data was wrong'', f))
      | Some a \<Rightarrow>
          if uuid = '''' \<or> fa_Name a = ''''
          then Some (Ret (arg, Some ''request data was wrong'', f))
          else
            (case fm_str f (fa_Name a) of
               Some p \<Rightarrow>
                 Some (Ret (Some (a\<lparr>fa_ID := fmsg_FuncID (fd_msg (fm_heap f p))\<rparr>), None,
                            add_node uuid p f))
             | None \<Rightarrow>
                 let f = f\<lparr>fm_num := fm_num f + 1\<rparr>;
                     a = a\<lparr>fa_ID := fm_num f\<rparr>;
                     (sname, fname) = comm_SplitApiName (fa_Name a);
                     tmp = \<lparr>fd_msg = \<lparr>fmsg_FuncID = fa_ID a, fmsg_ApiName = fa_Name a,
                                      fmsg_ServName = sname, fmsg_FuncName = fname,
                                      fmsg_ApiType = fa_Type a, fmsg_Protocal = fa_Kind a\<rparr>,
                            fd_api = a, fd_node = [uuid]\<rparr>
                 in map_option (map_go (\<lambda>f. (Some a, None, f)))
                      (addEnvFile e (fd_msg tmp) (store_entry tmp f))))"

section \<open>Loading the file\<close>

text \<open>What \<open>json.Unmarshal\<close> into a fresh \<open>FuncApi\<close> makes of a row; the keys of a \<open>FuncMsg\<close> are
  none of the keys of a \<open>FuncApi\<close>, so they are ignored.\<close>

fun row_api :: "chunk list \<Rightarrow> FuncApi option" where
  "row_api [ApiText a] = Some a"
| "row_api [MsgText m] = Some FuncApi_zero"
| "row_api [EmptyText] = Some FuncApi_zero"
| "row_api [OtherText r] = r"
| "row_api _ = None"

fun load_rows :: "file_env \<Rightarrow> chunk list list \<Rightarrow> funcmap \<Rightarrow> funcmap go option" where
  "load_rows e [] f = Some (Ret f)"
| "load_rows e (row # rows) f =
     (if row = [] then load_rows e rows f
      else
        (case row_api row of
           None \<Rightarrow> load_rows e rows f
         | Some msg \<Rightarrow>
             if unat (fa_ID msg) > BUILT_IN_MAX then
               (case PutApi e '''' (Some msg) f of
                  Some (Ret (Some msg, err, f)) \<Rightarrow>
                    load_rows e rows (if fa_ID msg > fm_num f then f\<lparr>fm_num := fa_ID msg\<rparr> else f)
                | Some (Ret (None, err, f)) \<Rightarrow> Some (Panic NilDereference)
                | Some (Panic p) \<Rightarrow> Some (Panic p)
                | None \<Rightarrow> None)
             else load_rows e rows f))"

text \<open>The loop at the end of \<open>InitEnvFile\<close>, which ignores the errors of its writes.\<close>

fun write_data :: "file_env \<Rightarrow> uint32 list \<Rightarrow> funcmap \<Rightarrow> funcmap" where
  "write_data e [] f = f"
| "write_data e (k # ks) f =
     (if GetIds f k = None then write_data e ks f
      else write_data e ks
             (snd (write_file e [Newline] (snd (write_file e [EmptyText] f)))))"

definition InitEnvFile ::
    "(string \<Rightarrow> string \<Rightarrow> string) \<Rightarrow> file_env \<Rightarrow> string \<Rightarrow> funcmap \<Rightarrow> (error option \<times> funcmap) go option"
where
  "InitEnvFile filepath_Join e path f =
     (let f = f\<lparr>fm_name := (if path = '''' then ''./funclist.conf''
                           else filepath_Join path ''funclist.conf'')\<rparr>;
          readable = fe_ok e (fm_ops f);
          f = f\<lparr>fm_ops := Suc (fm_ops f)\<rparr>
      in if \<not> readable then Some (Panic ExplicitPanic)
         else
           let bts = (case fm_disk f (fm_name f) of None \<Rightarrow> [] | Some cs \<Rightarrow> cs)
           in (case load_rows e (split_on Newline bts) f of
                 None \<Rightarrow> None
               | Some (Panic p) \<Rightarrow> Some (Panic p)
               | Some (Ret f) \<Rightarrow>
                   let f = (if unat (fm_num f) < BUILT_IN_MAX
                            then f\<lparr>fm_num := of_nat BUILT_IN_MAX\<rparr> else f);
                       removed = fe_ok e (fm_ops f);
                       f = f\<lparr>fm_ops := Suc (fm_ops f),
                             fm_disk := (if removed then (fm_disk f)(fm_name f := None)
                                         else fm_disk f)\<rparr>
                   in (case open_file e f of
                         (True, f) \<Rightarrow> Some (Ret (None, write_data e (fe_order e (fm_ops f)) f))
                       | (False, f) \<Rightarrow> Some (Ret (Some ''open'', f)))))"

section \<open>The file operations leave the catalogue alone\<close>

definition same_catalogue :: "funcmap \<Rightarrow> funcmap \<Rightarrow> bool" where
  "same_catalogue f g \<longleftrightarrow> fm_heap g = fm_heap f \<and> fm_new g = fm_new f \<and> fm_ids g = fm_ids f \<and>
     fm_str g = fm_str f \<and> fm_num g = fm_num f"

lemma same_catalogue_refl [simp]: "same_catalogue f f"
  by (simp add: same_catalogue_def)

lemma same_catalogue_trans [trans]:
  "same_catalogue f g \<Longrightarrow> same_catalogue g h \<Longrightarrow> same_catalogue f h"
  by (simp add: same_catalogue_def)

lemma open_file_same: "open_file e f = (ok, g) \<Longrightarrow> same_catalogue f g"
  by (auto simp: open_file_def same_catalogue_def Let_def split: if_splits)

lemma write_file_same: "write_file e cs f = (ok, g) \<Longrightarrow> same_catalogue f g"
  by (auto simp: write_file_def same_catalogue_def Let_def split: if_splits option.splits)

lemma dump_same: "dump e as f = (ok, g) \<Longrightarrow> same_catalogue f g"
proof (induction e as f rule: dump.induct)
  case (2 e a as f)
  obtain ok1 f1 where 1: "write_file e [ApiText a] f = (ok1, f1)" by fastforce
  obtain ok2 f2 where 2: "write_file e [Newline] f1 = (ok2, f2)" by fastforce
  show ?case
    using "2.prems" "2.IH" [OF 1 [symmetric]] 1 2 write_file_same [OF 1] write_file_same [OF 2]
    by (auto split: bool.splits intro: same_catalogue_trans)
qed simp

lemma same_catalogue_name [simp]: "same_catalogue (f\<lparr>fm_name := x\<rparr>) g \<longleftrightarrow> same_catalogue f g"
  by (simp add: same_catalogue_def)

lemma upEnvFile_same:
  assumes "upEnvFile e f = Some r"
  shows "\<forall>g. r = Ret g \<longrightarrow> same_catalogue f g"
proof (rule upEnvFile.raw_induct [OF _ assms])
  fix up e f r
  assume IH: "\<And>e f r. up e f = Some r \<Longrightarrow> \<forall>g. r = Ret g \<longrightarrow> same_catalogue f g"
    and step: "(case open_file e f of
        (ok, f) \<Rightarrow>
          if \<not> ok then Some (Panic ExplicitPanic)
          else
            (case dump e (RangeApi f (fe_order e (fm_ops f))) f of
               (ok, f) \<Rightarrow>
                 if ok then Some (Ret f)
                 else up e (f\<lparr>fm_name := ''./funclist.bak''\<rparr>))) = Some r"
  obtain ok1 f1 where 1: "open_file e f = (ok1, f1)" by fastforce
  obtain ok2 f2 where 2: "dump e (RangeApi f1 (fe_order e (fm_ops f1))) f1 = (ok2, f2)" by fastforce
  have same: "same_catalogue f f2"
    using open_file_same [OF 1] dump_same [OF 2] by (rule same_catalogue_trans)
  show "\<forall>g. r = Ret g \<longrightarrow> same_catalogue f g"
  proof (cases "ok1 \<and> \<not> ok2")
    case True
    with step 1 2 have "up e (f2\<lparr>fm_name := ''./funclist.bak''\<rparr>) = Some r" by simp
    from IH [OF this] same show ?thesis by (auto intro: same_catalogue_trans)
  next
    case False
    with step 1 2 same show ?thesis by (auto split: if_splits)
  qed
qed

lemma addEnvFile_same:
  assumes "addEnvFile e msg f = Some (Ret g)"
  shows "same_catalogue f g"
proof -
  obtain f1 where 1: "(if fm_file f = None then upEnvFile e f else Some (Ret f)) = Some (Ret f1)"
    and 2: "(case write_file e [MsgText msg, Newline] f1 of
              (ok, f) \<Rightarrow> if ok then Some (Ret f) else upEnvFile e f) = Some (Ret g)"
    using assms by (auto simp: addEnvFile_def split: option.splits go.splits)
  have "same_catalogue f f1"
    using 1 upEnvFile_same [of e f "Ret f1"] by (auto split: if_splits)
  moreover obtain ok f2 where 3: "write_file e [MsgText msg, Newline] f1 = (ok, f2)" by fastforce
  note write_file_same [OF 3]
  moreover have "same_catalogue f2 g"
    using 2 3 upEnvFile_same [of e f2 "Ret g"] by (auto split: if_splits)
  ultimately show ?thesis by (blast intro: same_catalogue_trans)
qed

section \<open>Invariant and specification\<close>

text \<open>
  Both indices agree: an entry is filed under its own id and its own name, in both; ids run up to
  the counter; the nodes of an entry are named and distinct.
\<close>

definition entry_ok :: "funcmap \<Rightarrow> nat \<Rightarrow> bool" where
  "entry_ok f p \<longleftrightarrow>
     (let d = fm_heap f p in
       p < fm_new f \<and> fm_ids f (fmsg_FuncID (fd_msg d)) = Some p \<and>
       fm_str f (fmsg_ApiName (fd_msg d)) = Some p \<and>
       fa_ID (fd_api d) = fmsg_FuncID (fd_msg d) \<and> fa_Name (fd_api d) = fmsg_ApiName (fd_msg d) \<and>
       fmsg_FuncID (fd_msg d) \<noteq> 0 \<and> fmsg_FuncID (fd_msg d) \<le> fm_num f \<and> fmsg_ApiName (fd_msg d) \<noteq> '''' \<and>
       distinct (fd_node d) \<and> '''' \<notin> set (fd_node d))"

definition reg_ok :: "funcmap \<Rightarrow> bool" where
  "reg_ok f \<longleftrightarrow>
     (\<forall>i p. fm_ids f i = Some p \<longrightarrow> entry_ok f p \<and> fmsg_FuncID (fd_msg (fm_heap f p)) = i) \<and>
     (\<forall>s p. fm_str f s = Some p \<longrightarrow> entry_ok f p \<and> fmsg_ApiName (fd_msg (fm_heap f p)) = s)"

lemma reg_ok_same: "same_catalogue f g \<Longrightarrow> reg_ok g \<longleftrightarrow> reg_ok f"
  by (simp add: same_catalogue_def reg_ok_def entry_ok_def)

text \<open>The specification: every api name has an id and the nodes that offer it.\<close>

type_synonym catalogue = "string \<rightharpoonup> uint32 \<times> string list"

definition catalogue_of :: "funcmap \<Rightarrow> catalogue" where
  "catalogue_of f = (\<lambda>name. map_option (\<lambda>d. (fmsg_FuncID (fd_msg d), fd_node d)) (GetStr f name))"

definition offer :: "string \<Rightarrow> string \<Rightarrow> catalogue \<times> uint32 \<Rightarrow> catalogue \<times> uint32" where
  "offer uuid name = (\<lambda>(cat, num).
     case cat name of
       Some (i, nodes) \<Rightarrow>
         (cat(name \<mapsto> (i, if uuid \<in> set nodes then nodes else nodes @ [uuid])), num)
     | None \<Rightarrow> (cat(name \<mapsto> (num + 1, [uuid])), num + 1))"

lemma catalogue_of_same: "same_catalogue f g \<Longrightarrow> catalogue_of g = catalogue_of f"
  by (simp add: same_catalogue_def catalogue_of_def GetStr_def)

lemma reg_ok_strD: "reg_ok f \<Longrightarrow> fm_str f s = Some p \<Longrightarrow>
    entry_ok f p \<and> fmsg_ApiName (fd_msg (fm_heap f p)) = s"
  by (simp add: reg_ok_def)

lemma reg_ok_idsD: "reg_ok f \<Longrightarrow> fm_ids f i = Some p \<Longrightarrow>
    entry_ok f p \<and> fmsg_FuncID (fd_msg (fm_heap f p)) = i"
  by (simp add: reg_ok_def)

lemma add_node_fields:
  "fm_new (add_node uuid p f) = fm_new f" "fm_ids (add_node uuid p f) = fm_ids f"
  "fm_str (add_node uuid p f) = fm_str f" "fm_num (add_node uuid p f) = fm_num f"
  "fd_msg (fm_heap (add_node uuid p f) q) = fd_msg (fm_heap f q)"
  "fd_api (fm_heap (add_node uuid p f) q) = fd_api (fm_heap f q)"
  "q \<noteq> p \<Longrightarrow> fm_heap (add_node uuid p f) q = fm_heap f q"
  "fd_node (fm_heap (add_node uuid p f) p) =
     (if uuid \<in> set (fd_node (fm_heap f p)) then fd_node (fm_heap f p) else fd_node (fm_heap f p) @ [uuid])"
  by (auto simp: add_node_def Let_def)

lemma add_node_catalogue:
  assumes ok: "reg_ok f" and p: "fm_str f name = Some p" and uuid: "uuid \<noteq> ''''"
  shows "reg_ok (add_node uuid p f)"
    and "(catalogue_of (add_node uuid p f), fm_num (add_node uuid p f)) =
           offer uuid name (catalogue_of f, fm_num f)"
proof -
  let ?g = "add_node uuid p f"
  note fields = add_node_fields [where uuid = uuid and p = p and f = f]
  have entry: "entry_ok f q \<Longrightarrow> entry_ok ?g q" for q
    using uuid fields(8) fields(7) [of q] by (cases "q = p") (auto simp: entry_ok_def Let_def fields(1-6))
  show "reg_ok ?g"
    using ok entry by (simp add: reg_ok_def fields(1-6))
  have "catalogue_of ?g = (catalogue_of f)(name \<mapsto> (fmsg_FuncID (fd_msg (fm_heap f p)),
      fd_node (fm_heap ?g p)))"
  proof
    fix s
    show "catalogue_of ?g s = ((catalogue_of f)(name \<mapsto> (fmsg_FuncID (fd_msg (fm_heap f p)),
      fd_node (fm_heap ?g p)))) s"
    proof (cases "fm_str f s = Some p")
      case True
      then have "s = name" using ok p by (auto dest: reg_ok_strD)
      then show ?thesis by (simp add: catalogue_of_def GetStr_def fields(1-6) p)
    next
      case False
      then have "s \<noteq> name" using p by auto
      with False show ?thesis
        by (auto simp: catalogue_of_def GetStr_def fields(1-7) split: option.splits
            intro!: map_option_cong)
    qed
  qed
  then show "(catalogue_of ?g, fm_num ?g) = offer uuid name (catalogue_of f, fm_num f)"
    using fields(8) by (simp add: offer_def catalogue_of_def GetStr_def p fields(1-4))
qed

text \<open>An entry that is ready to be stored under the next id, with \<open>uuid\<close> as its only node.\<close>

definition new_entry :: "funcmap \<Rightarrow> string \<Rightarrow> funcdata \<Rightarrow> bool" where
  "new_entry f uuid d \<longleftrightarrow>
     fm_str f (fmsg_ApiName (fd_msg d)) = None \<and> fm_num f < 2 ^ 32 - 1 \<and>
     fmsg_FuncID (fd_msg d) = fm_num f + 1 \<and>
     fa_ID (fd_api d) = fmsg_FuncID (fd_msg d) \<and> fa_Name (fd_api d) = fmsg_ApiName (fd_msg d) \<and>
     fmsg_ApiName (fd_msg d) \<noteq> '''' \<and> fd_node d = [uuid] \<and> uuid \<noteq> ''''"

lemma new_entry_above: "new_entry f uuid d \<Longrightarrow> i \<le> fm_num f \<Longrightarrow> i < fm_num f + 1"
  unfolding new_entry_def by (rule word_succ_above) auto

lemma store_entry_old:
  assumes "new_entry f uuid d" and "entry_ok f p"
  shows "entry_ok (store_entry d (f\<lparr>fm_num := fm_num f + 1\<rparr>)) p"
    and "fm_heap (store_entry d (f\<lparr>fm_num := fm_num f + 1\<rparr>)) p = fm_heap f p"
proof -
  have below: "fmsg_FuncID (fd_msg (fm_heap f p)) < fm_num f + 1"
    using assms by (intro new_entry_above) (auto simp: entry_ok_def Let_def)
  with assms show "entry_ok (store_entry d (f\<lparr>fm_num := fm_num f + 1\<rparr>)) p"
    by (auto simp: entry_ok_def new_entry_def store_entry_def Let_def)
  show "fm_heap (store_entry d (f\<lparr>fm_num := fm_num f + 1\<rparr>)) p = fm_heap f p"
    using assms by (auto simp: entry_ok_def store_entry_def Let_def)
qed

lemma store_entry_ok:
  assumes ok: "reg_ok f" and new: "new_entry f uuid d"
  shows "reg_ok (store_entry d (f\<lparr>fm_num := fm_num f + 1\<rparr>))"
proof -
  let ?g = "store_entry d (f\<lparr>fm_num := fm_num f + 1\<rparr>)"
  have "fm_num f + 1 \<noteq> 0" using new_entry_above [OF new order.refl] by auto
  then have fresh: "entry_ok ?g (fm_new f)" "fm_heap ?g (fm_new f) = d"
    using new by (auto simp: entry_ok_def new_entry_def store_entry_def Let_def)
  have num: "fmsg_FuncID (fd_msg d) = fm_num f + 1" using new by (simp add: new_entry_def)
  have ids: "p = fm_new f \<and> i = fm_num f + 1 \<or> fm_ids f i = Some p" if "fm_ids ?g i = Some p" for i p
    using that num by (auto simp: store_entry_def split: if_splits)
  have names: "p = fm_new f \<and> s = fmsg_ApiName (fd_msg d) \<or> fm_str f s = Some p" if "fm_str ?g s = Some p" for s p
    using that by (auto simp: store_entry_def split: if_splits)
  show ?thesis
    unfolding reg_ok_def
  proof (intro conjI allI impI)
    fix i p assume "fm_ids ?g i = Some p"
    with ids fresh num store_entry_old [OF new] reg_ok_idsD [OF ok]
    show "entry_ok ?g p" and "fmsg_FuncID (fd_msg (fm_heap ?g p)) = i" by metis+
  next
    fix s p assume "fm_str ?g s = Some p"
    with names fresh store_entry_old [OF new] reg_ok_strD [OF ok]
    show "entry_ok ?g p" and "fmsg_ApiName (fd_msg (fm_heap ?g p)) = s" by metis+
  qed
qed

lemma store_entry_catalogue:
  assumes ok: "reg_ok f" and new: "new_entry f uuid d"
  shows "(catalogue_of (store_entry d (f\<lparr>fm_num := fm_num f + 1\<rparr>)), fm_num f + 1) =
           offer uuid (fmsg_ApiName (fd_msg d)) (catalogue_of f, fm_num f)"
proof -
  let ?g = "store_entry d (f\<lparr>fm_num := fm_num f + 1\<rparr>)"
  have d: "fm_str f (fmsg_ApiName (fd_msg d)) = None" "fmsg_FuncID (fd_msg d) = fm_num f + 1" "fd_node d = [uuid]"
    using new by (simp_all add: new_entry_def)
  have "catalogue_of ?g s = ((catalogue_of f)(fmsg_ApiName (fd_msg d) \<mapsto> (fm_num f + 1, [uuid]))) s" for s
  proof (cases "s = fmsg_ApiName (fd_msg d)")
    case True
    then show ?thesis by (simp add: catalogue_of_def GetStr_def store_entry_def d)
  next
    case False
    moreover have "fm_heap ?g p = fm_heap f p" if "fm_str f s = Some p" for p
      using store_entry_old [OF new] reg_ok_strD [OF ok that] by blast
    ultimately show ?thesis
      by (cases "fm_str f s") (simp_all add: catalogue_of_def GetStr_def store_entry_def)
  qed
  then have "catalogue_of ?g = (catalogue_of f)(fmsg_ApiName (fd_msg d) \<mapsto> (fm_num f + 1, [uuid]))" ..
  then show ?thesis
    by (simp add: offer_def catalogue_of_def GetStr_def d(1))
qed

section \<open>What a put operation promises\<close>

locale registration =
  fixes put :: "file_env \<Rightarrow> string \<Rightarrow> 'a option \<Rightarrow> funcmap \<Rightarrow> 'a put_result"
    and name_of :: "'a \<Rightarrow> string"
    and ident :: "'a \<Rightarrow> uint32"
    and with_id :: "uint32 \<Rightarrow> 'a \<Rightarrow> 'a"
    and entry :: "string \<Rightarrow> 'a \<Rightarrow> funcdata"
  assumes rejected: "uuid = '''' \<or> name_of a = '''' \<Longrightarrow>
      put e uuid (Some a) f = Some (Ret (Some a, Some ''request data was wrong'', f))"
    and known: "uuid \<noteq> '''' \<Longrightarrow> name_of a \<noteq> '''' \<Longrightarrow> fm_str f (name_of a) = Some p \<Longrightarrow>
      put e uuid (Some a) f =
        Some (Ret (Some (with_id (fmsg_FuncID (fd_msg (fm_heap f p))) a), None, add_node uuid p f))"
    and fresh: "uuid \<noteq> '''' \<Longrightarrow> name_of a \<noteq> '''' \<Longrightarrow> fm_str f (name_of a) = None \<Longrightarrow>
      put e uuid (Some a) f =
        map_option (map_go (\<lambda>g. (Some (with_id (fm_num f + 1) a), None, g)))
          (addEnvFile e (fd_msg (entry uuid (with_id (fm_num f + 1) a)))
            (store_entry (entry uuid (with_id (fm_num f + 1) a)) (f\<lparr>fm_num := fm_num f + 1\<rparr>)))"
    and entry_fields: "fd_node (entry uuid a) = [uuid]"
      "fmsg_FuncID (fd_msg (entry uuid a)) = ident a" "fmsg_ApiName (fd_msg (entry uuid a)) = name_of a"
      "fa_ID (fd_api (entry uuid a)) = ident a" "fa_Name (fd_api (entry uuid a)) = name_of a"
    and with_id_fields: "ident (with_id i a) = i" "name_of (with_id i a) = name_of a"
begin

lemma put_refines:
  assumes ok: "reg_ok f" and room: "fm_num f < 2 ^ 32 - 1"
    and args: "uuid \<noteq> ''''" "name_of a \<noteq> ''''"
    and run: "put e uuid (Some a) f = Some (Ret (b, err, g))"
  shows "reg_ok g \<and> err = None \<and>
    (catalogue_of g, fm_num g) = offer uuid (name_of a) (catalogue_of f, fm_num f) \<and>
    (\<exists>i nodes. catalogue_of g (name_of a) = Some (i, nodes) \<and> uuid \<in> set nodes \<and>
       b = Some (with_id i a))"
proof (cases "fm_str f (name_of a)")
  case None
  let ?a = "with_id (fm_num f + 1) a"
  let ?h = "store_entry (entry uuid ?a) (f\<lparr>fm_num := fm_num f + 1\<rparr>)"
  from run fresh [OF args None] have b: "b = Some ?a" "err = None"
    and written: "addEnvFile e (fd_msg (entry uuid ?a)) ?h = Some (Ret g)"
    by (auto simp: map_go_Ret_iff)
  note same = addEnvFile_same [OF written]
  have "new_entry f uuid (entry uuid ?a)"
    using room None args by (simp add: new_entry_def entry_fields with_id_fields)
  note store = store_entry_ok [OF ok this] store_entry_catalogue [OF ok this, unfolded entry_fields with_id_fields]
  have "fm_num g = fm_num f + 1" "catalogue_of g = catalogue_of ?h" "reg_ok g"
    using same store catalogue_of_same [OF same] reg_ok_same [OF same]
    by (simp_all add: same_catalogue_def store_entry_def)
  with store show ?thesis
    using b None by (auto simp: offer_def catalogue_of_def GetStr_def)
next
  case (Some p)
  with run known [OF args Some] have b: "b = Some (with_id (fmsg_FuncID (fd_msg (fm_heap f p))) a)"
    "err = None" "g = add_node uuid p f" by simp_all
  have cat: "catalogue_of f (name_of a) =
      Some (fmsg_FuncID (fd_msg (fm_heap f p)), fd_node (fm_heap f p))"
    using Some by (simp add: catalogue_of_def GetStr_def)
  from add_node_catalogue [OF ok Some args(1)] b cat show ?thesis
    by (auto simp: offer_def)
qed

end

definition PutApi_entry :: "string \<Rightarrow> FuncApi \<Rightarrow> funcdata" where
  "PutApi_entry uuid a =
     \<lparr>fd_msg = \<lparr>fmsg_FuncID = fa_ID a, fmsg_ApiName = fa_Name a,
                fmsg_ServName = fst (comm_SplitApiName (fa_Name a)),
                fmsg_FuncName = snd (comm_SplitApiName (fa_Name a)),
                fmsg_ApiType = fa_Type a, fmsg_Protocal = fa_Kind a\<rparr>,
      fd_api = a, fd_node = [uuid]\<rparr>"

definition PutMsg_entry :: "string \<Rightarrow> FuncMsg \<Rightarrow> funcdata" where
  "PutMsg_entry uuid a =
     \<lparr>fd_msg = a,
      fd_api = \<lparr>fa_ID = fmsg_FuncID a, fa_Name = fmsg_ApiName a,
                fa_Type = fmsg_ApiType a, fa_Kind = fmsg_Protocal a\<rparr>,
      fd_node = [uuid]\<rparr>"

interpretation put_api: registration PutApi fa_Name fa_ID "\<lambda>i a. a\<lparr>fa_ID := i\<rparr>" PutApi_entry
  by unfold_locales
    (auto simp: PutApi_def PutApi_entry_def Let_def split: prod.splits)

interpretation put_msg: registration PutMsg fmsg_ApiName fmsg_FuncID "\<lambda>i a. a\<lparr>fmsg_FuncID := i\<rparr>"
    PutMsg_entry
  by unfold_locales
    (auto simp: PutMsg_def PutMsg_entry_def Let_def)

section \<open>When the file operations return\<close>

text \<open>From the current operation on, all file operations succeed.\<close>

definition disk_works :: "file_env \<Rightarrow> funcmap \<Rightarrow> bool" where
  "disk_works e f \<longleftrightarrow> (\<forall>k \<ge> fm_ops f. fe_ok e k)"

lemma open_file_works: "disk_works e f \<Longrightarrow>
    \<exists>g. open_file e f = (True, g) \<and> fm_file g \<noteq> None \<and> disk_works e g"
  by (auto simp: open_file_def disk_works_def Let_def)

lemma write_file_works: "disk_works e f \<Longrightarrow> fm_file f \<noteq> None \<Longrightarrow>
    \<exists>g. write_file e cs f = (True, g) \<and> fm_file g \<noteq> None \<and> disk_works e g"
  by (auto simp: write_file_def disk_works_def Let_def)

lemma dump_works: "disk_works e f \<Longrightarrow> fm_file f \<noteq> None \<Longrightarrow>
    \<exists>g. dump e as f = (True, g) \<and> fm_file g \<noteq> None \<and> disk_works e g"
proof (induction "as" arbitrary: f)
  case (Cons a "as")
  from write_file_works [OF Cons.prems, of "[ApiText a]"]
  obtain f1 where 1: "write_file e [ApiText a] f = (True, f1)" "fm_file f1 \<noteq> None" "disk_works e f1"
    by blast
  from write_file_works [OF 1(3,2), of "[Newline]"]
  obtain f2 where 2: "write_file e [Newline] f1 = (True, f2)" "fm_file f2 \<noteq> None" "disk_works e f2"
    by blast
  from 1(1) 2(1) Cons.IH [OF 2(3,2)] show ?case by simp
qed simp

lemma upEnvFile_works: "disk_works e f \<Longrightarrow>
    \<exists>g. upEnvFile e f = Some (Ret g) \<and> fm_file g \<noteq> None \<and> disk_works e g"
proof -
  assume "disk_works e f"
  from open_file_works [OF this] obtain f1 where
    1: "open_file e f = (True, f1)" "fm_file f1 \<noteq> None" "disk_works e f1" by blast
  from dump_works [OF 1(3,2), of "RangeApi f1 (fe_order e (fm_ops f1))"] 1(1) show ?thesis
    by (subst upEnvFile.simps) auto
qed

lemma addEnvFile_works: "disk_works e f \<Longrightarrow>
    \<exists>g. addEnvFile e msg f = Some (Ret g) \<and> disk_works e g"
proof -
  assume f: "disk_works e f"
  obtain f1 where 1: "(if fm_file f = None then upEnvFile e f else Some (Ret f)) = Some (Ret f1)"
    "fm_file f1 \<noteq> None" "disk_works e f1"
    using upEnvFile_works [OF f] f by (cases "fm_file f = None") auto
  from write_file_works [OF 1(3,2), of "[MsgText msg, Newline]"] 1(1) show ?thesis
    by (auto simp: addEnvFile_def)
qed

text \<open>Opening works and writing does not, as on a full disk.\<close>

definition disk_full :: "file_env \<Rightarrow> nat \<Rightarrow> bool" where
  "disk_full e n \<longleftrightarrow> (\<forall>j. fe_ok e (n + 2 * j) \<and> \<not> fe_ok e (Suc (n + 2 * j)))"

lemma disk_full_next: "disk_full e n \<Longrightarrow> disk_full e (Suc (Suc n))"
  unfolding disk_full_def
proof
  fix j assume "\<forall>j. fe_ok e (n + 2 * j) \<and> \<not> fe_ok e (Suc (n + 2 * j))"
  from this [rule_format, of "Suc j"]
  show "fe_ok e (Suc (Suc n) + 2 * j) \<and> \<not> fe_ok e (Suc (Suc (Suc n) + 2 * j))" by simp
qed

lemma disk_full_round:
  assumes "disk_full e (fm_ops f)"
  shows "\<exists>f1. open_file e f = (True, f1) \<and> fm_ids f1 = fm_ids f \<and> fm_heap f1 = fm_heap f \<and>
    fm_ops f1 = Suc (fm_ops f) \<and>
    (\<forall>a as. dump e (a # as) f1 = (False, f1\<lparr>fm_ops := Suc (Suc (fm_ops f))\<rparr>))"
proof -
  have ok: "fe_ok e (fm_ops f)" "\<not> fe_ok e (Suc (fm_ops f))"
    using assms [unfolded disk_full_def, rule_format, of 0] by simp_all
  let ?f = "snd (open_file e f)"
  have "dump e (a # as) ?f = (False, ?f\<lparr>fm_ops := Suc (Suc (fm_ops f))\<rparr>)" for a "as"
    using ok by (simp add: open_file_def write_file_def)
  with ok show ?thesis by (intro exI [of _ ?f]) (simp add: open_file_def)
qed

lemma upEnvFile_disk_full:
  assumes run: "upEnvFile e f = Some r"
  shows "\<not> (disk_full e (fm_ops f) \<and> (\<forall>k. RangeApi f (fe_order e k) \<noteq> []))"
proof (rule upEnvFile.raw_induct [OF _ run])
  fix up e f r
  assume IH: "\<And>e f r. up e f = Some r \<Longrightarrow>
      \<not> (disk_full e (fm_ops f) \<and> (\<forall>k. RangeApi f (fe_order e k) \<noteq> []))"
    and step: "(case open_file e f of
        (ok, f) \<Rightarrow>
          if \<not> ok then Some (Panic ExplicitPanic)
          else
            (case dump e (RangeApi f (fe_order e (fm_ops f))) f of
               (ok, f) \<Rightarrow>
                 if ok then Some (Ret f)
                 else up e (f\<lparr>fm_name := ''./funclist.bak''\<rparr>))) = Some r"
  show "\<not> (disk_full e (fm_ops f) \<and> (\<forall>k. RangeApi f (fe_order e k) \<noteq> []))"
  proof
    assume bad: "disk_full e (fm_ops f) \<and> (\<forall>k. RangeApi f (fe_order e k) \<noteq> [])"
    then have full: "disk_full e (fm_ops f)" by blast
    obtain f1 where f1: "open_file e f = (True, f1)" "fm_ids f1 = fm_ids f"
        "fm_heap f1 = fm_heap f" "fm_ops f1 = Suc (fm_ops f)"
        "\<forall>a as. dump e (a # as) f1 = (False, f1\<lparr>fm_ops := Suc (Suc (fm_ops f))\<rparr>)"
      using disk_full_round [OF full] by blast
    have range: "RangeApi f1 ks = RangeApi f ks" for ks
      using f1(2,3) by (simp add: RangeApi_def GetIds_def)
    obtain a "as" where "RangeApi f1 (fe_order e (fm_ops f1)) = a # as"
      using bad range by (metis list.exhaust)
    with step f1(1,5) have "up e (f1\<lparr>fm_ops := Suc (Suc (fm_ops f)), fm_name := ''./funclist.bak''\<rparr>) = Some r"
      by simp
    from IH [OF this] bad disk_full_next range show False
      by (simp add: RangeApi_def GetIds_def)
  qed
qed

section \<open>What is left of the file after a restart\<close>

text \<open>Every row is offered to \<open>PutApi\<close> without a node, which is refused: only the counter moves.\<close>

lemma load_rows_catalogue:
  "\<exists>n. load_rows e rows f = Some (Ret (f\<lparr>fm_num := n\<rparr>)) \<and> fm_num f \<le> n"
proof (induction rows arbitrary: f)
  case Nil
  have "f = f\<lparr>fm_num := fm_num f\<rparr>" by simp
  then show ?case by (auto intro!: exI [of _ "fm_num f"])
next
  case (Cons row rows)
  have skip: ?case if "load_rows e (row # rows) f = load_rows e rows f"
    using Cons.IH that by simp
  show ?case
  proof (cases "row = [] \<or> row_api row = None")
    case True
    then show ?thesis by (intro skip) auto
  next
    case False
    then obtain a where a: "row \<noteq> []" "row_api row = Some a" by auto
    show ?thesis
    proof (cases "unat (fa_ID a) > BUILT_IN_MAX")
      case False
      with a show ?thesis by (intro skip) simp
    next
      case True
      let ?g = "if fa_ID a > fm_num f then f\<lparr>fm_num := fa_ID a\<rparr> else f"
      have "load_rows e (row # rows) f = load_rows e rows ?g"
        using a True by (simp add: put_api.rejected)
      moreover obtain n where "load_rows e rows ?g = Some (Ret (?g\<lparr>fm_num := n\<rparr>))" "fm_num ?g \<le> n"
        using Cons.IH by blast
      moreover have "fm_num f \<le> fm_num ?g" "?g\<lparr>fm_num := n\<rparr> = f\<lparr>fm_num := n\<rparr>" by auto
      ultimately have "load_rows e (row # rows) f = Some (Ret (f\<lparr>fm_num := n\<rparr>)) \<and> fm_num f \<le> n"
        by (simp only: simp_thms)
      then show ?thesis by blast
    qed
  qed
qed

lemma load_rows_msgs: "load_rows e (map (\<lambda>m. [MsgText m]) ms @ [[]]) f = Some (Ret f)"
  by (induction ms) (simp_all add: FuncApi_zero_def)

lemma split_msg_rows:
  "split_on Newline (concat (map (\<lambda>m. [MsgText m, Newline]) ms)) = map (\<lambda>m. [MsgText m]) ms @ [[]]"
  by (induction ms) simp_all

lemma write_data_none: "fm_ids f = Map.empty \<Longrightarrow> write_data e ks f = f"
  by (induction ks) (simp_all add: GetIds_def)

context registration
begin

lemma put_returns:
  assumes "disk_works e f" and args: "uuid \<noteq> ''''" "name_of a \<noteq> ''''"
  shows "\<exists>b g. put e uuid (Some a) f = Some (Ret (Some b, None, g)) \<and> disk_works e g"
proof (cases "fm_str f (name_of a)")
  case None
  let ?a = "with_id (fm_num f + 1) a"
  have "disk_works e (store_entry (entry uuid ?a) (f\<lparr>fm_num := fm_num f + 1\<rparr>))"
    using assms(1) by (simp add: disk_works_def store_entry_def)
  from addEnvFile_works [OF this, of "fd_msg (entry uuid ?a)"] show ?thesis
    by (auto simp: fresh [OF args None])
next
  case (Some p)
  then show ?thesis
    using assms(1) by (simp add: known [OF args Some] add_node_def disk_works_def Let_def)
qed

lemma put_disk_full:
  assumes args: "uuid \<noteq> ''''" "name_of a \<noteq> ''''" "fm_str f (name_of a) = None"
    and disk: "fm_file f = Some path" "\<not> fe_ok e (fm_ops f)" "disk_full e (Suc (fm_ops f))"
    and order: "\<And>k. fm_num f + 1 \<in> set (fe_order e k)"
  shows "put e uuid (Some a) f = None"
proof -
  let ?a = "with_id (fm_num f + 1) a"
  let ?g = "store_entry (entry uuid ?a) (f\<lparr>fm_num := fm_num f + 1\<rparr>)"
  let ?h = "?g\<lparr>fm_ops := Suc (fm_ops f)\<rparr>"
  have "GetIds ?h (fm_num f + 1) \<noteq> None"
    by (simp add: GetIds_def store_entry_def entry_fields with_id_fields)
  then have "RangeApi ?h (fe_order e k) \<noteq> []" for k
    using order [of k] by (auto simp: RangeApi_def List.map_filter_def filter_empty_conv)
  moreover have "disk_full e (fm_ops ?h)" using disk(3) by simp
  ultimately have "upEnvFile e ?h = None"
    using upEnvFile_disk_full [of e ?h] by (cases "upEnvFile e ?h") blast+
  then have "addEnvFile e (fd_msg (entry uuid ?a)) ?g = None"
    using disk by (simp add: addEnvFile_def write_file_def store_entry_def)
  with fresh [OF args] show ?thesis by simp
qed

end

section \<open>Properties\<close>

text \<open>The registry that \<open>NewWatcher\<close> makes.\<close>

definition new_funcmap :: funcmap where
  "new_funcmap =
     \<lparr>fm_heap = (\<lambda>_. \<lparr>fd_msg = FuncMsg_zero, fd_api = FuncApi_zero, fd_node = []\<rparr>), fm_new = 0,
      fm_ids = Map.empty, fm_str = Map.empty, fm_num = of_nat WATCH_IN_MAX, fm_name = [],
      fm_file = None, fm_disk = Map.empty, fm_ops = 0\<rparr>"

lemma new_funcmap_ok: "reg_ok new_funcmap"
  by (simp add: new_funcmap_def reg_ok_def)

text \<open>C19: Registering an api of a node refines the abstract catalogue, whatever the file operations do: a
  known name keeps its id and gains the node once, a new name gets the next id, no other name is
  touched, the id is written back into the argument, and the indices stay consistent.\<close>

theorem registration_refines_catalogue:
  assumes "reg_ok f" and "fm_num f < 2 ^ 32 - 1" and "uuid \<noteq> ''''" and "fa_Name a \<noteq> ''''"
    and "PutApi e uuid (Some a) f = Some (Ret (b, err, g))"
  shows "reg_ok g \<and> err = None \<and>
    (catalogue_of g, fm_num g) = offer uuid (fa_Name a) (catalogue_of f, fm_num f) \<and>
    (\<exists>i nodes. catalogue_of g (fa_Name a) = Some (i, nodes) \<and> uuid \<in> set nodes \<and>
       b = Some (a\<lparr>fa_ID := i\<rparr>))"
  using assms by (rule put_api.put_refines)

theorem registration_refines_catalogue_witness:
  "\<exists>b g. PutApi \<lparr>fe_ok = (\<lambda>_. True), fe_order = (\<lambda>_. [])\<rparr> ''node'' (Some (FuncApi_zero\<lparr>fa_Name := ''A.B''\<rparr>))
      new_funcmap = Some (Ret (b, None, g)) \<and> reg_ok g \<and>
    (catalogue_of g, fm_num g) = offer ''node'' ''A.B'' (catalogue_of new_funcmap, fm_num new_funcmap)"
proof -
  let ?e = "\<lparr>fe_ok = (\<lambda>_. True), fe_order = (\<lambda>_. [])\<rparr>" and ?a = "FuncApi_zero\<lparr>fa_Name := ''A.B''\<rparr>"
  obtain b g where run: "PutApi ?e ''node'' (Some ?a) new_funcmap = Some (Ret (Some b, None, g))"
    using put_api.put_returns [of ?e new_funcmap "''node''" ?a] by (auto simp: disk_works_def)
  have "fm_num new_funcmap < 2 ^ 32 - 1" by (simp add: new_funcmap_def WATCH_IN_MAX_def)
  with registration_refines_catalogue [OF new_funcmap_ok _ _ _ run] run show ?thesis by auto
qed

text \<open>C33: Registering returns normally when the file operations from then on succeed.\<close>

theorem registration_returns:
  assumes "disk_works e f" and "uuid \<noteq> ''''" and "fa_Name a \<noteq> ''''"
  shows "\<exists>b g. PutApi e uuid (Some a) f = Some (Ret (Some b, None, g))"
  using put_api.put_returns [OF assms] by blast

theorem registration_returns_witness:
  "\<exists>b g. PutApi \<lparr>fe_ok = (\<lambda>_. True), fe_order = (\<lambda>_. [])\<rparr> ''node''
     (Some (FuncApi_zero\<lparr>fa_Name := ''A.B''\<rparr>)) new_funcmap = Some (Ret (Some b, None, g))"
  by (rule registration_returns) (simp_all add: disk_works_def)

text \<open>On a disk on which files open but writes fail, registering a new api never returns: the writer
  starts over with the backup file for ever.\<close>

lemma registration_diverges_on_full_disk:
  assumes "uuid \<noteq> ''''" and "fa_Name a \<noteq> ''''" and "fm_str f (fa_Name a) = None"
    and "fm_file f = Some path" and "\<not> fe_ok e (fm_ops f)" and "disk_full e (Suc (fm_ops f))"
    and "\<And>k. fm_num f + 1 \<in> set (fe_order e k)"
  shows "PutApi e uuid (Some a) f = None"
  using assms by (rule put_api.put_disk_full)

lemma registration_diverges_on_full_disk_witness:
  "PutApi \<lparr>fe_ok = odd, fe_order = (\<lambda>_. [101])\<rparr> ''node'' (Some (FuncApi_zero\<lparr>fa_Name := ''A.B''\<rparr>))
     (new_funcmap\<lparr>fm_file := Some ''./funclist.conf''\<rparr>) = None"
  by (rule registration_diverges_on_full_disk)
    (simp_all add: new_funcmap_def disk_full_def WATCH_IN_MAX_def)

text \<open>A watcher that restarts finds nothing in the file that its own registrations wrote: the catalogue
  stays empty, the counter stays where it starts, so ids are given out anew, and the file is emptied.\<close>

lemma restart_forgets:
  assumes "disk_works e f" and "fm_ids f = Map.empty" and "BUILT_IN_MAX \<le> unat (fm_num f)"
    and "fm_disk f (if path = '''' then ''./funclist.conf'' else jn path ''funclist.conf'') =
           Some (concat (map (\<lambda>m. [MsgText m, Newline]) ms))"
  shows "\<exists>g. InitEnvFile jn e path f = Some (Ret (None, g)) \<and> catalogue_of g = catalogue_of f \<and>
    fm_ids g = Map.empty \<and> fm_num g = fm_num f \<and> fm_disk g (fm_name g) = Some []"
proof -
  have ok: "fe_ok e (fm_ops f)" "fe_ok e (Suc (fm_ops f))" "fe_ok e (Suc (Suc (fm_ops f)))"
    using assms(1) by (simp_all add: disk_works_def)
  show ?thesis
    using ok assms(2-4)
    by (simp add: InitEnvFile_def Let_def split_msg_rows load_rows_msgs open_file_def write_data_none
        catalogue_of_def GetStr_def)
qed

lemma restart_forgets_witness:
  "\<exists>g. InitEnvFile (\<lambda>a b. a @ b) \<lparr>fe_ok = (\<lambda>_. True), fe_order = (\<lambda>_. [])\<rparr> ''''
      (new_funcmap\<lparr>fm_disk := [''./funclist.conf'' \<mapsto>
         [MsgText (FuncMsg_zero\<lparr>fmsg_FuncID := 101, fmsg_ApiName := ''A.B''\<rparr>), Newline]]\<rparr>) =
        Some (Ret (None, g)) \<and> fm_ids g = Map.empty \<and> fm_num g = 100 \<and> fm_disk g (fm_name g) = Some []"
proof -
  let ?m = "FuncMsg_zero\<lparr>fmsg_FuncID := 101, fmsg_ApiName := ''A.B''\<rparr>"
  let ?f = "new_funcmap\<lparr>fm_disk := [''./funclist.conf'' \<mapsto> [MsgText ?m, Newline]]\<rparr>"
  have num: "fm_num ?f = 100" by (simp add: new_funcmap_def WATCH_IN_MAX_def)
  have "\<exists>g. InitEnvFile (\<lambda>a b. a @ b) \<lparr>fe_ok = (\<lambda>_. True), fe_order = (\<lambda>_. [])\<rparr> '''' ?f =
      Some (Ret (None, g)) \<and> catalogue_of g = catalogue_of ?f \<and>
      fm_ids g = Map.empty \<and> fm_num g = fm_num ?f \<and> fm_disk g (fm_name g) = Some []"
    by (rule restart_forgets [where ms = "[?m]"])
      (simp_all add: disk_works_def new_funcmap_def WATCH_IN_MAX_def BUILT_IN_MAX_def)
  with num show ?thesis by (simp only:) blast
qed

end
