(* ===== verification/WatchServer.thy ===== *)
theory WatchServer
  imports WatchRegistry
begin

text \<open>
  The watcher node, network/watch: the table of registered nodes (node.go), the handlers of the
  service \<open>WatchApi\<close> (api.go), the election of a main watcher (elect.go) and the state that
  \<open>NewWatcher\<close> sets up (watch.go). The functions of the registry are in the theory WatchRegistry.

  Times are in milliseconds; every operation that reads the clock takes the time as an argument.
  The handlers run one after the other here. The step relation \<open>watch_step\<close> collects everything that
  changes the state of a watcher; the invariants are proved for all states it reaches.
\<close>

section \<open>The table of nodes\<close>

record NodeMsg =
  nm_base :: NodeInfo
  nm_syst :: "SystemStatus option"
  nm_stamp :: int
  nm_state :: bool

record nodemap =
  nmap_name :: "string \<rightharpoonup> string list"
  nmap_uuid :: "string \<rightharpoonup> NodeMsg"

definition UpHeartbeat :: "int \<Rightarrow> SystemStatus \<Rightarrow> nodemap \<Rightarrow> bool \<times> nodemap" where
  "UpHeartbeat now sys n =
     (case nmap_uuid n (ss_Uuid sys) of
        Some msg \<Rightarrow>
          (True, n\<lparr>nmap_uuid := (nmap_uuid n)(ss_Uuid sys \<mapsto>
             msg\<lparr>nm_stamp := now, nm_state := True, nm_syst := Some sys\<rparr>)\<rparr>)
      | None \<Rightarrow> (False, n))"

definition GetNodeByUuid :: "nodemap \<Rightarrow> string \<Rightarrow> NodeInfo option" where
  "GetNodeByUuid n uuid =
     (if uuid \<noteq> '''' then map_option nm_base (nmap_uuid n uuid) else None)"

definition GetUuidByName :: "nodemap \<Rightarrow> string \<Rightarrow> string list" where
  "GetUuidByName n name = (case nmap_name n name of Some ids \<Rightarrow> ids | None \<Rightarrow> [])"

definition GetNodeByName :: "nodemap \<Rightarrow> string \<Rightarrow> NodeInfo list" where
  "GetNodeByName n name = List.map_filter (GetNodeByUuid n) (GetUuidByName n name)"

definition PutNodeDetail :: "int \<Rightarrow> NodeInfo \<Rightarrow> nodemap \<Rightarrow> nodemap" where
  "PutNodeDetail now msg n =
     (case nmap_uuid n (ni_Uuid msg) of
        Some arg \<Rightarrow>
          if ni_Host (nm_base arg) = ni_Host msg
          then n\<lparr>nmap_uuid := (nmap_uuid n)(ni_Uuid msg \<mapsto> arg\<lparr>nm_stamp := now, nm_state := True\<rparr>)\<rparr>
          else n
      | None \<Rightarrow>
          n\<lparr>nmap_uuid := (nmap_uuid n)(ni_Uuid msg \<mapsto>
             \<lparr>nm_base = msg\<lparr>ni_Funcs := []\<rparr>, nm_syst = None, nm_stamp = now, nm_state = True\<rparr>)\<rparr>)"

definition ClearNodeExprie :: "int \<Rightarrow> nodemap \<Rightarrow> nodemap" where
  "ClearNodeExprie now n =
     (let exp = now + NodeConnTimeOut
      in n\<lparr>nmap_uuid := (\<lambda>k. case nmap_uuid n k of
             Some v \<Rightarrow> if \<not> nm_state v \<or> nm_stamp v < exp then None else Some v
           | None \<Rightarrow> None)\<rparr>)"

section \<open>The watcher\<close>

record ElectCampRsp =
  ec_NodeBase :: NodeInfo
  ec_SystemMsg :: SystemStatus

record WatchElect =
  el_center :: bool
  el_begin :: int
  el_exprie :: int
  el_nodeId :: string
  el_list :: "ElectCampRsp list"

record WatchNode =
  wn_info :: NodeInfo
  wn_center :: bool
  wn_status :: bool
  wn_stamp :: int

text \<open>\<open>WatchApi\<close> with the fields of the \<open>WatchDetail\<close> it points to.\<close>

record WatchApi =
  wa_fmsg :: funcmap
  wa_node :: nodemap
  wa_base :: NodeInfo
  wa_watch :: "WatchNode list"
  wa_elect :: WatchElect

text \<open>The state that \<open>NewWatcher\<close> builds around its node.\<close>

definition new_watch_api :: "NodeInfo \<Rightarrow> int \<Rightarrow> WatchApi" where
  "new_watch_api node now =
     \<lparr>wa_fmsg = new_funcmap, wa_node = \<lparr>nmap_name = Map.empty, nmap_uuid = Map.empty\<rparr>,
      wa_base = node,
      wa_watch = [\<lparr>wn_info = node, wn_center = True, wn_status = False, wn_stamp = now\<rparr>],
      wa_elect = \<lparr>el_center = True, el_begin = 0, el_exprie = 0, el_nodeId = [], el_list = []\<rparr>\<rparr>"

definition Center :: "WatchApi \<Rightarrow> bool" where
  "Center w = el_center (wa_elect w)"

section \<open>Handlers\<close>

text \<open>The loop of \<open>Registered\<close>; the result of \<open>PutApi\<close> is ignored.\<close>

fun register_funcs ::
    "file_env \<Rightarrow> string \<Rightarrow> FuncApi list \<Rightarrow> funcmap \<Rightarrow> (FuncApi list \<times> funcmap) go option" where
  "register_funcs e uuid [] f = Some (Ret ([], f))"
| "register_funcs e uuid (v # vs) f =
     (case PutApi e uuid (Some v) f of
        Some (Ret (Some v, err, f)) \<Rightarrow>
          map_option (map_go (\<lambda>(ws, f). (v # ws, f))) (register_funcs e uuid vs f)
      | Some (Ret (None, err, f)) \<Rightarrow> Some (Panic NilDereference)
      | Some (Panic p) \<Rightarrow> Some (Panic p)
      | None \<Rightarrow> None)"

definition WatchApi_Registered ::
    "file_env \<Rightarrow> int \<Rightarrow> NodeInfo \<Rightarrow> WatchApi \<Rightarrow> (error option \<times> RegisteredRsp \<times> WatchApi) go option"
where
  "WatchApi_Registered e now req w =
     (if ni_Uuid req = '''' then
        Some (Ret (Some ''node server uuid cannot be null'', \<lparr>rr_Watch = [], rr_Funcs = []\<rparr>, w))
      else
        map_option (map_go (\<lambda>(vs, f).
            (None,
             \<lparr>rr_Watch = map (\<lambda>row. NodeInfo_zero\<lparr>ni_Uuid := ni_Uuid (wn_info row),
                 ni_Main := ni_Main (wn_info row), ni_Host := ni_Host (wn_info row),
                 ni_Tport := ni_Tport (wn_info row), ni_Uport := ni_Uport (wn_info row),
                 ni_Hport := ni_Hport (wn_info row)\<rparr>) (wa_watch w),
              rr_Funcs = vs\<rparr>,
             w\<lparr>wa_fmsg := f, wa_node := PutNodeDetail now req (wa_node w)\<rparr>)))
          (register_funcs e (ni_Uuid req) (ni_Funcs req) (wa_fmsg w)))"

definition WatchApi_Heartbeats ::
    "int \<Rightarrow> SystemStatus \<Rightarrow> WatchApi \<Rightarrow> error option \<times> WatchApi" where
  "WatchApi_Heartbeats now req w =
     (case UpHeartbeat now req (wa_node w) of
        (True, n) \<Rightarrow> (None, w\<lparr>wa_node := n\<rparr>)
      | (False, n) \<Rightarrow> (Some ''no found this node'', w\<lparr>wa_node := n\<rparr>))"

text \<open>The last argument of a request without id and name is the order of the ranged map.\<close>

definition WatchApi_GetFuncMsg ::
    "uint32 list \<Rightarrow> uint32 \<Rightarrow> string \<Rightarrow> WatchApi \<Rightarrow> GetFuncMsgRsp" where
  "WatchApi_GetFuncMsg order fid name w =
     (if fid \<noteq> 0 then
        \<lparr>gf_Func = funcdata_GetApi (GetIds (wa_fmsg w) fid), gf_List = []\<rparr>
      else if name \<noteq> '''' then
        \<lparr>gf_Func = funcdata_GetApi (GetStr (wa_fmsg w) name), gf_List = []\<rparr>
      else \<lparr>gf_Func = None, gf_List = RangeApi (wa_fmsg w) order\<rparr>)"

definition WatchApi_GetNodeMsg ::
    "string \<Rightarrow> string \<Rightarrow> WatchApi \<Rightarrow> error option \<times> GetNodeMsgRsp" where
  "WatchApi_GetNodeMsg uuid name w =
     (if uuid \<noteq> '''' then (None, \<lparr>gn_Data = GetNodeByUuid (wa_node w) uuid, gn_List = []\<rparr>)
      else if name \<noteq> '''' then (None, \<lparr>gn_Data = None, gn_List = GetNodeByName (wa_node w) name\<rparr>)
      else (Some ''not found this server node'', \<lparr>gn_Data = None, gn_List = []\<rparr>))"

text \<open>The nodes that are no longer in the table are dropped from the entry, through its pointer.\<close>

definition WatchApi_GetApiConn :: "uint32 \<Rightarrow> string \<Rightarrow> WatchApi \<Rightarrow> GetApiConnRsp \<times> WatchApi" where
  "WatchApi_GetApiConn fid name w =
     (let f = wa_fmsg w;
          func = (if fid \<noteq> 0 then funcdata_GetMsg (GetIds f fid)
                  else if name \<noteq> '''' then funcdata_GetMsg (GetStr f name)
                  else None)
      in case fm_ids f (GetFuncID func) of
           None \<Rightarrow> (\<lparr>ga_Func = func, ga_List = []\<rparr>, w)
         | Some p \<Rightarrow>
             let d = fm_heap f p;
                 ids = filter (\<lambda>i. GetNodeByUuid (wa_node w) i \<noteq> None) (fd_node d)
             in (\<lparr>ga_Func = func, ga_List = List.map_filter (GetNodeByUuid (wa_node w)) (fd_node d)\<rparr>,
                 w\<lparr>wa_fmsg := f\<lparr>fm_heap := (fm_heap f)(p := d\<lparr>fd_node := ids\<rparr>)\<rparr>\<rparr>))"

section \<open>Election\<close>

record ElectCampReq =
  er_Base :: "NodeInfo option"
  er_Uuids :: "string list"
  er_Begin :: int
  er_Exprie :: int

text \<open>
  \<open>Elect\<close> notifies the watchers that are marked reachable. What it would do with their answers is
  behind a comparison of an interface value with nil that never holds, since \<open>CallByUuid\<close> returns a
  pointer; so the answers change nothing. The result is the request that is sent, if any.
\<close>

definition Elect :: "int \<Rightarrow> WatchApi \<Rightarrow> ElectCampReq option \<times> WatchApi" where
  "Elect now w =
     (if el_exprie (wa_elect w) > now then (None, w)
      else
        (Some \<lparr>er_Base = Some (wa_base w),
               er_Uuids = map (\<lambda>n. ni_Uuid (wn_info n)) (filter wn_status (wa_watch w)),
               er_Begin = now, er_Exprie = now + 10000\<rparr>,
         w\<lparr>wa_elect := (wa_elect w)\<lparr>el_center := False, el_nodeId := ni_Uuid (wa_base w),
             el_begin := now, el_exprie := now + 10000\<rparr>\<rparr>))"

definition ElectNotify ::
    "int \<Rightarrow> SystemStatus \<Rightarrow> ElectCampReq \<Rightarrow> WatchApi \<Rightarrow> (error option \<times> ElectCampRsp option \<times> WatchApi) go"
where
  "ElectNotify now state req w =
     (if el_exprie (wa_elect w) > now \<and> el_begin (wa_elect w) < er_Begin req then
        Ret (Some ''have other campaign'', None, w)
      else
        (case er_Base req of
           None \<Rightarrow> Panic NilDereference
         | Some b \<Rightarrow>
             Ret (None, Some \<lparr>ec_NodeBase = wa_base w, ec_SystemMsg = state\<rparr>,
                  w\<lparr>wa_elect := (wa_elect w)\<lparr>el_center := False, el_nodeId := ni_Uuid b,
                      el_begin := er_Begin req, el_exprie := er_Exprie req\<rparr>\<rparr>)))"

text \<open>\<open>ElectResult\<close> has an empty body.\<close>

definition ElectResult :: "NodeInfo \<Rightarrow> WatchApi \<Rightarrow> error option \<times> WatchApi" where
  "ElectResult req w = (None, w)"

section \<open>Steps of a watcher\<close>

text \<open>Registrations are limited to those for which the 32-bit counter of ids still has room.\<close>

inductive watch_step :: "file_env \<Rightarrow> WatchApi \<Rightarrow> WatchApi \<Rightarrow> bool" for e where
  registered: "WatchApi_Registered e now req w = Some (Ret (err, rsp, w')) \<Longrightarrow>
     unat (fm_num (wa_fmsg w)) + length (ni_Funcs req) < 2 ^ 32 - 1 \<Longrightarrow> watch_step e w w'"
| heartbeat: "WatchApi_Heartbeats now sys w = (err, w') \<Longrightarrow> watch_step e w w'"
| api_conn: "WatchApi_GetApiConn fid name w = (rsp, w') \<Longrightarrow> watch_step e w w'"
| sweep: "watch_step e w (w\<lparr>wa_node := ClearNodeExprie now (wa_node w)\<rparr>)"
| elect: "Elect now w = (req, w') \<Longrightarrow> watch_step e w w'"
| notified: "ElectNotify now sys req w = Ret (err, rsp, w') \<Longrightarrow> watch_step e w w'"

inductive_cases watch_stepE: "watch_step e w w'"

abbreviation reachable :: "file_env \<Rightarrow> WatchApi \<Rightarrow> WatchApi \<Rightarrow> bool" where
  "reachable e \<equiv> (watch_step e)\<^sup>*\<^sup>*"

section \<open>The invariant of a watcher\<close>

definition nodes_ok :: "nodemap \<Rightarrow> bool" where
  "nodes_ok n \<longleftrightarrow> nmap_name n = Map.empty \<and>
     (\<forall>u m. nmap_uuid n u = Some m \<longrightarrow>
        u \<noteq> '''' \<and> ni_Uuid (nm_base m) = u \<and> ni_Funcs (nm_base m) = [])"

definition watch_ok :: "WatchApi \<Rightarrow> bool" where
  "watch_ok w \<longleftrightarrow> reg_ok (wa_fmsg w) \<and> nodes_ok (wa_node w)"

lemma PutNodeDetail_ok: "nodes_ok n \<Longrightarrow> ni_Uuid msg \<noteq> '''' \<Longrightarrow> nodes_ok (PutNodeDetail now msg n)"
  by (auto simp: nodes_ok_def PutNodeDetail_def split: option.splits)

lemma UpHeartbeat_ok: "nodes_ok n \<Longrightarrow> UpHeartbeat now sys n = (b, n') \<Longrightarrow> nodes_ok n'"
  by (fastforce simp: nodes_ok_def UpHeartbeat_def split: option.splits if_split_asm)

lemma ClearNodeExprie_ok: "nodes_ok n \<Longrightarrow> nodes_ok (ClearNodeExprie now n)"
  by (auto simp: nodes_ok_def ClearNodeExprie_def Let_def split: option.splits if_splits)

lemma PutNodeDetail_present: "nmap_uuid (PutNodeDetail now msg n) (ni_Uuid msg) \<noteq> None"
  by (auto simp: PutNodeDetail_def split: option.splits)

text \<open>The catalogue that a list of names gives, one \<open>offer\<close> after the other.\<close>

definition offers :: "string \<Rightarrow> string list \<Rightarrow> catalogue \<times> uint32 \<Rightarrow> catalogue \<times> uint32" where
  "offers uuid names c = fold (offer uuid) (filter (\<lambda>s. s \<noteq> '''') names) c"

lemma offer_keeps: "cat n = Some (i, nodes) \<Longrightarrow>
    \<exists>nodes'. fst (offer uuid m (cat, num)) n = Some (i, nodes') \<and> set nodes \<subseteq> set nodes'"
  by (auto simp: offer_def split: option.splits)

lemma offers_keep: "cat n = Some (i, nodes) \<Longrightarrow>
    \<exists>nodes'. fst (offers uuid names (cat, num)) n = Some (i, nodes') \<and> set nodes \<subseteq> set nodes'"
proof (induction names arbitrary: cat num nodes)
  case (Cons m names)
  obtain cat' num' where o: "offer uuid m (cat, num) = (cat', num')" by fastforce
  from offer_keeps [where cat = cat, OF Cons.prems, of uuid m num] o
  obtain nodes1 where 1: "cat' n = Some (i, nodes1)" "set nodes \<subseteq> set nodes1" by auto
  from Cons.IH [where cat = cat', OF 1(1), of num'] Cons.IH [where cat = cat, OF Cons.prems, of num] 1(2) show ?case
    by (cases "m = ''''") (auto simp: offers_def o)
qed (simp add: offers_def)

lemma offers_Cons: "offers uuid (m # names) c =
    (if m = '''' then offers uuid names c else offers uuid names (offer uuid m c))"
  by (simp add: offers_def)

lemma offer_num: "unat num < 2 ^ 32 - 1 \<Longrightarrow> unat (snd (offer uuid m (cat, num))) \<le> Suc (unat num)"
  for num :: uint32
  by (auto simp: offer_def unat_word_ariths split: option.splits)

lemma room_word: "unat num < 2 ^ 32 - 1 \<Longrightarrow> num < 2 ^ 32 - 1" for num :: uint32
  by (simp add: word_less_nat_alt)

text \<open>What registering a list of apis does, and that it returns.\<close>

lemma register_funcs_refines:
  assumes "reg_ok f" and "uuid \<noteq> ''''" and "unat (fm_num f) + length vs < 2 ^ 32 - 1"
    and "register_funcs e uuid vs f = Some (Ret (ws, g))"
  shows "reg_ok g \<and>
    (catalogue_of g, fm_num g) = offers uuid (map fa_Name vs) (catalogue_of f, fm_num f) \<and>
    length ws = length vs \<and>
    (\<forall>a \<in> set vs. fa_Name a \<noteq> '''' \<longrightarrow>
       (\<exists>i nodes. catalogue_of g (fa_Name a) = Some (i, nodes) \<and> uuid \<in> set nodes \<and>
          a\<lparr>fa_ID := i\<rparr> \<in> set ws))"
  using assms
proof (induction vs arbitrary: f ws)
  case Nil
  then show ?case by (simp add: offers_def)
next
  case (Cons a vs)
  show ?case
  proof (cases "fa_Name a = ''''")
    case True
    with Cons.prems(4) obtain ws' where "register_funcs e uuid vs f = Some (Ret (ws', g))" "ws = a # ws'"
      by (auto simp: put_api.rejected map_go_Ret_iff)
    with Cons.IH [OF Cons.prems(1,2) _ this(1)] Cons.prems(3) True show ?thesis
      by (simp add: offers_Cons) blast
  next
    case False
    from Cons.prems(4) obtain b err h ws' where put: "PutApi e uuid (Some a) f = Some (Ret (Some b, err, h))"
      and tail: "register_funcs e uuid vs h = Some (Ret (ws', g))" "ws = b # ws'"
      by (auto simp: map_go_Ret_iff split: option.splits go.splits)
    have room: "unat (fm_num f) < 2 ^ 32 - 1" using Cons.prems(3) by simp
    note step = put_api.put_refines [OF Cons.prems(1) room_word [OF room] Cons.prems(2) False put]
    from step obtain i nodes where i: "catalogue_of h (fa_Name a) = Some (i, nodes)" "uuid \<in> set nodes"
      "b = a\<lparr>fa_ID := i\<rparr>" by auto
    have offer: "(catalogue_of h, fm_num h) = offer uuid (fa_Name a) (catalogue_of f, fm_num f)"
      using step by blast
    then have "unat (fm_num h) \<le> Suc (unat (fm_num f))"
      using offer_num [OF room, of uuid "fa_Name a" "catalogue_of f"] by (metis snd_conv)
    then have "unat (fm_num h) + length vs < 2 ^ 32 - 1" using Cons.prems(3) by simp
    note IH = Cons.IH [OF _ Cons.prems(2) this tail(1)]
    have rest: "(catalogue_of g, fm_num g) = offers uuid (map fa_Name vs) (catalogue_of h, fm_num h)"
      using IH step by blast
    from offers_keep [where cat = "catalogue_of h", OF i(1), of uuid "map fa_Name vs" "fm_num h"]
    obtain nodes' where "catalogue_of g (fa_Name a) = Some (i, nodes')" "uuid \<in> set nodes'"
      using rest i(2) by (metis fst_conv subsetD)
    then show ?thesis
      using IH step i(3) tail(2) False offer rest by (auto simp: offers_Cons)
  qed
qed

lemma register_funcs_returns:
  assumes "disk_works e f" and "uuid \<noteq> ''''"
  shows "\<exists>ws g. register_funcs e uuid vs f = Some (Ret (ws, g))"
  using assms
proof (induction vs arbitrary: f)
  case (Cons a vs)
  show ?case
  proof (cases "fa_Name a = ''''")
    case True
    with Cons show ?thesis by (fastforce simp: put_api.rejected)
  next
    case False
    from put_api.put_returns [OF Cons.prems False] Cons.IH [OF _ Cons.prems(2)] show ?thesis
      by fastforce
  qed
qed simp

text \<open>An entry whose node list is replaced by a part of it.\<close>

lemma set_nodes_catalogue:
  assumes ok: "reg_ok f" and p: "fm_str f name = Some p" and sub: "distinct ns" "'''' \<notin> set ns"
  defines "g \<equiv> f\<lparr>fm_heap := (fm_heap f)(p := fm_heap f p\<lparr>fd_node := ns\<rparr>)\<rparr>"
  shows "reg_ok g"
    and "catalogue_of g = (catalogue_of f)(name \<mapsto> (fmsg_FuncID (fd_msg (fm_heap f p)), ns))"
proof -
  have heap: "fm_heap g q = (if q = p then fm_heap f p\<lparr>fd_node := ns\<rparr> else fm_heap f q)" for q
    by (simp add: g_def)
  have rest: "fm_new g = fm_new f" "fm_ids g = fm_ids f" "fm_str g = fm_str f" "fm_num g = fm_num f"
    by (simp_all add: g_def)
  have "entry_ok f q \<Longrightarrow> entry_ok g q" for q
    using sub by (cases "q = p") (simp_all add: entry_ok_def rest heap Let_def)
  with ok show "reg_ok g" by (simp add: reg_ok_def rest heap)
  show "catalogue_of g = (catalogue_of f)(name \<mapsto> (fmsg_FuncID (fd_msg (fm_heap f p)), ns))"
  proof
    fix s
    have "fm_str f s = Some p \<Longrightarrow> s = name" using reg_ok_strD [OF ok] p by metis
    then show "catalogue_of g s =
        ((catalogue_of f)(name \<mapsto> (fmsg_FuncID (fd_msg (fm_heap f p)), ns))) s"
      by (cases "fm_str f s") (auto simp: catalogue_of_def GetStr_def rest heap p)
  qed
qed

lemma GetApiConn_entry:
  assumes ok: "watch_ok w" and run: "WatchApi_GetApiConn fid name w = (rsp, w')"
    and p: "fm_ids (wa_fmsg w) (GetFuncID (ga_Func rsp)) = Some p"
  defines "d \<equiv> fm_heap (wa_fmsg w) p"
  defines "live \<equiv> filter (\<lambda>u. nmap_uuid (wa_node w) u \<noteq> None) (fd_node d)"
  shows "ga_List rsp = map (\<lambda>u. nm_base (the (nmap_uuid (wa_node w) u))) live"
    and "wa_node w' = wa_node w" and "reg_ok (wa_fmsg w')"
    and "catalogue_of (wa_fmsg w') =
      (catalogue_of (wa_fmsg w))(fmsg_ApiName (fd_msg d) \<mapsto> (fmsg_FuncID (fd_msg d), live))"
proof -
  let ?f = "wa_fmsg w" and ?n = "wa_node w"
  have reg: "reg_ok ?f" using ok by (simp add: watch_ok_def)
  have entry: "entry_ok ?f p" using reg_ok_idsD [OF reg p] by blast
  then have str: "fm_str ?f (fmsg_ApiName (fd_msg d)) = Some p" and named: "'''' \<notin> set (fd_node d)"
    and dist: "distinct (fd_node d)"
    by (simp_all add: entry_ok_def d_def Let_def)
  have find: "GetNodeByUuid ?n u = map_option nm_base (nmap_uuid ?n u)" if "u \<in> set (fd_node d)" for u
    using that named by (auto simp: GetNodeByUuid_def)
  have ids: "filter (\<lambda>i. GetNodeByUuid ?n i \<noteq> None) (fd_node d) = live"
    unfolding live_def by (rule filter_cong) (simp_all add: find)
  have list: "List.map_filter (GetNodeByUuid ?n) us = map (\<lambda>u. nm_base (the (nmap_uuid ?n u)))
      (filter (\<lambda>u. nmap_uuid ?n u \<noteq> None) us)" if "set us \<subseteq> set (fd_node d)" for us
    using that by (induction us) (auto simp: List.map_filter_def find)
  have func: "ga_Func rsp = (if fid \<noteq> 0 then funcdata_GetMsg (GetIds ?f fid)
      else if name \<noteq> '''' then funcdata_GetMsg (GetStr ?f name) else None)"
    using run by (auto simp: WatchApi_GetApiConn_def Let_def split: option.splits)
  have whole: "(rsp, w') = (\<lparr>ga_Func = ga_Func rsp,
        ga_List = List.map_filter (GetNodeByUuid ?n) (fd_node d)\<rparr>,
      w\<lparr>wa_fmsg := ?f\<lparr>fm_heap := (fm_heap ?f)(p := d\<lparr>fd_node := live\<rparr>)\<rparr>\<rparr>)"
    using run p unfolding WatchApi_GetApiConn_def Let_def func [symmetric] d_def [symmetric] ids [symmetric]
    by (simp only: option.case d_def)
  have res: "ga_List rsp = List.map_filter (GetNodeByUuid ?n) (fd_node d)"
    "w' = w\<lparr>wa_fmsg := ?f\<lparr>fm_heap := (fm_heap ?f)(p := d\<lparr>fd_node := live\<rparr>)\<rparr>\<rparr>"
    using arg_cong [OF whole, of "\<lambda>x. ga_List (fst x)"] arg_cong [OF whole, of snd] by simp_all
  show "ga_List rsp = map (\<lambda>u. nm_base (the (nmap_uuid ?n u))) live"
    unfolding res(1) live_def by (rule list) simp
  show "wa_node w' = wa_node w" by (simp add: res)
  have sub: "distinct live" "'''' \<notin> set live" using dist named by (auto simp: live_def)
  from set_nodes_catalogue [OF reg str sub]
  show "reg_ok (wa_fmsg w')" and "catalogue_of (wa_fmsg w') =
      (catalogue_of ?f)(fmsg_ApiName (fd_msg d) \<mapsto> (fmsg_FuncID (fd_msg d), live))"
    by (simp_all add: res d_def)
qed

lemma GetApiConn_none:
  "WatchApi_GetApiConn fid name w = (rsp, w') \<Longrightarrow>
   fm_ids (wa_fmsg w) (GetFuncID (ga_Func rsp)) = None \<Longrightarrow> w' = w \<and> ga_List rsp = []"
  by (auto simp: WatchApi_GetApiConn_def Let_def split: option.splits)

lemma GetApiConn_ok: "watch_ok w \<Longrightarrow> WatchApi_GetApiConn fid name w = (rsp, w') \<Longrightarrow> watch_ok w'"
  using GetApiConn_entry [of w fid name rsp w'] GetApiConn_none [of fid name w rsp w']
  by (cases "fm_ids (wa_fmsg w) (GetFuncID (ga_Func rsp))") (auto simp: watch_ok_def)

lemma Registered_ok:
  assumes "watch_ok w" and "unat (fm_num (wa_fmsg w)) + length (ni_Funcs req) < 2 ^ 32 - 1"
    and "WatchApi_Registered e now req w = Some (Ret (err, rsp, w'))"
  shows "watch_ok w'"
proof (cases "ni_Uuid req = ''''")
  case False
  with assms(3) obtain vs f where
    "register_funcs e (ni_Uuid req) (ni_Funcs req) (wa_fmsg w) = Some (Ret (vs, f))"
    "w' = w\<lparr>wa_fmsg := f, wa_node := PutNodeDetail now req (wa_node w)\<rparr>"
    by (auto simp: WatchApi_Registered_def map_go_Ret_iff)
  with register_funcs_refines [OF _ False assms(2)] PutNodeDetail_ok [OF _ False] assms(1)
  show ?thesis by (simp add: watch_ok_def)
qed (use assms in \<open>simp add: WatchApi_Registered_def\<close>)

lemma watch_step_ok: "watch_step e w w' \<Longrightarrow> watch_ok w \<Longrightarrow> watch_ok w'"
proof (induction rule: watch_step.induct)
  case (registered now req w err rsp w')
  then show ?case by (blast intro: Registered_ok)
next
  case (heartbeat now sys w err w')
  then show ?case
    by (auto simp: WatchApi_Heartbeats_def watch_ok_def dest: UpHeartbeat_ok split: prod.splits bool.splits)
next
  case (api_conn fid name w rsp w')
  then show ?case by (blast intro: GetApiConn_ok)
next
  case (sweep w now)
  then show ?case by (simp add: watch_ok_def ClearNodeExprie_ok)
next
  case (elect now w req w')
  then show ?case by (auto simp: Elect_def watch_ok_def split: if_splits)
next
  case (notified now sys req w err rsp w')
  then show ?case by (auto simp: ElectNotify_def watch_ok_def split: if_splits option.splits)
qed

interpretation watcher: step_invariant "watch_step e" watch_ok for e
  by unfold_locales (rule watch_step_ok)

lemma new_watch_api_ok: "watch_ok (new_watch_api node now)"
  by (simp add: watch_ok_def new_watch_api_def new_funcmap_ok nodes_ok_def)

lemma Center_step: "watch_step e w w' \<Longrightarrow> \<not> Center w \<Longrightarrow> \<not> Center w'"
  by (induction rule: watch_step.induct)
    (auto simp: Center_def WatchApi_Registered_def WatchApi_Heartbeats_def WatchApi_GetApiConn_def
      Elect_def ElectNotify_def map_go_Ret_iff Let_def split: if_splits prod.splits bool.splits option.splits)

section \<open>Heartbeats over time\<close>

datatype node_event = Beat int SystemStatus | Sweep int

fun run_event :: "node_event \<Rightarrow> nodemap \<Rightarrow> nodemap" where
  "run_event (Beat now sys) n = snd (UpHeartbeat now sys n)"
| "run_event (Sweep now) n = ClearNodeExprie now n"

text \<open>Every sweep comes within the time-out of the last heartbeat of \<open>u\<close>, the first at time \<open>s\<close>.\<close>

fun beats_in_time :: "string \<Rightarrow> int \<Rightarrow> node_event list \<Rightarrow> bool" where
  "beats_in_time u s [] = True"
| "beats_in_time u s (Beat now sys # es) = beats_in_time u (if ss_Uuid sys = u then now else s) es"
| "beats_in_time u s (Sweep now # es) = (now - 4000 \<le> s \<and> beats_in_time u s es)"

lemma run_event_absent: "nmap_uuid n u = None \<Longrightarrow> nmap_uuid (fold run_event es n) u = None"
proof (induction es arbitrary: n)
  case (Cons ev es)
  have "nmap_uuid (run_event ev n) u = None"
    using Cons.prems
    by (cases ev) (auto simp: UpHeartbeat_def ClearNodeExprie_def Let_def split: option.splits)
  with Cons.IH show ?case by simp
qed simp

lemma run_events_present:
  "nmap_uuid n u = Some m \<Longrightarrow> nm_state m \<Longrightarrow>
     (nmap_uuid (fold run_event es n) u \<noteq> None) = beats_in_time u (nm_stamp m) es"
proof (induction u "nm_stamp m" es arbitrary: n m rule: beats_in_time.induct)
  case (2 u now sys es)
  show ?case
  proof (cases "ss_Uuid sys = u")
    case True
    with 2 show ?thesis
      using "2.hyps" [of "m\<lparr>nm_stamp := now, nm_state := True, nm_syst := Some sys\<rparr>"]
      by (simp add: UpHeartbeat_def)
  next
    case False
    then have "nmap_uuid (run_event (Beat now sys) n) u = Some m"
      using 2 by (auto simp: UpHeartbeat_def split: option.splits)
    with 2 False show ?thesis by simp
  qed
next
  case (3 u now es)
  show ?case
  proof (cases "now - 4000 \<le> nm_stamp m")
    case True
    then have "nmap_uuid (ClearNodeExprie now n) u = Some m"
      using 3 by (simp add: ClearNodeExprie_def NodeConnTimeOut_def HeartbeatInterval_def Let_def)
    with 3 True show ?thesis by simp
  next
    case False
    then have "nmap_uuid (ClearNodeExprie now n) u = None"
      using 3 by (simp add: ClearNodeExprie_def NodeConnTimeOut_def HeartbeatInterval_def Let_def)
    with False show ?thesis by (simp add: run_event_absent)
  qed
qed simp

section \<open>Queries after a registration\<close>

lemma catalogue_entry:
  assumes "reg_ok f" and "catalogue_of f name = Some (i, nodes)"
  obtains p where "fm_str f name = Some p" and "fm_ids f i = Some p" and "i \<noteq> 0"
    and "fmsg_FuncID (fd_msg (fm_heap f p)) = i" and "fmsg_ApiName (fd_msg (fm_heap f p)) = name"
    and "fa_ID (fd_api (fm_heap f p)) = i" and "fa_Name (fd_api (fm_heap f p)) = name"
    and "nodes = fd_node (fm_heap f p)"
proof -
  from assms(2) obtain p where p: "fm_str f name = Some p" "i = fmsg_FuncID (fd_msg (fm_heap f p))"
    "nodes = fd_node (fm_heap f p)"
    by (auto simp: catalogue_of_def GetStr_def)
  from reg_ok_strD [OF assms(1) p(1)] have "entry_ok f p" "fmsg_ApiName (fd_msg (fm_heap f p)) = name"
    by simp_all
  then show thesis
    by (intro that [of p]) (auto simp: entry_ok_def Let_def p)
qed

text \<open>Asking for the nodes of an api by name.\<close>

lemma GetApiConn_by_name:
  assumes ok: "watch_ok w" and name: "name \<noteq> ''''"
    and cat: "catalogue_of (wa_fmsg w) name = Some (i, nodes)"
    and run: "WatchApi_GetApiConn 0 name w = (rsp, w')"
  defines "live \<equiv> filter (\<lambda>u. nmap_uuid (wa_node w) u \<noteq> None) nodes"
  shows "map ni_Uuid (ga_List rsp) = live"
    and "catalogue_of (wa_fmsg w') = (catalogue_of (wa_fmsg w))(name \<mapsto> (i, live))"
    and "map_option fmsg_FuncID (ga_Func rsp) = Some i"
proof -
  have reg: "reg_ok (wa_fmsg w)" using ok by (simp add: watch_ok_def)
  from catalogue_entry [OF reg cat] obtain p where p: "fm_str (wa_fmsg w) name = Some p"
    "fm_ids (wa_fmsg w) i = Some p" "fmsg_FuncID (fd_msg (fm_heap (wa_fmsg w) p)) = i"
    "fmsg_ApiName (fd_msg (fm_heap (wa_fmsg w) p)) = name" "nodes = fd_node (fm_heap (wa_fmsg w) p)"
    by metis
  have func: "ga_Func rsp = Some (fd_msg (fm_heap (wa_fmsg w) p))"
    using run name p(1-3)
    by (auto simp: WatchApi_GetApiConn_def GetStr_def funcdata_GetMsg_def GetFuncID_def Let_def)
  then have key: "fm_ids (wa_fmsg w) (GetFuncID (ga_Func rsp)) = Some p"
    using p(2,3) by (simp add: GetFuncID_def)
  note conn = GetApiConn_entry [OF ok run key]
  have "map ni_Uuid (ga_List rsp) = map (\<lambda>u. ni_Uuid (nm_base (the (nmap_uuid (wa_node w) u)))) live"
    unfolding conn(1) p(5) live_def by (simp only: map_map comp_def)
  also have "\<dots> = map (\<lambda>u. u) live"
    using ok by (intro map_cong) (auto simp: live_def watch_ok_def nodes_ok_def)
  finally show "map ni_Uuid (ga_List rsp) = live" by simp
  show "catalogue_of (wa_fmsg w') = (catalogue_of (wa_fmsg w))(name \<mapsto> (i, live))"
    using conn(4) p(3-5) by (simp add: live_def)
  show "map_option fmsg_FuncID (ga_Func rsp) = Some i" using func p(3) by simp
qed

text \<open>A registration that returns, and what it leaves.\<close>

lemma Registered_run:
  assumes ok: "watch_ok w" and "disk_works e (wa_fmsg w)" and uuid: "ni_Uuid req \<noteq> ''''"
    and room: "unat (fm_num (wa_fmsg w)) + length (ni_Funcs req) < 2 ^ 32 - 1"
  obtains rsp w' where "WatchApi_Registered e now req w = Some (Ret (None, rsp, w'))" and "watch_ok w'"
    and "nmap_uuid (wa_node w') (ni_Uuid req) \<noteq> None"
    and "\<forall>a \<in> set (ni_Funcs req). fa_Name a \<noteq> '''' \<longrightarrow>
       (\<exists>i nodes. catalogue_of (wa_fmsg w') (fa_Name a) = Some (i, nodes) \<and> ni_Uuid req \<in> set nodes \<and>
          a\<lparr>fa_ID := i\<rparr> \<in> set (rr_Funcs rsp))"
proof -
  obtain vs f where run: "register_funcs e (ni_Uuid req) (ni_Funcs req) (wa_fmsg w) = Some (Ret (vs, f))"
    using register_funcs_returns [OF assms(2) uuid] by blast
  then obtain rsp w' where reg: "WatchApi_Registered e now req w = Some (Ret (None, rsp, w'))"
    "rr_Funcs rsp = vs" "w' = w\<lparr>wa_fmsg := f, wa_node := PutNodeDetail now req (wa_node w)\<rparr>"
    using uuid by (simp add: WatchApi_Registered_def)
  have "reg_ok (wa_fmsg w)" using ok by (simp add: watch_ok_def)
  from register_funcs_refines [OF this uuid room run] reg Registered_ok [OF ok room reg(1)]
    PutNodeDetail_present [of now req "wa_node w"] that [of rsp w']
  show thesis by simp
qed

section \<open>Properties\<close>

text \<open>C20: A node that registers, with names for its apis, finds every api afterwards, under its name and the
  id it was told, and is itself among the nodes of the api; registering returns normally.\<close>

theorem register_then_query:
  assumes "watch_ok w" and "disk_works e (wa_fmsg w)" and "ni_Uuid req \<noteq> ''''"
    and "unat (fm_num (wa_fmsg w)) + length (ni_Funcs req) < 2 ^ 32 - 1"
    and "a \<in> set (ni_Funcs req)" and "fa_Name a \<noteq> ''''"
  shows "\<exists>rsp w' i api. WatchApi_Registered e now req w = Some (Ret (None, rsp, w')) \<and>
    a\<lparr>fa_ID := i\<rparr> \<in> set (rr_Funcs rsp) \<and>
    gf_Func (WatchApi_GetFuncMsg order i name w') = Some api \<and> fa_ID api = i \<and> fa_Name api = fa_Name a \<and>
    ni_Uuid req \<in> ni_Uuid ` set (ga_List (fst (WatchApi_GetApiConn 0 (fa_Name a) w')))"
proof -
  obtain rsp w' i nodes where reg: "WatchApi_Registered e now req w = Some (Ret (None, rsp, w'))"
    and w': "watch_ok w'" "nmap_uuid (wa_node w') (ni_Uuid req) \<noteq> None"
    and i: "catalogue_of (wa_fmsg w') (fa_Name a) = Some (i, nodes)" "ni_Uuid req \<in> set nodes"
      "a\<lparr>fa_ID := i\<rparr> \<in> set (rr_Funcs rsp)"
    using Registered_run [OF assms(1-4), of now] assms(5,6) by metis
  obtain rsp2 w2 where conn: "WatchApi_GetApiConn 0 (fa_Name a) w' = (rsp2, w2)" by fastforce
  have "ni_Uuid req \<in> set (map ni_Uuid (ga_List rsp2))"
    unfolding GetApiConn_by_name(1) [OF w'(1) assms(6) i(1) conn] using i(2) w'(2) by simp
  moreover from w'(1) have "reg_ok (wa_fmsg w')" by (simp add: watch_ok_def)
  from catalogue_entry [OF this i(1)] obtain p where p: "fm_ids (wa_fmsg w') i = Some p" "i \<noteq> 0"
    "fa_ID (fd_api (fm_heap (wa_fmsg w') p)) = i" "fa_Name (fd_api (fm_heap (wa_fmsg w') p)) = fa_Name a"
    by metis
  then have "gf_Func (WatchApi_GetFuncMsg order i name w') = Some (fd_api (fm_heap (wa_fmsg w') p))"
    by (simp add: WatchApi_GetFuncMsg_def funcdata_GetApi_def GetIds_def)
  ultimately show ?thesis
    using reg i(3) conn p(3,4)
    by (intro exI [of _ rsp] exI [of _ w'] exI [of _ i] exI [of _ "fd_api (fm_heap (wa_fmsg w') p)"]) simp
qed

definition sample_api :: FuncApi where
  "sample_api = FuncApi_zero\<lparr>fa_Name := ''A.B''\<rparr>"

definition sample_node :: NodeInfo where
  "sample_node = NodeInfo_zero\<lparr>ni_Uuid := ''n1'', ni_Host := ''10.0.0.1'', ni_Funcs := [sample_api]\<rparr>"

definition sample_env :: file_env where
  "sample_env = \<lparr>fe_ok = (\<lambda>_. True), fe_order = (\<lambda>_. [])\<rparr>"

theorem register_then_query_witness:
  "\<exists>rsp w' i api. WatchApi_Registered sample_env 5 sample_node (new_watch_api NodeInfo_zero 0) =
      Some (Ret (None, rsp, w')) \<and>
    sample_api\<lparr>fa_ID := i\<rparr> \<in> set (rr_Funcs rsp) \<and>
    gf_Func (WatchApi_GetFuncMsg [] i '''' w') = Some api \<and> fa_ID api = i \<and> fa_Name api = fa_Name sample_api \<and>
    ni_Uuid sample_node \<in> ni_Uuid ` set (ga_List (fst (WatchApi_GetApiConn 0 (fa_Name sample_api) w')))"
  by (rule register_then_query [OF new_watch_api_ok])
    (simp_all add: disk_works_def sample_env_def sample_node_def sample_api_def new_watch_api_def
      new_funcmap_def WATCH_IN_MAX_def)

text \<open>Asking for the nodes of a known api returns its id and exactly its nodes that are still in the table,
  in the order of registration, and forgets the others; no other api is touched.\<close>

lemma api_conn_exact:
  assumes "watch_ok w" and "name \<noteq> ''''" and "catalogue_of (wa_fmsg w) name = Some (i, nodes)"
    and "WatchApi_GetApiConn 0 name w = (rsp, w')"
  shows "map_option fmsg_FuncID (ga_Func rsp) = Some i \<and>
    map ni_Uuid (ga_List rsp) = filter (\<lambda>u. nmap_uuid (wa_node w) u \<noteq> None) nodes \<and>
    catalogue_of (wa_fmsg w') = (catalogue_of (wa_fmsg w))
      (name \<mapsto> (i, filter (\<lambda>u. nmap_uuid (wa_node w) u \<noteq> None) nodes))"
  using GetApiConn_by_name [OF assms] by blast

lemma api_conn_exact_witness:
  "\<exists>w i nodes. watch_ok w \<and> catalogue_of (wa_fmsg w) ''A.B'' = Some (i, nodes) \<and> ''n1'' \<in> set nodes \<and>
    map ni_Uuid (ga_List (fst (WatchApi_GetApiConn 0 ''A.B'' w))) =
      filter (\<lambda>u. nmap_uuid (wa_node w) u \<noteq> None) nodes"
proof -
  have works: "disk_works sample_env (wa_fmsg (new_watch_api NodeInfo_zero 0))"
    and room: "unat (fm_num (wa_fmsg (new_watch_api NodeInfo_zero 0))) + length (ni_Funcs sample_node)
      < 2 ^ 32 - 1"
    and names: "ni_Uuid sample_node \<noteq> ''''" "sample_api \<in> set (ni_Funcs sample_node)"
      "fa_Name sample_api = ''A.B''" "ni_Uuid sample_node = ''n1''"
    by (simp_all add: disk_works_def sample_env_def sample_node_def sample_api_def new_watch_api_def
        new_funcmap_def WATCH_IN_MAX_def)
  obtain w i nodes where w: "watch_ok w" "catalogue_of (wa_fmsg w) ''A.B'' = Some (i, nodes)"
    "''n1'' \<in> set nodes"
    using Registered_run [OF new_watch_api_ok works names(1) room, of 5] names(2-4)
    by (metis list.distinct(1))
  obtain rsp w' where "WatchApi_GetApiConn 0 ''A.B'' w = (rsp, w')" by fastforce
  with api_conn_exact [OF w(1) _ w(2) this] w show ?thesis by auto
qed




definition beat :: "string \<Rightarrow> SystemStatus" where
  "beat u = \<lparr>ss_Uuid = u, ss_CpuRate = 0, ss_MemFree = 0, ss_MemUsed = 0, ss_ConnNum = 0\<rparr>"

definition sample_watcher :: WatchApi where
  "sample_watcher = (new_watch_api NodeInfo_zero 0)\<lparr>wa_node :=
     PutNodeDetail 0 sample_node \<lparr>nmap_name = Map.empty, nmap_uuid = Map.empty\<rparr>\<rparr>"


text \<open>A node that registers again under its uuid from another host keeps its old address: the table is
  left as it is, and queries return the old host.\<close>

lemma moved_node_keeps_old_address:
  assumes "nmap_uuid (wa_node w) (ni_Uuid req) = Some m" and "ni_Host (nm_base m) \<noteq> ni_Host req"
    and "ni_Uuid req \<noteq> ''''" and "WatchApi_Registered e now req w = Some (Ret (err, rsp, w'))"
  shows "err = None \<and> wa_node w' = wa_node w \<and>
    WatchApi_GetNodeMsg (ni_Uuid req) '''' w' = (None, \<lparr>gn_Data = Some (nm_base m), gn_List = []\<rparr>)"
  using assms
  by (auto simp: WatchApi_Registered_def map_go_Ret_iff PutNodeDetail_def WatchApi_GetNodeMsg_def
      GetNodeByUuid_def)

lemma moved_node_keeps_old_address_witness:
  "\<exists>rsp w'. WatchApi_Registered sample_env 9 (NodeInfo_zero\<lparr>ni_Uuid := ''n1'', ni_Host := ''10.0.0.2''\<rparr>)
       sample_watcher = Some (Ret (None, rsp, w')) \<and>
    WatchApi_GetNodeMsg ''n1'' '''' w' =
      (None, \<lparr>gn_Data = Some (sample_node\<lparr>ni_Funcs := []\<rparr>), gn_List = []\<rparr>)"
proof -
  let ?m = "\<lparr>nm_base = sample_node\<lparr>ni_Funcs := []\<rparr>, nm_syst = None, nm_stamp = 0, nm_state = True\<rparr>"
  let ?req = "NodeInfo_zero\<lparr>ni_Uuid := ''n1'', ni_Host := ''10.0.0.2''\<rparr>"
  have m: "nmap_uuid (wa_node sample_watcher) (ni_Uuid ?req) = Some ?m"
    by (simp add: sample_watcher_def PutNodeDetail_def sample_node_def)
  obtain rsp w' where run: "WatchApi_Registered sample_env 9 ?req sample_watcher = Some (Ret (None, rsp, w'))"
    by (simp add: WatchApi_Registered_def NodeInfo_zero_def)
  from moved_node_keeps_old_address [OF m _ _ run] run show ?thesis
    by (auto simp: sample_node_def)
qed

text \<open>Asking for nodes by name never finds any: nothing ever fills the index of names.\<close>

lemma nodes_by_name_empty:
  assumes "reachable e (new_watch_api node now) w"
  shows "gn_List (snd (WatchApi_GetNodeMsg '''' name w)) = []"
proof -
  have "nmap_name (wa_node w) = Map.empty"
    using watcher.reachable [OF assms new_watch_api_ok] by (simp add: watch_ok_def nodes_ok_def)
  then show ?thesis
    by (simp add: WatchApi_GetNodeMsg_def GetNodeByName_def GetUuidByName_def List.map_filter_def)
qed

lemma nodes_by_name_empty_witness:
  "gn_List (snd (WatchApi_GetNodeMsg '''' ''shop'' (new_watch_api sample_node 0))) = []"
  by (rule nodes_by_name_empty [of sample_env sample_node 0]) simp

interpretation no_centre: step_invariant "watch_step e" "\<lambda>w. \<not> Center w" for e
  by unfold_locales (auto dest: Center_step)

text \<open>C35: An election never ends: once a watcher has started one, or has accepted another's, it is not the
  centre again, whatever happens later.\<close>

theorem election_has_no_winner:
  assumes "Elect now w = (Some r, w1) \<or> ElectNotify now sys req w = Ret (None, rsp, w1)"
    and "reachable e w1 w2"
  shows "\<not> Center w2"
proof -
  have "\<not> Center w1"
    using assms(1) by (auto simp: Elect_def ElectNotify_def Center_def split: if_splits option.splits)
  with no_centre.reachable assms(2) show ?thesis by blast
qed

theorem election_has_no_winner_witness:
  "Center (new_watch_api sample_node 0) \<and> \<not> Center (snd (Elect 5 (new_watch_api sample_node 0)))"
proof -
  obtain r w1 where run: "Elect 5 (new_watch_api sample_node 0) = (Some r, w1)"
    by (simp add: Elect_def new_watch_api_def)
  from election_has_no_winner [OF disjI1 [OF run] rtranclp.rtrancl_refl] run show ?thesis
    by (simp add: new_watch_api_def Center_def)
qed

end
