(* ===== verification/Conns.thy ===== *)
theory Conns
  imports Service Transport
begin

text \<open>
  The state of a node of package rpc (\<open>NodeDetail\<close> of node.go) and its connections (conns.go, the
  dialling functions of tcp.go and udp.go, the table of connections of fmsg.go): opening, testing,
  refreshing and closing a connection, the periodic check, and the cache of connections by node.

  Connections are shared by pointers (the table \<open>ser\<close>, the watchers, the lists that a call works
  through), so they live in a store, and so do the entries of the function table. Everything the
  network decides is an environment: the outcome of the \<open>k\<close>-th operation (a dial, a write, a ping),
  of the \<open>k\<close>-th wait for an answer, of the \<open>k\<close>-th post, and the clock. Sockets are numbered; the
  state records what was written to which socket, the read loops that were started and the
  connections that are checked periodically.
\<close>

section \<open>State\<close>

datatype ConnType = ConnUnset | ConnWithTCP | ConnWithUDP | ConnWithHTTP

record NodeConn =
  nc_info :: NodeInfo
  nc_tconn :: "nat option"
  nc_uconn :: "nat option"
  nc_types :: ConnType
  nc_wrong :: bool
  nc_stamp :: int
  nc_rc :: wait_table

record rpc_funcdata =
  rd_msg :: FuncMsg
  rd_one :: bool
  rd_node :: "string list"

record rpc_WatchNode =
  wt_uuid :: string
  wt_count :: uint32
  wt_procid :: uint64
  wt_config :: "NodeInfo list"
  wt_master :: "nat option"
  wt_slaves :: "nat list"

datatype wait_result = CtxDone error | Body "byte list" | ErrChan error

record net_env =
  ne_err :: "nat \<Rightarrow> error option"
  ne_wait :: "nat \<Rightarrow> wait_result"
  ne_post :: "nat \<Rightarrow> error + http_response"
  ne_now :: "nat \<Rightarrow> int"

record NodeDetail = NodeBase +
  nd_heart :: int
  nd_reqnum :: uint32
  nd_ids :: "uint32 \<rightharpoonup> nat"
  nd_str :: "string \<rightharpoonup> nat"
  nd_ser :: "string \<rightharpoonup> nat"
  nd_data :: "nat \<Rightarrow> rpc_funcdata"
  nd_datas :: nat
  nd_conn :: "nat \<Rightarrow> NodeConn"
  nd_conns :: nat
  nd_wser :: rpc_WatchNode
  nd_tcpreg :: "byte list list"
  nd_udpreg :: "byte list list"
  nd_checks :: "nat list"
  nd_ops :: nat
  nd_sock :: nat
  nd_sent :: "(nat \<times> byte list) list"
  nd_reads :: "(nat \<times> ConnType) list"

text \<open>Assigning to fields through a pointer to a connection.\<close>

definition upd_conn :: "nat \<Rightarrow> (NodeConn \<Rightarrow> NodeConn) \<Rightarrow> NodeDetail \<Rightarrow> NodeDetail" where
  "upd_conn p h n = n\<lparr>nd_conn := (nd_conn n)(p := h (nd_conn n p))\<rparr>"

abbreviation conn_uuid :: "NodeDetail \<Rightarrow> nat \<Rightarrow> string" where
  "conn_uuid n p \<equiv> ni_Uuid (nc_info (nd_conn n p))"

section \<open>Sockets\<close>

definition net_op :: "net_env \<Rightarrow> NodeDetail \<Rightarrow> error option \<times> NodeDetail" where
  "net_op e n = (ne_err e (nd_ops n), n\<lparr>nd_ops := Suc (nd_ops n)\<rparr>)"

definition dial :: "net_env \<Rightarrow> NodeDetail \<Rightarrow> (nat option \<times> error option) \<times> NodeDetail" where
  "dial e n =
     (case net_op e n of
        (Some err, n) \<Rightarrow> ((None, Some err), n)
      | (None, n) \<Rightarrow> ((Some (nd_sock n), None), n\<lparr>nd_sock := Suc (nd_sock n)\<rparr>))"

text \<open>A \<open>Write\<close> on a nil connection is an error (\<open>EINVAL\<close>), not a panic.\<close>

definition sock_write :: "net_env \<Rightarrow> nat option \<Rightarrow> byte list \<Rightarrow> NodeDetail \<Rightarrow> error option \<times> NodeDetail" where
  "sock_write e s row n =
     (case s of
        None \<Rightarrow> (Some ''invalid argument'', n)
      | Some k \<Rightarrow>
          (case net_op e n of
             (Some err, n) \<Rightarrow> (Some err, n)
           | (None, n) \<Rightarrow> (None, n\<lparr>nd_sent := nd_sent n @ [(k, row)]\<rparr>)))"

text \<open>The loops that write frames and leave at the first failure.\<close>

fun write_rows :: "net_env \<Rightarrow> nat option \<Rightarrow> byte list list \<Rightarrow> NodeDetail \<Rightarrow> error option \<times> NodeDetail" where
  "write_rows e s [] n = (None, n)"
| "write_rows e s (row # rows) n =
     (case sock_write e s row n of
        (Some err, n) \<Rightarrow> (Some err, n)
      | (None, n) \<Rightarrow> write_rows e s rows n)"

text \<open>
  \<open>DialTCP\<close> and \<open>DialUDP\<close> introduce the node with its registration frames; a failed write closes the
  socket, the loop goes on, and the last outcome is returned.
\<close>

fun write_all :: "net_env \<Rightarrow> nat option \<Rightarrow> byte list list \<Rightarrow> error option \<Rightarrow> NodeDetail \<Rightarrow> error option \<times> NodeDetail"
where
  "write_all e s [] err n = (err, n)"
| "write_all e s (row # rows) err n =
     (case sock_write e s row n of (err, n) \<Rightarrow> write_all e s rows err n)"

definition DialTCP :: "net_env \<Rightarrow> NodeDetail \<Rightarrow> (nat option \<times> error option) \<times> NodeDetail" where
  "DialTCP e n =
     (case dial e n of
        ((conn, Some err), n) \<Rightarrow> ((conn, Some err), n)
      | ((conn, None), n) \<Rightarrow>
          (case write_all e conn (nd_tcpreg n) None n of (err, n) \<Rightarrow> ((conn, err), n)))"

definition DialUDP :: "net_env \<Rightarrow> NodeDetail \<Rightarrow> (nat option \<times> error option) \<times> NodeDetail" where
  "DialUDP e n =
     (case dial e n of
        ((conn, Some err), n) \<Rightarrow> ((conn, Some err), n)
      | ((conn, None), n) \<Rightarrow>
          (case write_all e conn (nd_udpreg n) None n of (err, n) \<Rightarrow> ((conn, err), n)))"

definition TcpDialTest :: "net_env \<Rightarrow> NodeDetail \<Rightarrow> error option \<times> NodeDetail" where
  "TcpDialTest e n =
     (case dial e n of
        ((conn, Some err), n) \<Rightarrow> (Some err, n)
      | ((conn, None), n) \<Rightarrow> sock_write e conn (PingBytes tcpsplit) n)"

definition UdpDialTest :: "net_env \<Rightarrow> NodeDetail \<Rightarrow> error option \<times> NodeDetail" where
  "UdpDialTest e n =
     (case dial e n of
        ((conn, Some err), n) \<Rightarrow> (Some err, n)
      | ((conn, None), n) \<Rightarrow> sock_write e conn (PingBytes udpsplit) n)"

section \<open>Testing a connection\<close>

text \<open>A failed ping is followed by a new socket, for which nobody starts a read loop.\<close>

definition TestTcpConn :: "net_env \<Rightarrow> nat \<Rightarrow> NodeDetail \<Rightarrow> error option \<times> NodeDetail" where
  "TestTcpConn e p n =
     (if ni_Tport (nc_info (nd_conn n p)) \<noteq> 0 then
        (case (if nc_tconn (nd_conn n p) = None then (Some [], n)
               else sock_write e (nc_tconn (nd_conn n p)) (PingBytes tcpsplit) n) of
           (None, n) \<Rightarrow> (None, n)
         | (Some _, n) \<Rightarrow>
             (case dial e n of
                ((s, err), n) \<Rightarrow>
                  let n = upd_conn p (\<lambda>c. c\<lparr>nc_tconn := s\<rparr>) n
                  in if err \<noteq> None then (err, n) else sock_write e s (PingBytes tcpsplit) n))
      else (Some ''this node not use tcp'', n))"

definition TestUdpConn :: "net_env \<Rightarrow> nat \<Rightarrow> NodeDetail \<Rightarrow> error option \<times> NodeDetail" where
  "TestUdpConn e p n =
     (if ni_Uport (nc_info (nd_conn n p)) \<noteq> 0 then
        (case (if nc_uconn (nd_conn n p) = None then (Some [], n)
               else sock_write e (nc_uconn (nd_conn n p)) (PingBytes udpsplit) n) of
           (None, n) \<Rightarrow> (None, n)
         | (Some _, n) \<Rightarrow>
             (case dial e n of
                ((s, err), n) \<Rightarrow>
                  let n = upd_conn p (\<lambda>c. c\<lparr>nc_uconn := s\<rparr>) n
                  in if err \<noteq> None then (err, n) else sock_write e s (PingBytes udpsplit) n))
      else (Some ''this node not use udp'', n))"

definition HttpPingTest :: "net_env \<Rightarrow> NodeDetail \<Rightarrow> error option \<times> NodeDetail" where
  "HttpPingTest e n = net_op e n"

definition TestConn :: "net_env \<Rightarrow> nat option \<Rightarrow> NodeDetail \<Rightarrow> error option \<times> NodeDetail" where
  "TestConn e c n =
     (case c of
        None \<Rightarrow> (Some ''connection was null'', n)
      | Some p \<Rightarrow>
          (case nc_types (nd_conn n p) of
             ConnWithTCP \<Rightarrow> TestTcpConn e p n
           | ConnWithUDP \<Rightarrow> TestUdpConn e p n
           | ConnWithHTTP \<Rightarrow> HttpPingTest e n
           | ConnUnset \<Rightarrow> (Some ''no tcp or udp connection'', n)))"

text \<open>\<open>Close\<close> forgets the callers that wait; the sockets are the operating system's.\<close>

definition Close :: "nat \<Rightarrow> NodeDetail \<Rightarrow> NodeDetail" where
  "Close p n = upd_conn p (\<lambda>c. c\<lparr>nc_rc := Map.empty\<rparr>) n"

text \<open>\<open>go nc.ReadRespTCP()\<close> and \<open>go nc.ReadRespUDP()\<close>: the loops themselves are in theory \<open>Transport\<close>.\<close>

definition read_loop :: "nat \<Rightarrow> ConnType \<Rightarrow> NodeDetail \<Rightarrow> NodeDetail" where
  "read_loop p t n = n\<lparr>nd_reads := nd_reads n @ [(p, t)]\<rparr>"

definition refresh_tcp :: "net_env \<Rightarrow> nat \<Rightarrow> NodeDetail \<Rightarrow> error option \<times> NodeDetail" where
  "refresh_tcp e p n =
     (case DialTCP e n of
        ((s, err), n) \<Rightarrow>
          let n = upd_conn p (\<lambda>c. c\<lparr>nc_tconn := s\<rparr>) n
          in if err \<noteq> None then (err, n)
             else
               (case TestTcpConn e p n of
                  (Some err, n) \<Rightarrow> (Some err, n)
                | (None, n) \<Rightarrow>
                    (None, read_loop p ConnWithTCP (upd_conn p (\<lambda>c. c\<lparr>nc_types := ConnWithTCP\<rparr>) n))))"

definition refresh_udp :: "net_env \<Rightarrow> nat \<Rightarrow> NodeDetail \<Rightarrow> error option \<times> NodeDetail" where
  "refresh_udp e p n =
     (case DialUDP e n of
        ((s, err), n) \<Rightarrow>
          let n = upd_conn p (\<lambda>c. c\<lparr>nc_uconn := s\<rparr>) n
          in if err \<noteq> None then (err, n)
             else
               (case TestUdpConn e p n of
                  (Some err, n) \<Rightarrow> (Some err, n)
                | (None, n) \<Rightarrow>
                    (None, read_loop p ConnWithUDP (upd_conn p (\<lambda>c. c\<lparr>nc_types := ConnWithUDP\<rparr>) n))))"

definition RefreshConn :: "net_env \<Rightarrow> nat \<Rightarrow> NodeDetail \<Rightarrow> error option \<times> NodeDetail" where
  "RefreshConn e p n =
     (case (if ni_Tport (nc_info (nd_conn n p)) \<noteq> 0 then refresh_tcp e p n else (None, n)) of
        (Some err, n) \<Rightarrow> (Some err, n)
      | (None, n) \<Rightarrow>
          if ni_Uport (nc_info (nd_conn n p)) \<noteq> 0 then refresh_udp e p n
          else if ni_Hport (nc_info (nd_conn n p)) \<noteq> 0 then
            (case HttpPingTest e n of
               (None, n) \<Rightarrow> (None, upd_conn p (\<lambda>c. c\<lparr>nc_types := ConnWithHTTP\<rparr>) n)
             | (Some err, n) \<Rightarrow> (None, n))
          else (None, n))"

text \<open>
  The boolean function that \<open>TimerCheck\<close> hands to the timer; \<open>True\<close> keeps it running. The case of an
  HTTP connection pings the node's own host.
\<close>

definition timer_check :: "net_env \<Rightarrow> nat \<Rightarrow> NodeDetail \<Rightarrow> bool \<times> NodeDetail" where
  "timer_check e p n =
     (if \<not> nc_wrong (nd_conn n p) then (False, n)
      else
        let (stop, n) =
          (case nc_types (nd_conn n p) of
             ConnWithTCP \<Rightarrow>
               (case TestTcpConn e p n of
                  (None, n) \<Rightarrow> (False, n)
                | (Some _, n) \<Rightarrow> (False, snd (RefreshConn e p n)))
           | ConnWithUDP \<Rightarrow>
               (case TestUdpConn e p n of
                  (None, n) \<Rightarrow> (False, n)
                | (Some _, n) \<Rightarrow> (False, snd (RefreshConn e p n)))
           | ConnWithHTTP \<Rightarrow>
               (case HttpPingTest e n of
                  (None, n) \<Rightarrow> (False, n)
                | (Some _, n) \<Rightarrow> (False, snd (RefreshConn e p n)))
           | ConnUnset \<Rightarrow>
               (case RefreshConn e p n of (err, n) \<Rightarrow> (err \<noteq> None, n)))
        in if stop then (False, n)
           else if \<not> nc_wrong (nd_conn n p) then (False, n)
           else
             let stamp = ne_now e (nd_ops n) - 10000
             in (True, upd_conn p (\<lambda>c. c\<lparr>nc_rc := (\<lambda>num. case nc_rc c num of
                  None \<Rightarrow> None | Some v \<Rightarrow> if ch_stamp v < stamp then None else Some v)\<rparr>) n))"

definition TimerCheck :: "nat \<Rightarrow> NodeDetail \<Rightarrow> NodeDetail" where
  "TimerCheck p n = n\<lparr>nd_checks := nd_checks n @ [p]\<rparr>"

section \<open>The table of connections\<close>

definition PutConn :: "net_env \<Rightarrow> nat \<Rightarrow> NodeDetail \<Rightarrow> NodeDetail" where
  "PutConn e p n =
     (case nd_ser n (conn_uuid n p) of
        None \<Rightarrow> n\<lparr>nd_ser := (nd_ser n)(conn_uuid n p \<mapsto> p)\<rparr>
      | Some q \<Rightarrow>
          (case TestConn e (Some q) n of
             (None, n) \<Rightarrow> n
           | (Some _, n) \<Rightarrow>
               let n = Close q n in n\<lparr>nd_ser := (nd_ser n)(conn_uuid n p \<mapsto> p)\<rparr>))"

definition DelConn :: "string \<Rightarrow> NodeDetail \<Rightarrow> NodeDetail" where
  "DelConn uuid n = n\<lparr>nd_ser := (nd_ser n)(uuid := None)\<rparr>"

definition ClearConn :: "int \<Rightarrow> NodeDetail \<Rightarrow> NodeDetail" where
  "ClearConn now n =
     (let limit = now - 10000
      in n\<lparr>nd_ser := (\<lambda>k. case nd_ser n k of
             None \<Rightarrow> None
           | Some p \<Rightarrow>
               if nc_wrong (nd_conn n p) \<or> nc_stamp (nd_conn n p) < limit then None else Some p)\<rparr>)"

definition GetNodeConn :: "NodeDetail \<Rightarrow> string \<Rightarrow> nat option" where
  "GetNodeConn n uuid = nd_ser n uuid"

definition RangeConn :: "NodeDetail \<Rightarrow> string list \<Rightarrow> nat list" where
  "RangeConn n ks = List.map_filter (nd_ser n) ks"

text \<open>A fresh connection to a node, as \<open>NodeBaseToConn\<close> and the listeners make it.\<close>

definition fresh_conn :: "NodeInfo \<Rightarrow> NodeConn" where
  "fresh_conn info = \<lparr>nc_info = info, nc_tconn = None, nc_uconn = None, nc_types = ConnUnset,
     nc_wrong = False, nc_stamp = 0, nc_rc = Map.empty\<rparr>"

definition make_conn :: "net_env \<Rightarrow> NodeInfo \<Rightarrow> NodeDetail \<Rightarrow> (nat option \<times> error option) \<times> NodeDetail" where
  "make_conn e node n =
     (let p = nd_conns n; n = n\<lparr>nd_conn := (nd_conn n)(p := fresh_conn node), nd_conns := Suc p\<rparr>
      in case RefreshConn e p n of
           (Some err, n) \<Rightarrow> ((Some p, Some err), n)
         | (None, n) \<Rightarrow> ((Some p, None), PutConn e p (TimerCheck p n)))"

definition NodeBaseToConn :: "net_env \<Rightarrow> NodeInfo \<Rightarrow> NodeDetail \<Rightarrow> (nat option \<times> error option) \<times> NodeDetail" where
  "NodeBaseToConn e node n =
     (case GetNodeConn n (ni_Uuid node) of
        None \<Rightarrow> make_conn e node n
      | Some q \<Rightarrow>
          if \<not> nc_wrong (nd_conn n q) \<and> ni_Host (nc_info (nd_conn n q)) \<noteq> ni_Host node
          then ((None, Some ''same uuid but host not same''), n)
          else
            (case TestConn e (Some q) n of
               (None, n) \<Rightarrow> ((Some q, None), upd_conn q (\<lambda>c. c\<lparr>nc_wrong := False\<rparr>) n)
             | (Some _, n) \<Rightarrow>
                 make_conn e node
                   (DelConn (ni_Uuid node) (Close q (upd_conn q (\<lambda>c. c\<lparr>nc_wrong := True\<rparr>) n)))))"

section \<open>What network operations leave alone\<close>

text \<open>
  Most operations change sockets and the state of a connection, but neither the tables nor whom a
  connection belongs to. This relation is a preorder, and every operation below is in it.
\<close>

definition keeps :: "NodeDetail \<Rightarrow> NodeDetail \<Rightarrow> bool" where
  "keeps n n' \<longleftrightarrow> nd_ser n' = nd_ser n \<and> nd_conns n' = nd_conns n \<and>
     nd_ids n' = nd_ids n \<and> nd_str n' = nd_str n \<and> nd_data n' = nd_data n \<and> nd_datas n' = nd_datas n \<and>
     nd_info n' = nd_info n \<and> nd_funcs n' = nd_funcs n \<and>
     wt_master (nd_wser n') = wt_master (nd_wser n) \<and> wt_slaves (nd_wser n') = wt_slaves (nd_wser n) \<and>
     (\<forall>p. nc_info (nd_conn n' p) = nc_info (nd_conn n p) \<and> nc_stamp (nd_conn n' p) = nc_stamp (nd_conn n p))"

named_theorems keeps_intros \<open>operations that keep the tables of a node\<close>

lemma keeps_refl [simp, keeps_intros]: "keeps n n"
  by (simp add: keeps_def)

lemma keeps_trans: "keeps n n' \<Longrightarrow> keeps n' n'' \<Longrightarrow> keeps n n''"
  by (simp add: keeps_def)

lemma upd_conn_keeps [keeps_intros]:
  "(\<And>c. nc_info (h c) = nc_info c \<and> nc_stamp (h c) = nc_stamp c) \<Longrightarrow> keeps n (upd_conn p h n)"
  by (simp add: keeps_def upd_conn_def)

lemma net_op_keeps: "net_op e n = (r, n') \<Longrightarrow> keeps n n'"
  by (auto simp: net_op_def keeps_def)

lemma dial_keeps: "dial e n = (r, n') \<Longrightarrow> keeps n n'"
  by (auto simp: dial_def net_op_def keeps_def split: option.splits)

lemma sock_write_keeps: "sock_write e s row n = (r, n') \<Longrightarrow> keeps n n'"
  by (auto simp: sock_write_def net_op_def keeps_def split: option.splits)

lemma write_rows_keeps: "write_rows e s rows n = (r, n') \<Longrightarrow> keeps n n'"
proof (induction e s rows n arbitrary: r n' rule: write_rows.induct)
  case (2 e s row rows n)
  then show ?case
    by (cases "sock_write e s row n") (auto split: option.splits dest: sock_write_keeps intro: keeps_trans)
qed simp

text \<open>The frames that a successful loop has written to its socket.\<close>

lemma write_rows_sent: "write_rows e (Some k) rows n = (None, n') \<Longrightarrow> nd_sent n' = nd_sent n @ map (Pair k) rows"
proof (induction rows arbitrary: n)
  case (Cons row rows)
  then obtain n1 where 1: "sock_write e (Some k) row n = (None, n1)" "write_rows e (Some k) rows n1 = (None, n')"
    by (cases "sock_write e (Some k) row n") (auto split: option.splits)
  then have "nd_sent n1 = nd_sent n @ [(k, row)]"
    by (auto simp: sock_write_def net_op_def split: option.splits)
  with Cons.IH [OF 1(2)] show ?case by simp
qed simp

lemma write_rows_works:
  "(\<And>k. ne_err e k = None) \<Longrightarrow> \<exists>n'. write_rows e (Some k) rows n = (None, n')"
  by (induction rows arbitrary: n) (simp_all add: sock_write_def net_op_def)

lemma write_all_keeps: "write_all e s rows err n = (r, n') \<Longrightarrow> keeps n n'"
proof (induction e s rows err n arbitrary: r n' rule: write_all.induct)
  case (2 e s row rows err n)
  then show ?case
    by (cases "sock_write e s row n") (auto dest: sock_write_keeps intro: keeps_trans)
qed simp

lemma DialTCP_keeps: "DialTCP e n = (r, n') \<Longrightarrow> keeps n n'"
  by (auto simp: DialTCP_def split: prod.splits option.splits
      dest!: dial_keeps write_all_keeps intro: keeps_trans)

lemma DialUDP_keeps: "DialUDP e n = (r, n') \<Longrightarrow> keeps n n'"
  by (auto simp: DialUDP_def split: prod.splits option.splits
      dest!: dial_keeps write_all_keeps intro: keeps_trans)

lemma keeps_upd_trans:
  "keeps n n' \<Longrightarrow> (\<And>c. nc_info (h c) = nc_info c \<and> nc_stamp (h c) = nc_stamp c) \<Longrightarrow> keeps n (upd_conn p h n')"
  by (rule keeps_trans [OF _ upd_conn_keeps])

lemma TestTcpConn_keeps: "TestTcpConn e p n = (r, n') \<Longrightarrow> keeps n n'"
proof (cases "ni_Tport (nc_info (nd_conn n p)) = 0")
  case False
  assume t: "TestTcpConn e p n = (r, n')"
  obtain r1 n1 where 1: "(if nc_tconn (nd_conn n p) = None then (Some [], n)
      else sock_write e (nc_tconn (nd_conn n p)) (PingBytes tcpsplit) n) = (r1, n1)" by fastforce
  obtain s err n2 where 2: "dial e n1 = ((s, err), n2)" by (metis surj_pair)
  from 1 have "keeps n n1" by (auto split: if_splits dest: sock_write_keeps)
  moreover have "keeps n n2" by (rule keeps_trans [OF \<open>keeps n n1\<close> dial_keeps [OF 2]])
  then have "keeps n (upd_conn p (\<lambda>c. c\<lparr>nc_tconn := s\<rparr>) n2)" by (rule keeps_upd_trans) simp
  ultimately show ?thesis
    using t False 1 2
    by (auto simp: TestTcpConn_def Let_def split: option.splits if_splits
        dest!: sock_write_keeps dest: keeps_trans)
qed (simp add: TestTcpConn_def)

lemma TestUdpConn_keeps: "TestUdpConn e p n = (r, n') \<Longrightarrow> keeps n n'"
proof (cases "ni_Uport (nc_info (nd_conn n p)) = 0")
  case False
  assume t: "TestUdpConn e p n = (r, n')"
  obtain r1 n1 where 1: "(if nc_uconn (nd_conn n p) = None then (Some [], n)
      else sock_write e (nc_uconn (nd_conn n p)) (PingBytes udpsplit) n) = (r1, n1)" by fastforce
  obtain s err n2 where 2: "dial e n1 = ((s, err), n2)" by (metis surj_pair)
  from 1 have "keeps n n1" by (auto split: if_splits dest: sock_write_keeps)
  moreover have "keeps n n2" by (rule keeps_trans [OF \<open>keeps n n1\<close> dial_keeps [OF 2]])
  then have "keeps n (upd_conn p (\<lambda>c. c\<lparr>nc_uconn := s\<rparr>) n2)" by (rule keeps_upd_trans) simp
  ultimately show ?thesis
    using t False 1 2
    by (auto simp: TestUdpConn_def Let_def split: option.splits if_splits
        dest!: sock_write_keeps dest: keeps_trans)
qed (simp add: TestUdpConn_def)

lemma TestConn_keeps: "TestConn e c n = (r, n') \<Longrightarrow> keeps n n'"
  by (auto simp: TestConn_def HttpPingTest_def split: option.splits ConnType.splits
      dest: TestTcpConn_keeps TestUdpConn_keeps net_op_keeps)

lemma Close_keeps: "keeps n n' \<Longrightarrow> keeps n (Close p n')"
  unfolding Close_def by (rule keeps_upd_trans) simp_all

lemma read_loop_keeps: "keeps n n' \<Longrightarrow> keeps n (read_loop p t n')"
  by (simp add: read_loop_def keeps_def)

lemma refresh_tcp_keeps: "refresh_tcp e p n = (r, n') \<Longrightarrow> keeps n n'"
proof -
  assume t: "refresh_tcp e p n = (r, n')"
  obtain s err n2 where 2: "DialTCP e n = ((s, err), n2)" by (metis surj_pair)
  obtain r3 n3 where 3: "TestTcpConn e p (upd_conn p (\<lambda>c. c\<lparr>nc_tconn := s\<rparr>) n2) = (r3, n3)" by fastforce
  have a: "keeps n (upd_conn p (\<lambda>c. c\<lparr>nc_tconn := s\<rparr>) n2)"
    by (rule keeps_upd_trans [OF DialTCP_keeps [OF 2]]) simp
  have b: "keeps n n3" by (rule keeps_trans [OF a TestTcpConn_keeps [OF 3]])
  have "keeps n (read_loop p ConnWithTCP (upd_conn p (\<lambda>c. c\<lparr>nc_types := ConnWithTCP\<rparr>) n3))"
    by (rule read_loop_keeps, rule keeps_upd_trans [OF b]) simp
  with t 2 3 a b show ?thesis
    by (auto simp: refresh_tcp_def Let_def split: option.splits if_splits)
qed

lemma refresh_udp_keeps: "refresh_udp e p n = (r, n') \<Longrightarrow> keeps n n'"
proof -
  assume t: "refresh_udp e p n = (r, n')"
  obtain s err n2 where 2: "DialUDP e n = ((s, err), n2)" by (metis surj_pair)
  obtain r3 n3 where 3: "TestUdpConn e p (upd_conn p (\<lambda>c. c\<lparr>nc_uconn := s\<rparr>) n2) = (r3, n3)" by fastforce
  have a: "keeps n (upd_conn p (\<lambda>c. c\<lparr>nc_uconn := s\<rparr>) n2)"
    by (rule keeps_upd_trans [OF DialUDP_keeps [OF 2]]) simp
  have b: "keeps n n3" by (rule keeps_trans [OF a TestUdpConn_keeps [OF 3]])
  have "keeps n (read_loop p ConnWithUDP (upd_conn p (\<lambda>c. c\<lparr>nc_types := ConnWithUDP\<rparr>) n3))"
    by (rule read_loop_keeps, rule keeps_upd_trans [OF b]) simp
  with t 2 3 a b show ?thesis
    by (auto simp: refresh_udp_def Let_def split: option.splits if_splits)
qed

lemma RefreshConn_keeps: "RefreshConn e p n = (r, n') \<Longrightarrow> keeps n n'"
proof -
  assume t: "RefreshConn e p n = (r, n')"
  obtain r1 n1 where 1: "(if ni_Tport (nc_info (nd_conn n p)) \<noteq> 0 then refresh_tcp e p n else (None, n)) = (r1, n1)"
    by fastforce
  then have k: "keeps n n1" by (auto split: if_splits dest: refresh_tcp_keeps)
  obtain r4 n4 where 4: "HttpPingTest e n1 = (r4, n4)" by fastforce
  have d: "keeps n n4" by (rule keeps_trans [OF k net_op_keeps [OF 4 [unfolded HttpPingTest_def]]])
  have f: "keeps n (upd_conn p (\<lambda>c. c\<lparr>nc_types := ConnWithHTTP\<rparr>) n4)"
    by (rule keeps_upd_trans [OF d]) simp
  show ?thesis
    using t k d f keeps_trans [OF k refresh_udp_keeps] unfolding RefreshConn_def 1
    by (auto simp: 4 split: option.splits if_splits)
qed

section \<open>The table of connections\<close>

text \<open>
  In the table every connection is filed under the uuid of its node, and no connection ever gets a
  time stamp: the field \<open>stamp\<close> keeps its zero value.
\<close>

definition conns_ok :: "NodeDetail \<Rightarrow> bool" where
  "conns_ok n \<longleftrightarrow> (\<forall>u p. nd_ser n u = Some p \<longrightarrow> p < nd_conns n \<and> conn_uuid n p = u) \<and>
     (\<forall>p < nd_conns n. nc_stamp (nd_conn n p) = 0)"

lemma conns_okD: "conns_ok n \<Longrightarrow> nd_ser n u = Some p \<Longrightarrow> p < nd_conns n \<and> conn_uuid n p = u \<and> nc_stamp (nd_conn n p) = 0"
  by (simp add: conns_ok_def)

lemma keeps_conns_ok: "keeps n n' \<Longrightarrow> conns_ok n \<Longrightarrow> conns_ok n'"
  by (simp add: keeps_def conns_ok_def)

lemma keeps_conns: "keeps n n' \<Longrightarrow> nd_conns n' = nd_conns n \<and> conn_uuid n' p = conn_uuid n p"
  by (simp add: keeps_def)

lemma store_conn_ok: "conns_ok n \<Longrightarrow> p < nd_conns n \<Longrightarrow> u = conn_uuid n p \<Longrightarrow>
    conns_ok (n\<lparr>nd_ser := (nd_ser n)(u \<mapsto> p)\<rparr>)"
  by (simp add: conns_ok_def)

lemma PutConn_ok:
  assumes "conns_ok n" "p < nd_conns n"
  shows "conns_ok (PutConn e p n) \<and> nd_conns (PutConn e p n) = nd_conns n \<and>
    conn_uuid (PutConn e p n) q = conn_uuid n q"
proof (cases "nd_ser n (conn_uuid n p)")
  case None
  with assms show ?thesis by (simp add: PutConn_def store_conn_ok)
next
  case (Some q')
  obtain r n1 where 1: "TestConn e (Some q') n = (r, n1)" by fastforce
  then have k: "keeps n n1" "keeps n (Close q' n1)" by (auto dest: TestConn_keeps intro: Close_keeps)
  then have "conns_ok (Close q' n1)" "nd_conns (Close q' n1) = nd_conns n"
    "conn_uuid (Close q' n1) p = conn_uuid n p" "conn_uuid (Close q' n1) q = conn_uuid n q"
    using keeps_conns_ok [OF k(2) assms(1)] keeps_conns [OF k(2)] by simp_all
  moreover have "conns_ok n1" "nd_conns n1 = nd_conns n" "conn_uuid n1 p = conn_uuid n p" "conn_uuid n1 q = conn_uuid n q"
    using keeps_conns_ok [OF k(1) assms(1)] keeps_conns [OF k(1)] by simp_all
  ultimately show ?thesis
    using Some 1 assms(2) by (auto simp: PutConn_def store_conn_ok Let_def split: option.splits)
qed

lemma DelConn_ok: "conns_ok n \<Longrightarrow> conns_ok (DelConn u n)"
  by (auto simp: conns_ok_def DelConn_def)

lemma ClearConn_ok: "conns_ok n \<Longrightarrow> conns_ok (ClearConn now n)"
  by (auto simp: conns_ok_def ClearConn_def Let_def split: option.splits if_splits)

text \<open>
  Making connections extends the store and changes the table, but leaves the function table, the services
  and the watchers as they are; it keeps the table of connections well-formed.
\<close>

definition grows :: "NodeDetail \<Rightarrow> NodeDetail \<Rightarrow> bool" where
  "grows n n' \<longleftrightarrow> nd_conns n \<le> nd_conns n' \<and> (\<forall>p < nd_conns n. conn_uuid n' p = conn_uuid n p) \<and>
     nd_ids n' = nd_ids n \<and> nd_str n' = nd_str n \<and> nd_data n' = nd_data n \<and> nd_datas n' = nd_datas n \<and>
     nd_info n' = nd_info n \<and> nd_funcs n' = nd_funcs n \<and>
     wt_master (nd_wser n') = wt_master (nd_wser n) \<and> wt_slaves (nd_wser n') = wt_slaves (nd_wser n) \<and>
     (conns_ok n \<longrightarrow> conns_ok n')"

lemma grows_refl [simp]: "grows n n"
  by (simp add: grows_def)

lemma grows_trans: "grows n n' \<Longrightarrow> grows n' n'' \<Longrightarrow> grows n n''"
  by (auto simp: grows_def)

lemma keeps_grows: "keeps n n' \<Longrightarrow> grows n n'"
  using keeps_conns_ok [of n n'] by (auto simp: grows_def keeps_def)

lemma growsD:
  assumes "grows n n'"
  shows "nd_conns n \<le> nd_conns n'" "p < nd_conns n \<Longrightarrow> conn_uuid n' p = conn_uuid n p"
    "conns_ok n \<Longrightarrow> conns_ok n'" "nd_ids n' = nd_ids n" "nd_str n' = nd_str n" "nd_data n' = nd_data n"
    "nd_info n' = nd_info n" "nd_funcs n' = nd_funcs n" "wt_master (nd_wser n') = wt_master (nd_wser n)"
    "wt_slaves (nd_wser n') = wt_slaves (nd_wser n)"
  using assms by (simp_all add: grows_def)

lemma PutConn_tables:
  "nd_ids (PutConn e p n) = nd_ids n" "nd_str (PutConn e p n) = nd_str n" "nd_data (PutConn e p n) = nd_data n"
  "nd_datas (PutConn e p n) = nd_datas n" "nd_info (PutConn e p n) = nd_info n" "nd_funcs (PutConn e p n) = nd_funcs n"
  "wt_master (nd_wser (PutConn e p n)) = wt_master (nd_wser n)" "wt_slaves (nd_wser (PutConn e p n)) = wt_slaves (nd_wser n)"
  "nd_conns (PutConn e p n) = nd_conns n" "conn_uuid (PutConn e p n) q = conn_uuid n q"
proof -
  obtain k r n1 where 1: "TestConn e (Some (the (nd_ser n (conn_uuid n p)))) n = (r, n1)" by fastforce
  have "keeps n n1" by (rule TestConn_keeps [OF 1])
  then have "keeps n n1 \<and> keeps n (Close (the (nd_ser n (conn_uuid n p))) n1)" by (simp add: Close_keeps)
  then show "nd_ids (PutConn e p n) = nd_ids n" "nd_str (PutConn e p n) = nd_str n" "nd_data (PutConn e p n) = nd_data n"
    "nd_datas (PutConn e p n) = nd_datas n" "nd_info (PutConn e p n) = nd_info n" "nd_funcs (PutConn e p n) = nd_funcs n"
    "wt_master (nd_wser (PutConn e p n)) = wt_master (nd_wser n)" "wt_slaves (nd_wser (PutConn e p n)) = wt_slaves (nd_wser n)"
    "nd_conns (PutConn e p n) = nd_conns n" "conn_uuid (PutConn e p n) q = conn_uuid n q"
    using 1 by (auto simp: PutConn_def keeps_def Let_def split: option.splits)
qed

lemma PutConn_grows: "p < nd_conns n \<Longrightarrow> grows n (PutConn e p n)"
  using PutConn_ok [of n p e] by (simp add: grows_def PutConn_tables)

lemma TimerCheck_keeps: "keeps n (TimerCheck p n)"
  by (simp add: TimerCheck_def keeps_def)

lemma DelConn_grows: "grows n (DelConn u n)"
  using DelConn_ok [of n u] by (simp add: grows_def DelConn_def)

lemma alloc_conn_grows:
  "grows n (n\<lparr>nd_conn := (nd_conn n)(nd_conns n := fresh_conn node), nd_conns := Suc (nd_conns n)\<rparr>)"
  by (auto simp: grows_def conns_ok_def fresh_conn_def less_Suc_eq)

lemma make_conn_grows:
  assumes "make_conn e node n = ((c, err), n')"
  shows "grows n n' \<and> c = Some (nd_conns n) \<and> nd_conns n < nd_conns n' \<and> conn_uuid n' (nd_conns n) = ni_Uuid node"
proof -
  let ?m = "n\<lparr>nd_conn := (nd_conn n)(nd_conns n := fresh_conn node), nd_conns := Suc (nd_conns n)\<rparr>"
  obtain r n1 where 1: "RefreshConn e (nd_conns n) ?m = (r, n1)" by fastforce
  have k: "keeps ?m n1" by (rule RefreshConn_keeps [OF 1])
  then have g: "grows n n1" by (rule grows_trans [OF alloc_conn_grows keeps_grows])
  have c: "nd_conns n1 = Suc (nd_conns n)" "conn_uuid n1 (nd_conns n) = ni_Uuid node"
    using keeps_conns [OF k] by (simp_all add: fresh_conn_def)
  have t: "keeps n1 (TimerCheck (nd_conns n) n1)" by (rule TimerCheck_keeps)
  have p: "grows n1 (PutConn e (nd_conns n) (TimerCheck (nd_conns n) n1))"
    by (rule grows_trans [OF keeps_grows [OF t] PutConn_grows]) (simp add: keeps_conns [OF t] c)
  show ?thesis
    using assms 1 c g grows_trans [OF g p] growsD(1,2) [OF p]
    by (auto simp: make_conn_def Let_def split: option.splits)
qed

lemma NodeBaseToConn_grows:
  assumes "NodeBaseToConn e node n = ((c, err), n')"
  shows "grows n n' \<and> (conns_ok n \<longrightarrow> (\<forall>p. c = Some p \<longrightarrow> p < nd_conns n' \<and> conn_uuid n' p = ni_Uuid node)) \<and>
    (err = None \<longrightarrow> c \<noteq> None)"
proof (cases "GetNodeConn n (ni_Uuid node)")
  case None
  with assms make_conn_grows [of e node n c err n'] show ?thesis by (auto simp: NodeBaseToConn_def)
next
  case (Some q)
  obtain r n1 where 1: "TestConn e (Some q) n = (r, n1)" by fastforce
  then have k: "keeps n n1" by (rule TestConn_keeps)
  have w: "keeps n (upd_conn q (\<lambda>c. c\<lparr>nc_wrong := b\<rparr>) n1)" for b
    by (rule keeps_upd_trans [OF k]) simp
  let ?d = "DelConn (ni_Uuid node) (Close q (upd_conn q (\<lambda>c. c\<lparr>nc_wrong := True\<rparr>) n1))"
  have d: "grows n ?d"
    by (rule grows_trans [OF keeps_grows [OF Close_keeps [OF w]] DelConn_grows])
  have q: "q < nd_conns n \<and> conn_uuid n q = ni_Uuid node" if "conns_ok n"
    using conns_okD [OF that] Some by (auto simp: GetNodeConn_def)
  show ?thesis
  proof (cases r)
    case None
    then have "(c = Some q \<and> n' = upd_conn q (\<lambda>c. c\<lparr>nc_wrong := False\<rparr>) n1) \<or> (c = None \<and> err \<noteq> None \<and> n' = n)"
      using assms Some 1 by (simp add: NodeBaseToConn_def split: if_splits) auto
    then show ?thesis
      using keeps_grows [OF w [of False]] keeps_conns [OF w [of False]] q by auto
  next
    case (Some x)
    then have "make_conn e node ?d = ((c, err), n') \<or> (c = None \<and> err \<noteq> None \<and> n' = n)"
      using assms \<open>GetNodeConn n (ni_Uuid node) = Some q\<close> 1 by (auto simp: NodeBaseToConn_def split: if_splits)
    then show ?thesis
      using make_conn_grows [of e node ?d c err n'] d by (auto intro: grows_trans)
  qed
qed

end
