(* ===== verification/NodeClient.thy ===== *)
theory NodeClient
  imports Conns
begin

text \<open>
  What a node knows of the functions of others and how it asks the watchers: the function table of
  network/rpc/fmsg.go, the client of the watchers (network/rpc/watch.go), the start of a node and its
  heartbeat (network/rpc/node.go). The protobuf library for the messages of package pb is the record
  \<open>pb_codec\<close>.

  When \<open>proto.Unmarshal\<close> fails, what it leaves in the message is not specified; here the message keeps
  its initial value, and every caller but \<open>GetNodeByUuid\<close> and \<open>GetNodeByName\<close> ignores it.
\<close>

section \<open>The function table\<close>

text \<open>\<open>Query\<close> as it is written: it looks up only the id 0 and only the empty name.\<close>

definition Query :: "uint32 \<Rightarrow> string \<Rightarrow> NodeDetail \<Rightarrow> nat option" where
  "Query fid name n =
     (case (if fid = 0 then nd_ids n fid else None) of
        Some p \<Rightarrow> Some p
      | None \<Rightarrow> if name = '''' then nd_str n name else None)"

definition rpc_GetMsg :: "NodeDetail \<Rightarrow> nat option \<Rightarrow> FuncMsg option" where
  "rpc_GetMsg n d = map_option (\<lambda>p. rd_msg (nd_data n p)) d"

definition rpc_GetUuid :: "NodeDetail \<Rightarrow> nat option \<Rightarrow> string list" where
  "rpc_GetUuid n d = (case d of None \<Rightarrow> [] | Some p \<Rightarrow> rd_node (nd_data n p))"

definition store_func :: "rpc_funcdata \<Rightarrow> NodeDetail \<Rightarrow> NodeDetail" where
  "store_func d n =
     n\<lparr>nd_data := (nd_data n)(nd_datas n := d), nd_datas := Suc (nd_datas n),
       nd_ids := (nd_ids n)(fmsg_FuncID (rd_msg d) \<mapsto> nd_datas n),
       nd_str := (nd_str n)(fmsg_ApiName (rd_msg d) \<mapsto> nd_datas n)\<rparr>"

text \<open>The result carries the message, whose id the code may set through the pointer.\<close>

definition rpc_PutMsg :: "FuncMsg \<Rightarrow> NodeDetail \<Rightarrow> FuncMsg \<times> NodeDetail" where
  "rpc_PutMsg arg n =
     (if fmsg_FuncID arg = 0 \<or> fmsg_ApiName arg = '''' then (arg, n)
      else
        (case Query (fmsg_FuncID arg) '''' n of
           Some p \<Rightarrow> (arg\<lparr>fmsg_FuncID := fmsg_FuncID (rd_msg (nd_data n p))\<rparr>, n)
         | None \<Rightarrow> (arg, store_func \<lparr>rd_msg = arg, rd_one = False, rd_node = []\<rparr> n)))"

definition UpFuncNode :: "uint32 \<Rightarrow> string list \<Rightarrow> NodeDetail \<Rightarrow> NodeDetail" where
  "UpFuncNode fid ids n =
     (case nd_ids n fid of
        None \<Rightarrow> n
      | Some p \<Rightarrow> n\<lparr>nd_data := (nd_data n)(p := (nd_data n p)\<lparr>rd_node := ids\<rparr>)\<rparr>)"

definition AddFuncNode :: "uint32 \<Rightarrow> string list \<Rightarrow> NodeDetail \<Rightarrow> NodeDetail" where
  "AddFuncNode fid ids n =
     (case nd_ids n fid of
        None \<Rightarrow> n
      | Some p \<Rightarrow> n\<lparr>nd_data := (nd_data n)(p := (nd_data n p)\<lparr>rd_node := rd_node (nd_data n p) @ ids\<rparr>)\<rparr>)"

definition RangeFunc :: "NodeDetail \<Rightarrow> uint32 list \<Rightarrow> FuncMsg list" where
  "RangeFunc n ks = List.map_filter (\<lambda>k. rpc_GetMsg n (nd_ids n k)) ks"

text \<open>A function that is not in the table is a nil pointer, whose nodes the loop asks for.\<close>

definition GetFuncConn :: "uint32 \<Rightarrow> string \<Rightarrow> NodeDetail \<Rightarrow> nat list go" where
  "GetFuncConn fid name n =
     (case (if name \<noteq> '''' then nd_str n name else if fid \<noteq> 0 then nd_ids n fid else None) of
        None \<Rightarrow> Panic NilDereference
      | Some d \<Rightarrow>
          Ret (filter (\<lambda>p. \<not> nc_wrong (nd_conn n p)) (List.map_filter (nd_ser n) (rd_node (nd_data n d)))))"

section \<open>The messages that watchers understand\<close>

record pb_codec =
  pc_enc_NodeInfo :: "NodeInfo \<Rightarrow> error + byte list"
  pc_dec_NodeInfo :: "byte list \<Rightarrow> error + NodeInfo"
  pc_dec_RegisteredRsp :: "byte list \<Rightarrow> error + RegisteredRsp"
  pc_enc_SystemStatus :: "SystemStatus \<Rightarrow> error + byte list"
  pc_enc_GetFuncMsgReq :: "uint32 \<Rightarrow> string \<Rightarrow> error + byte list"
  pc_dec_GetFuncMsgRsp :: "byte list \<Rightarrow> error + GetFuncMsgRsp"
  pc_enc_GetNodeMsgReq :: "string \<Rightarrow> string \<Rightarrow> error + byte list"
  pc_dec_GetNodeMsgRsp :: "byte list \<Rightarrow> error + GetNodeMsgRsp"
  pc_enc_GetApiConnReq :: "uint32 \<Rightarrow> string \<Rightarrow> error + byte list"
  pc_dec_GetApiConnRsp :: "byte list \<Rightarrow> error + GetApiConnRsp"
  pc_enc_MultiBody :: "MultiBody \<Rightarrow> error + byte list"
  pc_dec_MultiBody :: "byte list \<Rightarrow> error + MultiBody"
  pc_dec_UpFuncList :: "byte list \<Rightarrow> error + FuncMsg list"

section \<open>Calling a watcher\<close>

text \<open>Waiting under a number: the channel is registered, the wait ends somehow, the channel is removed.\<close>

definition wait_chan :: "net_env \<Rightarrow> nat \<Rightarrow> nat \<Rightarrow> NodeDetail \<Rightarrow> wait_result \<times> NodeDetail" where
  "wait_chan e p num n =
     (let n = upd_conn p (\<lambda>c. c\<lparr>nc_rc := fst (NewChan (ne_now e (nd_ops n)) (nc_rc c) num)\<rparr>) n;
          r = ne_wait e (nd_ops n);
          n = n\<lparr>nd_ops := Suc (nd_ops n)\<rparr>
      in (r, upd_conn p (\<lambda>c. c\<lparr>nc_rc := DelChan (nc_rc c) num\<rparr>) n))"

text \<open>
  The response of a call is decoded by \<open>dec\<close> (\<^const>\<open>None\<close> for a nil response); \<open>Inr None\<close> is success that
  leaves the response as it was.
\<close>

definition ProtoWaitRsp ::
    "net_env \<Rightarrow> (byte list \<Rightarrow> error + 'r) option \<Rightarrow> nat \<Rightarrow> nat \<Rightarrow> NodeDetail \<Rightarrow> (error + 'r option) \<times> NodeDetail"
where
  "ProtoWaitRsp e dec p num n =
     (case wait_chan e p num n of
        (CtxDone err, n) \<Rightarrow> (Inl err, n)
      | (Body buff, n) \<Rightarrow>
          (case dec of
             None \<Rightarrow> (Inr None, n)
           | Some d \<Rightarrow>
               if buff = [] then (Inr None, n)
               else (case d buff of Inl err \<Rightarrow> (Inl err, n) | Inr r \<Rightarrow> (Inr (Some r), n)))
      | (ErrChan err, n) \<Rightarrow> (Inl err, n))"

text \<open>\<open>atomic.AddUint32(&w.count, 1) % 65535\<close>.\<close>

definition watch_num :: "NodeDetail \<Rightarrow> nat \<times> NodeDetail" where
  "watch_num n =
     (let c = wt_count (nd_wser n) + 1
      in (unat c mod 65535, n\<lparr>nd_wser := (nd_wser n)\<lparr>wt_count := c\<rparr>\<rparr>))"

text \<open>One attempt: write the frames, then wait; \<^const>\<open>None\<close> when the frames cannot be written.\<close>

definition watch_try ::
    "net_env \<Rightarrow> (byte list \<Rightarrow> error + 'r) option \<Rightarrow> nat \<Rightarrow> byte list \<Rightarrow> nat \<Rightarrow> nat \<Rightarrow> NodeDetail
     \<Rightarrow> (error + 'r option) option \<times> NodeDetail"
where
  "watch_try e dec fid bts num p n =
     (case nc_types (nd_conn n p) of
        ConnWithTCP \<Rightarrow>
          (case write_rows e (nc_tconn (nd_conn n p)) (MakeReqBody tcpsplit bts num fid) n of
             (Some _, n) \<Rightarrow> (None, n)
           | (None, n) \<Rightarrow> (case ProtoWaitRsp e dec p num n of (r, n) \<Rightarrow> (Some r, n)))
      | ConnWithUDP \<Rightarrow>
          (case write_rows e (nc_uconn (nd_conn n p)) (MakeReqBody udpsplit bts num fid) n of
             (Some _, n) \<Rightarrow> (None, n)
           | (None, n) \<Rightarrow> (case ProtoWaitRsp e dec p num n of (r, n) \<Rightarrow> (Some r, n)))
      | _ \<Rightarrow> (None, n))"

fun slaves_loop ::
    "net_env \<Rightarrow> (byte list \<Rightarrow> error + 'r) option \<Rightarrow> nat \<Rightarrow> byte list \<Rightarrow> nat \<Rightarrow> nat list \<Rightarrow> NodeDetail
     \<Rightarrow> (error + 'r option) \<times> NodeDetail"
where
  "slaves_loop e dec fid bts num [] n = (Inl ''request watchers wrong'', n)"
| "slaves_loop e dec fid bts num (p # ps) n =
     (case watch_try e dec fid bts num p n of
        (Some r, n) \<Rightarrow> (r, n)
      | (None, n) \<Rightarrow> slaves_loop e dec fid bts num ps n)"

definition SlavesCall ::
    "net_env \<Rightarrow> (byte list \<Rightarrow> error + 'r) option \<Rightarrow> nat \<Rightarrow> byte list \<Rightarrow> NodeDetail \<Rightarrow> (error + 'r option) \<times> NodeDetail"
where
  "SlavesCall e dec fid bts n =
     (case watch_num n of (num, n) \<Rightarrow> slaves_loop e dec fid bts num (wt_slaves (nd_wser n)) n)"

definition MasterCall ::
    "net_env \<Rightarrow> (byte list \<Rightarrow> error + 'r) option \<Rightarrow> nat \<Rightarrow> byte list \<Rightarrow> NodeDetail \<Rightarrow> (error + 'r option) \<times> NodeDetail"
where
  "MasterCall e dec fid bts n =
     (case wt_master (nd_wser n) of
        None \<Rightarrow> SlavesCall e dec fid bts n
      | Some p \<Rightarrow>
          if nc_tconn (nd_conn n p) = None \<and> nc_uconn (nd_conn n p) = None
          then SlavesCall e dec fid bts n
          else
            (case watch_num n of
               (num, n) \<Rightarrow>
                 (case watch_try e dec fid bts num p n of
                    (Some r, n) \<Rightarrow> (r, n)
                  | (None, n) \<Rightarrow> SlavesCall e dec fid bts n)))"

text \<open>The requests: an error, or the response that was filled in.\<close>

definition filled :: "'r \<Rightarrow> (error + 'r option) \<times> NodeDetail \<Rightarrow> ('r \<times> error option) \<times> NodeDetail" where
  "filled r0 x = (case x of (Inl err, n) \<Rightarrow> ((r0, Some err), n)
     | (Inr None, n) \<Rightarrow> ((r0, None), n) | (Inr (Some r), n) \<Rightarrow> ((r, None), n))"

definition wser_GetFuncMsg ::
    "net_env \<Rightarrow> pb_codec \<Rightarrow> uint32 \<Rightarrow> string \<Rightarrow> NodeDetail \<Rightarrow> (GetFuncMsgRsp \<times> error option) \<times> NodeDetail" where
  "wser_GetFuncMsg e pc fid name n =
     (let r0 = \<lparr>gf_Func = None, gf_List = []\<rparr>
      in case pc_enc_GetFuncMsgReq pc fid name of
           Inl err \<Rightarrow> ((r0, Some err), n)
         | Inr bts \<Rightarrow> filled r0 (MasterCall e (Some (pc_dec_GetFuncMsgRsp pc)) GetFuncMsg bts n))"

definition wser_GetNodeMsg ::
    "net_env \<Rightarrow> pb_codec \<Rightarrow> string \<Rightarrow> string \<Rightarrow> NodeDetail \<Rightarrow> (GetNodeMsgRsp \<times> error option) \<times> NodeDetail" where
  "wser_GetNodeMsg e pc uuid name n =
     (let r0 = \<lparr>gn_Data = Some NodeInfo_zero, gn_List = []\<rparr>
      in case pc_enc_GetNodeMsgReq pc uuid name of
           Inl err \<Rightarrow> ((r0, Some err), n)
         | Inr bts \<Rightarrow> filled r0 (MasterCall e (Some (pc_dec_GetNodeMsgRsp pc)) GetNodeMsg bts n))"

definition wser_GetApiConn ::
    "net_env \<Rightarrow> pb_codec \<Rightarrow> uint32 \<Rightarrow> string \<Rightarrow> NodeDetail \<Rightarrow> (GetApiConnRsp \<times> error option) \<times> NodeDetail" where
  "wser_GetApiConn e pc fid name n =
     (let r0 = \<lparr>ga_Func = None, ga_List = []\<rparr>
      in case pc_enc_GetApiConnReq pc fid name of
           Inl err \<Rightarrow> ((r0, Some err), n)
         | Inr bts \<Rightarrow> filled r0 (MasterCall e (Some (pc_dec_GetApiConnRsp pc)) GetApiConn bts n))"

text \<open>The heartbeat; \<open>state\<close> is what the monitors report of the machine.\<close>

definition wser_Heartbeats :: "net_env \<Rightarrow> pb_codec \<Rightarrow> SystemStatus \<Rightarrow> NodeDetail \<Rightarrow> error option \<times> NodeDetail" where
  "wser_Heartbeats e pc state n =
     (let bts = (case pc_enc_SystemStatus pc state of Inr bts \<Rightarrow> bts | Inl _ \<Rightarrow> bytes_of_string ''PING'')
      in case MasterCall e (None :: (byte list \<Rightarrow> error + unit) option) Heartbeats bts n of
           (Inl err, n) \<Rightarrow> (Some err, n)
         | (Inr _, n) \<Rightarrow> (None, n))"

section \<open>Looking up functions\<close>

definition func_msg :: "FuncApi \<Rightarrow> FuncMsg" where
  "func_msg f = (case comm_SplitApiName (fa_Name f) of (sname, fname) \<Rightarrow>
     \<lparr>fmsg_FuncID = fa_ID f, fmsg_ApiName = fa_Name f, fmsg_ServName = sname, fmsg_FuncName = fname,
      fmsg_ApiType = fa_Type f, fmsg_Protocal = fa_Kind f\<rparr>)"

definition QueryFunc :: "net_env \<Rightarrow> pb_codec \<Rightarrow> uint32 \<Rightarrow> string \<Rightarrow> NodeDetail \<Rightarrow> FuncMsg option \<times> NodeDetail" where
  "QueryFunc e pc fid name n =
     (case Query fid name n of
        Some p \<Rightarrow> (rpc_GetMsg n (Some p), n)
      | None \<Rightarrow>
          (case wser_GetFuncMsg e pc fid name n of
             ((rsp, err), n) \<Rightarrow>
               (case (err, gf_Func rsp) of
                  (None, Some f) \<Rightarrow> (case rpc_PutMsg (func_msg f) n of (tmp, n) \<Rightarrow> (Some tmp, n))
                | _ \<Rightarrow> (None, n))))"

definition GetFuncName :: "net_env \<Rightarrow> pb_codec \<Rightarrow> uint32 \<Rightarrow> NodeDetail \<Rightarrow> (string \<times> NodeDetail) go" where
  "GetFuncName e pc fid n =
     (case QueryFunc e pc fid '''' n of
        (None, n) \<Rightarrow> Panic NilDereference
      | (Some m, n) \<Rightarrow> Ret (fmsg_ApiName m, n))"

definition NodeDetail_GetFuncID :: "net_env \<Rightarrow> pb_codec \<Rightarrow> string \<Rightarrow> NodeDetail \<Rightarrow> (uint32 \<times> NodeDetail) go" where
  "NodeDetail_GetFuncID e pc name n =
     (case QueryFunc e pc 0 name n of
        (None, n) \<Rightarrow> Panic NilDereference
      | (Some m, n) \<Rightarrow> Ret (fmsg_FuncID m, n))"

section \<open>Connecting to the watchers\<close>

definition set_watchers :: "nat option \<Rightarrow> nat list \<Rightarrow> NodeDetail \<Rightarrow> NodeDetail" where
  "set_watchers m ss n = n\<lparr>nd_wser := (nd_wser n)\<lparr>wt_master := m, wt_slaves := ss\<rparr>\<rparr>"

text \<open>When there is no master, the first slave becomes one.\<close>

definition promote :: "NodeDetail \<Rightarrow> NodeDetail" where
  "promote n =
     (case (wt_master (nd_wser n), wt_slaves (nd_wser n)) of
        (None, p # ps) \<Rightarrow> set_watchers (Some p) ps n
      | _ \<Rightarrow> n)"

fun connect_watchers :: "net_env \<Rightarrow> NodeInfo list \<Rightarrow> NodeDetail \<Rightarrow> NodeDetail" where
  "connect_watchers e [] n = n"
| "connect_watchers e (node # nodes) n =
     (case NodeBaseToConn e node n of
        ((Some p, None), n) \<Rightarrow>
          (case TestTcpConn e p n of
             (None, n) \<Rightarrow>
               connect_watchers e nodes
                 (if ni_Main node \<and> wt_master (nd_wser n) = None
                  then set_watchers (Some p) (wt_slaves (nd_wser n)) n
                  else set_watchers (wt_master (nd_wser n)) (wt_slaves (nd_wser n) @ [p]) n)
           | (Some _, n) \<Rightarrow> connect_watchers e nodes n)
      | (_, n) \<Rightarrow> connect_watchers e nodes n)"

text \<open>\<open>fmt.Sprint(err)\<close>.\<close>

definition show_err :: "error option \<Rightarrow> string" where
  "show_err err = (case err of None \<Rightarrow> ''<nil>'' | Some s \<Rightarrow> s)"

definition close_watchers :: "NodeDetail \<Rightarrow> NodeDetail" where
  "close_watchers n =
     (let n = (case wt_master (nd_wser n) of
                 None \<Rightarrow> n
               | Some p \<Rightarrow> set_watchers None (wt_slaves (nd_wser n)) (Close p n))
      in fold Close (wt_slaves (nd_wser n)) n)"

definition dial_watchers :: "net_env \<Rightarrow> NodeDetail \<Rightarrow> error option \<times> NodeDetail" where
  "dial_watchers e n =
     (case wt_config (nd_wser n) of
        [] \<Rightarrow> (None, n)
      | [node] \<Rightarrow>
          (case NodeBaseToConn e node n of
             ((conn, err), n) \<Rightarrow> (err, set_watchers conn (wt_slaves (nd_wser n)) n))
      | nodes \<Rightarrow> (None, promote (connect_watchers e nodes (set_watchers (wt_master (nd_wser n)) [] n))))"

definition InitWatchConfig :: "net_env \<Rightarrow> NodeDetail \<Rightarrow> error option \<times> NodeDetail" where
  "InitWatchConfig e n =
     (case dial_watchers e (close_watchers n) of
        (err, n) \<Rightarrow>
          if err \<noteq> None \<or> wt_master (nd_wser n) = None
          then (Some (''no watcher node can connection: '' @ show_err err), n)
          else (None, n))"

text \<open>The answer of a registration: the functions with their ids, and the watchers.\<close>

fun learn_funcs :: "FuncApi list \<Rightarrow> NodeDetail \<Rightarrow> NodeDetail" where
  "learn_funcs [] n = n"
| "learn_funcs (f # fs) n =
     learn_funcs fs (store_func \<lparr>rd_msg = func_msg f, rd_one = True, rd_node = []\<rparr> n)"

fun learn_watchers :: "net_env \<Rightarrow> NodeInfo list \<Rightarrow> NodeDetail \<Rightarrow> NodeDetail" where
  "learn_watchers e [] n = n"
| "learn_watchers e (node # nodes) n =
     (case NodeBaseToConn e node n of
        ((conn, None), n) \<Rightarrow>
          learn_watchers e nodes
            (if ni_Main node then set_watchers conn (wt_slaves (nd_wser n)) n
             else set_watchers (wt_master (nd_wser n))
                    (wt_slaves (nd_wser n) @ (case conn of None \<Rightarrow> [] | Some p \<Rightarrow> [p])) n)
      | ((conn, Some err), n) \<Rightarrow> learn_watchers e nodes n)"

definition WatchRegister :: "net_env \<Rightarrow> pb_codec \<Rightarrow> NodeDetail \<Rightarrow> error option \<times> NodeDetail" where
  "WatchRegister e pc n =
     (case pc_enc_NodeInfo pc (nd_info n) of
        Inl err \<Rightarrow> (Some err, n)
      | Inr bts \<Rightarrow>
          (case filled \<lparr>rr_Watch = [], rr_Funcs = []\<rparr>
                  (MasterCall e (Some (pc_dec_RegisteredRsp pc)) Registered bts n) of
             ((result, err), n) \<Rightarrow>
               if err \<noteq> None \<or> rr_Watch result = [] then (Some (''register watcher wrong: '' @ show_err err), n)
               else
                 let n = promote (learn_watchers e (rr_Watch result) (learn_funcs (rr_Funcs result) n))
                 in (None, n\<lparr>nd_wser := (nd_wser n)\<lparr>wt_uuid := ni_Uuid (nd_info n),
                                                     wt_procid := ni_Pid (nd_info n)\<rparr>\<rparr>)))"

section \<open>Starting a node\<close>

text \<open>The fields \<open>IPAddr\<close>, \<open>HttpPort\<close> and \<open>ConfigPath\<close> of the configuration are read nowhere.\<close>

record WatcherConfig =
  wc_Host :: string
  wc_TcpPort :: uint64
  wc_UdpPort :: uint64
  wc_HttpPort :: uint64
  wc_ConfigPath :: string

text \<open>\<open>HeartBeatTime\<close> in milliseconds.\<close>

record NodeConfig =
  cf_Version :: string
  cf_NodeName :: string
  cf_Watchers :: "WatcherConfig list"
  cf_IPAddr :: string
  cf_HeartBeatTime :: int
  cf_TcpPort :: uint64
  cf_TcpListenOff :: bool
  cf_UdpPort :: uint64
  cf_UdpListenOn :: bool
  cf_HttpPort :: uint64
  cf_HttpListenOff :: bool

text \<open>
  A port: off, given, or a free one from the operating system, whose answers for the three protocols are
  \<open>free\<close>.
\<close>

definition choose_port :: "bool \<Rightarrow> uint64 \<Rightarrow> (error + uint64) \<Rightarrow> error + uint64" where
  "choose_port on port free = (if on \<and> port = 0 then free else if \<not> on then Inr 0 else Inr port)"

definition heart_time :: "int \<Rightarrow> int" where
  "heart_time t = (if t > 1000 \<and> t < NodeConnTimeOut then t else HeartbeatInterval)"

definition initMsgByte :: "pb_codec \<Rightarrow> NodeDetail \<Rightarrow> error option \<times> NodeDetail" where
  "initMsgByte pc n =
     (case pc_enc_NodeInfo pc (nd_info n) of
        Inl err \<Rightarrow> (Some err, n)
      | Inr bts \<Rightarrow>
          let rows = MakeReqBody tcpsplit bts 1 DialRegister
          in if length rows < 1 then (Some ''node message have mistake'', n)
             else
               let n = n\<lparr>nd_tcpreg := rows\<rparr>; rows = MakeReqBody udpsplit bts 1 DialRegister
               in if length rows < 1 then (Some ''node message have mistake'', n)
                  else (None, n\<lparr>nd_udpreg := rows\<rparr>))"

definition fresh_node :: "NodeInfo \<Rightarrow> NodeInfo list \<Rightarrow> int \<Rightarrow> NodeDetail" where
  "fresh_node info watchers heart =
     \<lparr>nd_info = info, nd_funcs = Map.empty, nd_hlist = Map.empty, nd_heart = heart, nd_reqnum = 0,
      nd_ids = Map.empty, nd_str = Map.empty, nd_ser = Map.empty,
      nd_data = (\<lambda>_. \<lparr>rd_msg = FuncMsg_zero, rd_one = False, rd_node = []\<rparr>), nd_datas = 0,
      nd_conn = (\<lambda>_. fresh_conn NodeInfo_zero), nd_conns = 0,
      nd_wser = \<lparr>wt_uuid = [], wt_count = 0, wt_procid = 0, wt_config = watchers, wt_master = None,
        wt_slaves = []\<rparr>,
      nd_tcpreg = [], nd_udpreg = [], nd_checks = [], nd_ops = 0, nd_sock = 0, nd_sent = [], nd_reads = []\<rparr>"

text \<open>
  \<open>newClient\<close>. The operating system gives the process id, the local address and free ports; \<open>hash\<close> makes
  the uuid, the middle of an MD5 sum, of the address and the process id.
\<close>

definition newClient ::
    "net_env \<Rightarrow> pb_codec \<Rightarrow> (string \<Rightarrow> uint64 \<Rightarrow> string) \<Rightarrow> uint64 \<Rightarrow> (error + string)
     \<Rightarrow> (nat \<Rightarrow> error + uint64) \<Rightarrow> NodeConfig \<Rightarrow> NodeDetail option \<times> error option"
where
  "newClient e pc hash pid ip free config =
     (let host = (case ip of Inr h \<Rightarrow> h | Inl _ \<Rightarrow> ''0.0.0.0'');
          watchers = map (\<lambda>row. NodeInfo_zero\<lparr>ni_Host := wc_Host row, ni_Tport := wc_TcpPort row,
                               ni_Uport := wc_UdpPort row\<rparr>) (cf_Watchers config)
      in case choose_port (\<not> cf_TcpListenOff config) (cf_TcpPort config) (free 0) of
           Inl err \<Rightarrow> (None, Some err)
         | Inr tport \<Rightarrow>
      (case choose_port (cf_UdpListenOn config) (cf_UdpPort config) (free 1) of
         Inl err \<Rightarrow> (None, Some err)
       | Inr uport \<Rightarrow>
      (case choose_port (\<not> cf_HttpListenOff config) (cf_HttpPort config) (free 2) of
         Inl err \<Rightarrow> (None, Some err)
       | Inr hport \<Rightarrow>
           let n = fresh_node \<lparr>ni_Pid = pid, ni_Ver = cf_Version config, ni_Uuid = hash host pid,
                     ni_Name = cf_NodeName config, ni_Main = False, ni_Host = host, ni_Tport = tport,
                     ni_Uport = uport, ni_Hport = hport, ni_Funcs = []\<rparr> watchers
                     (heart_time (cf_HeartBeatTime config))
           in case initMsgByte pc n of
                (Some err, n) \<Rightarrow> (Some n, Some err)
              | (None, n) \<Rightarrow>
                  if cf_NodeName config \<noteq> WatchNodeName then
                    if cf_Watchers config = [] then (None, Some ''watcher node cannot be null'')
                    else (case InitWatchConfig e n of (err, n) \<Rightarrow> (Some n, err))
                  else (Some n, None))))"

text \<open>The public constructor, and the functions that only return a field.\<close>

definition NewClient ::
    "net_env \<Rightarrow> pb_codec \<Rightarrow> (string \<Rightarrow> uint64 \<Rightarrow> string) \<Rightarrow> uint64 \<Rightarrow> (error + string)
     \<Rightarrow> (nat \<Rightarrow> error + uint64) \<Rightarrow> NodeConfig \<Rightarrow> NodeDetail option \<times> error option"
where
  "NewClient = newClient"

definition NodeDetail_GetNodeDetail :: "NodeDetail \<Rightarrow> NodeInfo" where "NodeDetail_GetNodeDetail n = nd_info n"
definition NodeDetail_GetNodeMsg :: "NodeDetail \<Rightarrow> NodeInfo" where "NodeDetail_GetNodeMsg n = nd_info n"
definition NodeDetail_WatchApi :: "NodeDetail \<Rightarrow> rpc_WatchNode" where "NodeDetail_WatchApi n = nd_wser n"

text \<open>A free port: the address that a name resolves to, and the port that listening there gives.\<close>

definition GetFreePort :: "error + 'a \<Rightarrow> ('a \<Rightarrow> error + uint64) \<Rightarrow> uint64 \<times> error option" where
  "GetFreePort resolved listen =
     (case resolved of
        Inl err \<Rightarrow> (0, Some err)
      | Inr addr \<Rightarrow> (case listen addr of Inl err \<Rightarrow> (0, Some err) | Inr port \<Rightarrow> (port, None)))"

text \<open>The functions that watchers serve (network/comm/watch.go), as \<open>init\<close> completes them.\<close>

definition watch_row :: "nat \<Rightarrow> ApiType \<Rightarrow> string \<Rightarrow> FuncMsg" where
  "watch_row fid t fname =
     \<lparr>fmsg_FuncID = of_nat fid, fmsg_ApiName = ''WatchApi'' @ ''.'' @ fname, fmsg_ServName = ''WatchApi'',
      fmsg_FuncName = fname, fmsg_ApiType = t, fmsg_Protocal = PROTO\<rparr>"

definition WatchFmsg :: "FuncMsg list" where
  "WatchFmsg = [watch_row Heartbeats Send ''Heartbeats'', watch_row Registered Call ''Registered'',
     watch_row GetNodeMsg Call ''GetNodeMsg'', watch_row GetFuncMsg Call ''GetFuncMsg'',
     watch_row GetWatcher Call ''GetWatcher'', watch_row GetApiConn Call ''GetApiConn'',
     watch_row NewServers Call ''NewServers'']"

text \<open>
  The same as a map (\<open>WatchFmsgData\<close>): the literal with which the variable starts, the loop of \<open>init\<close> over its
  identifiers in any order \<open>ids\<close>, and the functions that look a row up. \<^const>\<open>None\<close> is a nil pointer.
\<close>

record WatchFmsgData =
  wf_Name :: string
  wf_Fmsg :: "uint32 \<rightharpoonup> FuncMsg"

definition WatchFmsg_literal :: WatchFmsgData where
  "WatchFmsg_literal =
     (let row = (\<lambda>t fname. FuncMsg_zero\<lparr>fmsg_ApiType := t, fmsg_FuncName := fname\<rparr>)
      in \<lparr>wf_Name = ''WatchApi'',
          wf_Fmsg = [of_nat Heartbeats \<mapsto> row Send ''Heartbeats'', of_nat Registered \<mapsto> row Call ''Registered'',
            of_nat GetNodeMsg \<mapsto> row Call ''GetNodeMsg'', of_nat GetFuncMsg \<mapsto> row Call ''GetFuncMsg'',
            of_nat GetWatcher \<mapsto> row Call ''GetWatcher'', of_nat GetApiConn \<mapsto> row Call ''GetApiConn'',
            of_nat NewServers \<mapsto> row Call ''NewServers'']\<rparr>)"

definition init_row :: "uint32 \<Rightarrow> WatchFmsgData \<Rightarrow> WatchFmsgData" where
  "init_row fid w =
     (case wf_Fmsg w fid of
        None \<Rightarrow> w
      | Some row \<Rightarrow> w\<lparr>wf_Fmsg := (wf_Fmsg w)(fid \<mapsto> row\<lparr>fmsg_FuncID := fid, fmsg_ServName := wf_Name w,
          fmsg_Protocal := PROTO, fmsg_ApiName := wf_Name w @ ''.'' @ fmsg_FuncName row\<rparr>)\<rparr>)"

definition WatchFmsg_init :: "uint32 list \<Rightarrow> WatchFmsgData" where
  "WatchFmsg_init ids = fold init_row ids WatchFmsg_literal"

definition WatchFmsgData_ServName :: "WatchFmsgData \<Rightarrow> string" where "WatchFmsgData_ServName w = wf_Name w"
definition WatchFmsgData_Register :: "WatchFmsgData \<Rightarrow> FuncMsg option" where "WatchFmsgData_Register w = wf_Fmsg w (of_nat Registered)"
definition WatchFmsgData_NewStruct :: "WatchFmsgData \<Rightarrow> FuncMsg option" where "WatchFmsgData_NewStruct w = wf_Fmsg w (of_nat NewServers)"
definition WatchFmsgData_Heartbeat :: "WatchFmsgData \<Rightarrow> FuncMsg option" where "WatchFmsgData_Heartbeat w = wf_Fmsg w (of_nat Heartbeats)"
definition WatchFmsgData_GetNodeMsg :: "WatchFmsgData \<Rightarrow> FuncMsg option" where "WatchFmsgData_GetNodeMsg w = wf_Fmsg w (of_nat GetNodeMsg)"
definition WatchFmsgData_GetFuncMsg :: "WatchFmsgData \<Rightarrow> FuncMsg option" where "WatchFmsgData_GetFuncMsg w = wf_Fmsg w (of_nat GetFuncMsg)"
definition WatchFmsgData_GetSerConn :: "WatchFmsgData \<Rightarrow> FuncMsg option" where "WatchFmsgData_GetSerConn w = wf_Fmsg w (of_nat GetApiConn)"
definition WatchFmsgData_GetWatcher :: "WatchFmsgData \<Rightarrow> FuncMsg option" where "WatchFmsgData_GetWatcher w = wf_Fmsg w (of_nat GetWatcher)"

lemma init_row_name [simp]: "wf_Name (init_row fid w) = wf_Name w"
  by (simp add: init_row_def split: option.splits)

lemma init_row_other: "f \<noteq> fid \<Longrightarrow> wf_Fmsg (init_row fid w) f = wf_Fmsg w f"
  by (simp add: init_row_def split: option.splits)

lemma fold_init_row:
  "distinct ids \<Longrightarrow> wf_Fmsg (fold init_row ids w) f = (if f \<in> set ids then wf_Fmsg (init_row f w) f else wf_Fmsg w f)"
proof (induction ids arbitrary: w)
  case (Cons fid ids)
  have "wf_Fmsg (init_row f (init_row fid w)) f = wf_Fmsg (init_row f w) f" if "f \<noteq> fid"
    using init_row_other [OF that, of w] by (simp add: init_row_def split: option.splits)
  with Cons show ?case by (auto simp: init_row_other)
qed simp

text \<open>Whatever order the loop takes, every row is completed, and the functions find it.\<close>

lemma WatchFmsg_complete:
  assumes "distinct ids" "set ids = dom (wf_Fmsg WatchFmsg_literal)"
  shows "wf_Fmsg (WatchFmsg_init ids) = map_of (map (\<lambda>row. (fmsg_FuncID row, row)) WatchFmsg)"
proof
  fix f
  have "wf_Fmsg (WatchFmsg_init ids) f =
      (if f \<in> dom (wf_Fmsg WatchFmsg_literal) then wf_Fmsg (init_row f WatchFmsg_literal) f else wf_Fmsg WatchFmsg_literal f)"
    unfolding WatchFmsg_init_def using assms by (simp add: fold_init_row)
  also have "\<dots> = map_of (map (\<lambda>row. (fmsg_FuncID row, row)) WatchFmsg) f"
    by (auto simp: WatchFmsg_literal_def init_row_def WatchFmsg_def watch_row_def Let_def FuncMsg_zero_def
        Registered_def Heartbeats_def GetNodeMsg_def GetFuncMsg_def GetWatcher_def GetApiConn_def NewServers_def)
  finally show "wf_Fmsg (WatchFmsg_init ids) f = map_of (map (\<lambda>row. (fmsg_FuncID row, row)) WatchFmsg) f" .
qed

lemmas WatchFmsgData_getters = WatchFmsgData_Register_def WatchFmsgData_NewStruct_def WatchFmsgData_Heartbeat_def
  WatchFmsgData_GetNodeMsg_def WatchFmsgData_GetFuncMsg_def WatchFmsgData_GetSerConn_def WatchFmsgData_GetWatcher_def

lemma WatchFmsgData_rows:
  assumes "distinct ids" "set ids = dom (wf_Fmsg WatchFmsg_literal)"
  shows "WatchFmsgData_Register (WatchFmsg_init ids) = Some (watch_row Registered Call ''Registered'')"
    and "WatchFmsgData_Heartbeat (WatchFmsg_init ids) = Some (watch_row Heartbeats Send ''Heartbeats'')"
    and "WatchFmsgData_GetSerConn (WatchFmsg_init ids) = Some (watch_row GetApiConn Call ''GetApiConn'')"
  by (simp_all add: WatchFmsgData_getters WatchFmsg_complete [OF assms] WatchFmsg_def watch_row_def
      Registered_def Heartbeats_def GetNodeMsg_def GetFuncMsg_def GetWatcher_def GetApiConn_def NewServers_def)

text \<open>
  \<open>runServer\<close>, where \<open>tcp\<close> and \<open>udp\<close> are the outcomes of listening; the loop over the map of functions
  may take any order \<open>rows\<close>.
\<close>

definition runServer ::
    "net_env \<Rightarrow> pb_codec \<Rightarrow> error option \<Rightarrow> error option \<Rightarrow> FuncMsg list \<Rightarrow> NodeDetail \<Rightarrow> error option \<times> NodeDetail"
where
  "runServer e pc tcp udp rows n =
     (if ni_Tport (nd_info n) > 0 \<and> tcp \<noteq> None then (Some (''tcp listen: '' @ the tcp), n)
      else if ni_Uport (nd_info n) > 0 \<and> udp \<noteq> None then (Some (''udp listen: '' @ the udp), n)
      else if ni_Name (nd_info n) \<noteq> WatchNodeName then WatchRegister e pc n
      else (None, fold (\<lambda>row n. snd (rpc_PutMsg row n)) rows n))"

text \<open>
  The heartbeat timer of \<open>InitTimer\<close>: on every third failure the node registers again, and when that
  fails it connects to the watchers anew. The count of failures is a variable of the package.
\<close>

definition heartbeat_tick ::
    "net_env \<Rightarrow> pb_codec \<Rightarrow> SystemStatus \<Rightarrow> uint32 \<Rightarrow> NodeDetail \<Rightarrow> uint32 \<times> NodeDetail"
where
  "heartbeat_tick e pc state wrong n =
     (case wser_Heartbeats e pc state n of
        (None, n) \<Rightarrow> (wrong, n)
      | (Some err, n) \<Rightarrow>
          let wrong = wrong + 1
          in if unat wrong mod 3 \<noteq> 0 then (wrong, n)
             else
               (case WatchRegister e pc n of
                  (None, n) \<Rightarrow> (0, n)
                | (Some err, n) \<Rightarrow>
                    (case InitWatchConfig e n of
                       (Some err, n) \<Rightarrow> (wrong, n)
                     | (None, n) \<Rightarrow>
                         (case WatchRegister e pc n of
                            (None, n) \<Rightarrow> (0, n)
                          | (Some err, n) \<Rightarrow> (wrong, n)))))"

text \<open>Asking for nodes; the first dereferences the answer without looking at it.\<close>

definition NodeDetail_GetNodeByUuid ::
    "net_env \<Rightarrow> pb_codec \<Rightarrow> string \<Rightarrow> NodeDetail \<Rightarrow> ((NodeInfo \<times> error option) \<times> NodeDetail) go"
where
  "NodeDetail_GetNodeByUuid e pc uuid n =
     (if ni_Uuid (nd_info n) = uuid then Ret ((nd_info n, None), n)
      else
        (case GetNodeConn n uuid of
           Some p \<Rightarrow> Ret ((nc_info (nd_conn n p), None), n)
         | None \<Rightarrow>
             (case wser_GetNodeMsg e pc uuid '''' n of
                ((rsp, err), n) \<Rightarrow>
                  (case gn_Data rsp of
                     None \<Rightarrow> Panic NilDereference
                   | Some d \<Rightarrow> Ret ((d, err), n)))))"

definition NodeDetail_GetNodeByName ::
    "net_env \<Rightarrow> pb_codec \<Rightarrow> string \<Rightarrow> NodeDetail \<Rightarrow> (NodeInfo list \<times> error option) \<times> NodeDetail"
where
  "NodeDetail_GetNodeByName e pc name n =
     (case wser_GetNodeMsg e pc '''' name n of ((rsp, err), n) \<Rightarrow> ((gn_List rsp, err), n))"

section \<open>What calls of watchers leave alone\<close>

lemma wait_chan_keeps: "wait_chan e p num n = (r, n') \<Longrightarrow> keeps n n'"
  by (auto simp: wait_chan_def Let_def keeps_def upd_conn_def)

lemma ProtoWaitRsp_keeps:
  assumes "ProtoWaitRsp e dec p num n = (r, n')"
  shows "keeps n n'"
proof -
  obtain w n1 where 1: "wait_chan e p num n = (w, n1)" by fastforce
  with assms have "n' = n1"
    by (cases w) (auto simp: ProtoWaitRsp_def split: option.splits if_splits sum.splits)
  with wait_chan_keeps [OF 1] show ?thesis by simp
qed

lemma watch_num_keeps: "watch_num n = (num, n') \<Longrightarrow> keeps n n'"
  by (auto simp: watch_num_def Let_def keeps_def)

lemma watch_try_keeps: "watch_try e dec fid bts num p n = (r, n') \<Longrightarrow> keeps n n'"
  by (auto simp: watch_try_def split: ConnType.splits prod.splits option.splits
      dest!: write_rows_keeps ProtoWaitRsp_keeps intro: keeps_trans)

lemma slaves_loop_keeps: "slaves_loop e dec fid bts num ps n = (r, n') \<Longrightarrow> keeps n n'"
proof (induction e dec fid bts num ps n arbitrary: r n' rule: slaves_loop.induct)
  case (2 e dec fid bts num p ps n)
  then show ?case
    by (cases "watch_try e dec fid bts num p n")
      (auto split: option.splits dest: watch_try_keeps intro: keeps_trans)
qed simp

lemma SlavesCall_keeps: "SlavesCall e dec fid bts n = (r, n') \<Longrightarrow> keeps n n'"
  by (auto simp: SlavesCall_def split: prod.splits
      dest!: watch_num_keeps slaves_loop_keeps intro: keeps_trans)

lemma MasterCall_keeps:
  assumes "MasterCall e dec fid bts n = (r, n')"
  shows "keeps n n'"
proof (cases "wt_master (nd_wser n)")
  case None
  with assms show ?thesis by (auto simp: MasterCall_def dest: SlavesCall_keeps)
next
  case (Some p)
  obtain num n1 where 1: "watch_num n = (num, n1)" by fastforce
  obtain t n2 where 2: "watch_try e dec fid bts num p n1 = (t, n2)" by fastforce
  have k: "keeps n n2" by (rule keeps_trans [OF watch_num_keeps [OF 1] watch_try_keeps [OF 2]])
  from assms Some 1 2 k show ?thesis
    by (auto simp: MasterCall_def split: if_splits option.splits
        dest: SlavesCall_keeps keeps_trans [OF k SlavesCall_keeps])
qed

lemma filled_snd: "snd (filled r0 x) = snd x"
  by (auto simp: filled_def split: prod.splits sum.splits option.splits)

lemma wser_keeps:
  "wser_GetFuncMsg e pc fid name n = (r, n') \<Longrightarrow> keeps n n'"
  "wser_GetNodeMsg e pc uuid name n = (s, n') \<Longrightarrow> keeps n n'"
  "wser_GetApiConn e pc fid name n = (t, n') \<Longrightarrow> keeps n n'"
proof -
  have call: "filled r0 (MasterCall e dec f b n) = (x, n') \<Longrightarrow> keeps n n'" for r0 :: 'r and dec f b x
    using filled_snd [of r0 "MasterCall e dec f b n"] MasterCall_keeps [of e dec f b n _ n']
    by (metis prod.collapse snd_conv)
  show "wser_GetFuncMsg e pc fid name n = (r, n') \<Longrightarrow> keeps n n'"
    "wser_GetNodeMsg e pc uuid name n = (s, n') \<Longrightarrow> keeps n n'"
    "wser_GetApiConn e pc fid name n = (t, n') \<Longrightarrow> keeps n n'"
    by (auto simp: wser_GetFuncMsg_def wser_GetNodeMsg_def wser_GetApiConn_def Let_def
        split: sum.splits dest: call)
qed

text \<open>Without a watcher that could be asked, a call is an error.\<close>

lemma MasterCall_none:
  assumes "wt_master (nd_wser n) = None" "wt_slaves (nd_wser n) = []"
  shows "\<exists>n'. MasterCall e dec fid bts n = (Inl ''request watchers wrong'', n')"
  using assms by (simp add: MasterCall_def SlavesCall_def watch_num_def Let_def)

section \<open>The cache of functions\<close>

text \<open>
  No function is filed under the id 0 or the empty name. Since \<open>Query\<close> looks for nothing else, it never
  finds a function.
\<close>

definition funcs_ok :: "NodeDetail \<Rightarrow> bool" where
  "funcs_ok n \<longleftrightarrow> nd_ids n 0 = None \<and> nd_str n '''' = None"

lemma Query_misses: "funcs_ok n \<Longrightarrow> Query fid name n = None"
  by (simp add: funcs_ok_def Query_def)

text \<open>The operations below leave services and watchers alone and keep this.\<close>

definition mild :: "NodeDetail \<Rightarrow> NodeDetail \<Rightarrow> bool" where
  "mild n n' \<longleftrightarrow> nd_info n' = nd_info n \<and> nd_funcs n' = nd_funcs n \<and>
     wt_master (nd_wser n') = wt_master (nd_wser n) \<and> wt_slaves (nd_wser n') = wt_slaves (nd_wser n) \<and>
     (funcs_ok n \<longrightarrow> funcs_ok n') \<and> (conns_ok n \<longrightarrow> conns_ok n')"

lemma mild_refl [simp]: "mild n n"
  by (simp add: mild_def)

lemma mild_trans: "mild n n' \<Longrightarrow> mild n' n'' \<Longrightarrow> mild n n''"
  by (simp add: mild_def)

lemma grows_mild: "grows n n' \<Longrightarrow> mild n n'"
  by (simp add: grows_def mild_def funcs_ok_def)

lemma keeps_mild: "keeps n n' \<Longrightarrow> mild n n'"
  by (rule grows_mild [OF keeps_grows])

lemma store_func_ok:
  "conns_ok n \<Longrightarrow> conns_ok (store_func d n)"
  "fmsg_FuncID (rd_msg d) \<noteq> 0 \<Longrightarrow> fmsg_ApiName (rd_msg d) \<noteq> '''' \<Longrightarrow> funcs_ok n \<Longrightarrow> funcs_ok (store_func d n)"
  by (simp_all add: store_func_def funcs_ok_def conns_ok_def)

lemma rpc_PutMsg_mild: "mild n (snd (rpc_PutMsg arg n))"
proof (cases "fmsg_FuncID arg = 0 \<or> fmsg_ApiName arg = ''''")
  case False
  let ?d = "\<lparr>rd_msg = arg, rd_one = False, rd_node = []\<rparr>"
  have "mild n (store_func ?d n)"
    using False store_func_ok [where d = ?d and n = n] by (simp add: mild_def) (simp add: store_func_def)
  then show ?thesis by (auto simp: rpc_PutMsg_def split: option.splits)
qed (auto simp: rpc_PutMsg_def)

lemma fold_PutMsg_mild: "mild n (fold (\<lambda>row n. snd (rpc_PutMsg row n)) rows n)"
  by (induction rows arbitrary: n) (auto intro: mild_trans [OF rpc_PutMsg_mild])

lemma UpFuncNode_mild: "mild n (UpFuncNode fid ids n)"
  by (auto simp: UpFuncNode_def mild_def funcs_ok_def conns_ok_def split: option.splits)

lemma AddFuncNode_mild: "mild n (AddFuncNode fid ids n)"
  by (auto simp: AddFuncNode_def mild_def funcs_ok_def conns_ok_def split: option.splits)

lemma ClearConn_mild: "mild n (ClearConn now n)"
  using ClearConn_ok [of n now] by (simp add: mild_def funcs_ok_def) (simp add: ClearConn_def Let_def)

lemma QueryFunc_mild:
  assumes "QueryFunc e pc fid name n = (r, n')"
  shows "mild n n'"
proof (cases "Query fid name n")
  case (Some p)
  with assms show ?thesis by (simp add: QueryFunc_def)
next
  case None
  obtain rsp err n1 where 1: "wser_GetFuncMsg e pc fid name n = ((rsp, err), n1)" by (metis surj_pair)
  have k: "mild n n1" by (rule keeps_mild [OF wser_keeps(1) [OF 1]])
  have "rpc_PutMsg a n1 = (x, n2) \<Longrightarrow> mild n n2" for a x n2
    using mild_trans [OF k rpc_PutMsg_mild [of n1 a]] by simp
  with assms None 1 k show ?thesis
    by (auto simp: QueryFunc_def split: option.splits prod.splits)
qed

lemma QueryFunc_none:
  assumes "funcs_ok n" "wt_master (nd_wser n) = None" "wt_slaves (nd_wser n) = []"
  shows "fst (QueryFunc e pc fid name n) = None"
proof -
  have "snd (fst (wser_GetFuncMsg e pc fid name n)) \<noteq> None"
  proof (cases "pc_enc_GetFuncMsgReq pc fid name")
    case (Inr bts)
    obtain n1 where "MasterCall e (Some (pc_dec_GetFuncMsgRsp pc)) GetFuncMsg bts n = (Inl ''request watchers wrong'', n1)"
      using MasterCall_none [OF assms(2,3)] by blast
    with Inr show ?thesis by (simp add: wser_GetFuncMsg_def filled_def)
  qed (simp add: wser_GetFuncMsg_def)
  with Query_misses [OF assms(1)] show ?thesis
    by (auto simp: QueryFunc_def split: prod.splits option.splits)
qed

lemma NodeBaseToConn_mild: "NodeBaseToConn e node n = (r, n') \<Longrightarrow> mild n n'"
  using NodeBaseToConn_grows [of e node n "fst r" "snd r" n'] by (simp add: grows_mild)

lemma PutConn_mild: "(conns_ok n \<Longrightarrow> p < nd_conns n) \<Longrightarrow> mild n (PutConn e p n)"
  using PutConn_ok [of n p e] by (auto simp: mild_def funcs_ok_def PutConn_tables)

text \<open>A connection that was made or found is put into the table.\<close>

lemma NodeBaseToConn_PutConn_mild:
  assumes "NodeBaseToConn e node n = ((Some p, err), n')"
  shows "mild n (PutConn e p n')"
proof -
  have g: "mild n n'" by (rule NodeBaseToConn_mild [OF assms])
  have "conns_ok n \<Longrightarrow> mild n' (PutConn e p n')"
    using NodeBaseToConn_grows [OF assms] by (intro PutConn_mild) blast
  with g show ?thesis by (auto simp: mild_def funcs_ok_def PutConn_tables)
qed

end
