(* ===== verification/Invoke.thy ===== *)
theory Invoke
  imports NodeClient
begin

text \<open>
  Calling functions of other nodes (network/rpc/invoke.go and the public functions of api.go): request
  numbers, the choice of connections, the attempts over TCP, UDP and HTTP, the local short cut, and the
  calls with raw bytes.

  A response variable of the caller is a type and the value it has (\<^const>\<open>None\<close> for a nil response);
  \<open>cr_val\<close> is what a call has stored there.
\<close>

section \<open>Results\<close>

record 'v CallResp =
  cr_err :: "error option"
  cr_msg :: NodeInfo
  cr_con :: string
  cr_rsp :: "byte list"
  cr_val :: "'v option"

definition call_resp :: "error option \<Rightarrow> NodeInfo \<Rightarrow> string \<Rightarrow> 'v option \<Rightarrow> 'v CallResp" where
  "call_resp err msg con v = \<lparr>cr_err = err, cr_msg = msg, cr_con = con, cr_rsp = [], cr_val = v\<rparr>"

definition CallResp_Err :: "'v CallResp \<Rightarrow> error option" where "CallResp_Err c = cr_err c"
definition CallResp_NodeUuid :: "'v CallResp \<Rightarrow> string" where "CallResp_NodeUuid c = ni_Uuid (cr_msg c)"
definition CallResp_NodeBase :: "'v CallResp \<Rightarrow> NodeInfo" where "CallResp_NodeBase c = cr_msg c"
definition CallResp_Network :: "'v CallResp \<Rightarrow> string" where "CallResp_Network c = cr_con c"
definition CallResp_RespBody :: "'v CallResp \<Rightarrow> byte list" where "CallResp_RespBody c = cr_rsp c"

section \<open>Request numbers\<close>

definition serial :: "uint32 \<Rightarrow> NodeDetail \<Rightarrow> nat \<times> NodeDetail" where
  "serial fid n =
     (if unat fid < WATCH_IN_MAX then (unat fid, n)
      else
        let r = nd_reqnum n + 1
        in if unat r < WATCH_IN_MAX
           then (let r = of_nat WATCH_IN_MAX + 1 in (unat r mod 65535, n\<lparr>nd_reqnum := r\<rparr>))
           else (unat r mod 65535, n\<lparr>nd_reqnum := r\<rparr>))"

section \<open>Calling over the connections\<close>

definition WaitRsp ::
    "net_env \<Rightarrow> 'v codec \<Rightarrow> FuncMsg \<Rightarrow> (gotype \<times> 'v) option \<Rightarrow> nat \<Rightarrow> nat \<Rightarrow> NodeDetail
     \<Rightarrow> (error option \<times> 'v option) \<times> NodeDetail"
where
  "WaitRsp e cd fmsg rsp p num n =
     (case wait_chan e p num n of
        (CtxDone err, n) \<Rightarrow> ((Some err, None), n)
      | (Body buff, n) \<Rightarrow>
          (case rsp of
             None \<Rightarrow> ((None, None), n)
           | Some (t, _) \<Rightarrow>
               if buff = [] then ((None, None), n)
               else (case UnmarshalInterface cd (fmsg_Protocal fmsg) t buff of
                       Inl err \<Rightarrow> ((Some err, None), n)
                     | Inr v \<Rightarrow> ((None, Some v), n)))
      | (ErrChan err, n) \<Rightarrow> ((Some err, None), n))"

definition post_http :: "net_env \<Rightarrow> NodeDetail \<Rightarrow> (error + http_response) \<times> NodeDetail" where
  "post_http e n = (ne_post e (nd_ops n), n\<lparr>nd_ops := Suc (nd_ops n)\<rparr>)"

definition conn_info :: "NodeDetail \<Rightarrow> nat \<Rightarrow> NodeInfo" where
  "conn_info n p = nc_info (nd_conn n p)"

text \<open>One connection of the loop of \<open>connsCall\<close>: a result, or on to the next.\<close>

definition conn_try ::
    "net_env \<Rightarrow> 'v codec \<Rightarrow> FuncMsg \<Rightarrow> byte list \<Rightarrow> (gotype \<times> 'v) option \<Rightarrow> nat \<Rightarrow> nat \<Rightarrow> NodeDetail
     \<Rightarrow> 'v CallResp option \<times> NodeDetail"
where
  "conn_try e cd fmsg bts rsp num p n =
     (if conn_uuid n p = ni_Uuid (nd_info n) \<or> nc_wrong (nd_conn n p) then (None, n)
      else
        (case nc_types (nd_conn n p) of
           ConnWithTCP \<Rightarrow>
             (case write_rows e (nc_tconn (nd_conn n p)) (MakeReqBody tcpsplit bts num (unat (fmsg_FuncID fmsg))) n of
                (Some _, n) \<Rightarrow> (None, n)
              | (None, n) \<Rightarrow>
                  (case WaitRsp e cd fmsg rsp p num n of
                     ((err, v), n) \<Rightarrow> (Some (call_resp err (conn_info n p) ''TCP'' v), n)))
         | ConnWithUDP \<Rightarrow>
             (case write_rows e (nc_uconn (nd_conn n p)) (MakeReqBody udpsplit bts num (unat (fmsg_FuncID fmsg))) n of
                (Some _, n) \<Rightarrow> (None, n)
              | (None, n) \<Rightarrow>
                  (case WaitRsp e cd fmsg rsp p num n of
                     ((err, v), n) \<Rightarrow> (Some (call_resp err (conn_info n p) ''UDP'' v), n)))
         | ConnWithHTTP \<Rightarrow>
             (case post_http e n of
                (post, n) \<Rightarrow>
                  (case postHttpApi cd (fmsg_Protocal fmsg) (map_option fst rsp) post of
                     (apierr, None, v) \<Rightarrow> (Some (call_resp apierr (conn_info n p) ''HTTP'' v), n)
                   | (apierr, Some _, v) \<Rightarrow> (None, n)))
         | ConnUnset \<Rightarrow> (None, n)))"

fun conns_loop ::
    "net_env \<Rightarrow> 'v codec \<Rightarrow> FuncMsg \<Rightarrow> byte list \<Rightarrow> (gotype \<times> 'v) option \<Rightarrow> nat \<Rightarrow> nat list \<Rightarrow> NodeDetail
     \<Rightarrow> 'v CallResp \<times> NodeDetail"
where
  "conns_loop e cd fmsg bts rsp num [] n =
     (call_resp (Some ''call all server node with api, but all wrong'') NodeInfo_zero ''Remote'' None, n)"
| "conns_loop e cd fmsg bts rsp num (p # ps) n =
     (case conn_try e cd fmsg bts rsp num p n of
        (Some r, n) \<Rightarrow> (r, n)
      | (None, n) \<Rightarrow> conns_loop e cd fmsg bts rsp num ps n)"

definition connsCall ::
    "net_env \<Rightarrow> 'v codec \<Rightarrow> FuncMsg \<Rightarrow> byte list \<Rightarrow> (gotype \<times> 'v) option \<Rightarrow> nat list \<Rightarrow> NodeDetail
     \<Rightarrow> 'v CallResp \<times> NodeDetail"
where
  "connsCall e cd fmsg bts rsp conns n =
     (case serial (fmsg_FuncID fmsg) n of (num, n) \<Rightarrow> conns_loop e cd fmsg bts rsp num conns n)"

section \<open>Finding connections\<close>

text \<open>
  The loop over the nodes that a watcher names: the connection that is there and works, or a new one.
  \<open>put\<close> says whether the former is put into the table again.
\<close>

fun gather :: "net_env \<Rightarrow> bool \<Rightarrow> NodeInfo list \<Rightarrow> NodeDetail \<Rightarrow> (string list \<times> nat list) \<times> NodeDetail" where
  "gather e put [] n = (([], []), n)"
| "gather e put (node # nodes) n =
     (case (case GetNodeConn n (ni_Uuid node) of
              None \<Rightarrow> (None, n)
            | Some p \<Rightarrow>
                (case TestConn e (Some p) n of
                   (None, n) \<Rightarrow> (Some p, if put then PutConn e p n else n)
                 | (Some _, n) \<Rightarrow> (None, n))) of
        (Some p, n) \<Rightarrow>
          (case gather e put nodes n of ((ids, rows), n) \<Rightarrow> ((ni_Uuid node # ids, p # rows), n))
      | (None, n) \<Rightarrow>
          (case NodeBaseToConn e node n of
             ((Some p, None), n) \<Rightarrow>
               (case gather e put nodes (PutConn e p n) of
                  ((ids, rows), n) \<Rightarrow> ((ni_Uuid node # ids, p # rows), n))
           | (_, n) \<Rightarrow> gather e put nodes n))"

definition GetRemoteConn :: "net_env \<Rightarrow> pb_codec \<Rightarrow> FuncMsg \<Rightarrow> NodeDetail \<Rightarrow> (nat list \<times> NodeDetail) go" where
  "GetRemoteConn e pc fmsg n =
     go_bind (GetFuncConn (fmsg_FuncID fmsg) (fmsg_ApiName fmsg) n) (\<lambda>rows.
       if rows \<noteq> [] then Ret (rows, n)
       else
         (case wser_GetApiConn e pc (fmsg_FuncID fmsg) (fmsg_ApiName fmsg) n of
            ((rsp, err), n) \<Rightarrow>
              if err = None \<and> ga_List rsp \<noteq> [] then
                (case gather e False (ga_List rsp) n of
                   ((ids, rows), n) \<Rightarrow>
                     Ret (rows, if length ids < length (ga_List rsp)
                                then UpFuncNode (fmsg_FuncID fmsg) ids n else n))
              else Ret ([], n)))"

definition GetAssignConn :: "net_env \<Rightarrow> pb_codec \<Rightarrow> string \<Rightarrow> string \<Rightarrow> NodeDetail \<Rightarrow> nat list \<times> NodeDetail" where
  "GetAssignConn e pc uuid name n =
     (case (if uuid \<noteq> '''' then GetNodeConn n uuid else None) of
        Some p \<Rightarrow> ([p], n)
      | None \<Rightarrow>
          if name \<noteq> '''' then ([], n)
          else
            (case wser_GetNodeMsg e pc uuid name n of
               ((rsp, err), n) \<Rightarrow>
                 if err \<noteq> None \<or> (gn_Data rsp = None \<and> gn_List rsp = []) then ([], n)
                 else
                   (case (case gn_Data rsp of
                            None \<Rightarrow> ((None, Some ''''), n)
                          | Some d \<Rightarrow> NodeBaseToConn e d n) of
                      ((Some p, None), n) \<Rightarrow> ([p], PutConn e p n)
                    | (_, n) \<Rightarrow>
                        (case gather e True (gn_List rsp) n of ((ids, rows), n) \<Rightarrow> (rows, n)))))"

section \<open>Calls\<close>

definition remoteCall ::
    "net_env \<Rightarrow> pb_codec \<Rightarrow> 'v codec \<Rightarrow> string \<Rightarrow> string \<Rightarrow> FuncMsg \<Rightarrow> 'v \<Rightarrow> (gotype \<times> 'v) option \<Rightarrow> NodeDetail
     \<Rightarrow> ('v CallResp \<times> NodeDetail) go"
where
  "remoteCall e pc cd uuid nodename fmsg req rsp n =
     (case MarshalInterface cd (fmsg_Protocal fmsg) req of
        Inl err \<Rightarrow> Ret (call_resp (Some (''remoteCall marshal error: '' @ err)) NodeInfo_zero ''Local'' None, n)
      | Inr bts \<Rightarrow>
          go_bind (if uuid \<noteq> '''' \<or> nodename \<noteq> '''' then Ret (GetAssignConn e pc uuid nodename n)
                   else GetRemoteConn e pc fmsg n) (\<lambda>(conns, n).
            if conns = []
            then Ret (call_resp (Some ''no multi remote or get remote error'') NodeInfo_zero ''Comm'' None, n)
            else Ret (connsCall e cd fmsg bts rsp conns n)))"

fun marshal_args :: "'v codec \<Rightarrow> Compiler \<Rightarrow> (gotype \<times> 'v) list \<Rightarrow> error + byte list list" where
  "marshal_args cd p [] = Inr []"
| "marshal_args cd p ((t, v) # args) =
     (case MarshalInterface cd p v of
        Inl err \<Rightarrow> Inl err
      | Inr b \<Rightarrow> (case marshal_args cd p args of Inl err \<Rightarrow> Inl err | Inr bs \<Rightarrow> Inr (b # bs)))"

definition remoteMulti ::
    "net_env \<Rightarrow> pb_codec \<Rightarrow> 'v codec \<Rightarrow> string \<Rightarrow> string \<Rightarrow> FuncMsg \<Rightarrow> (gotype \<times> 'v) list \<Rightarrow> NodeDetail
     \<Rightarrow> ('v CallResp \<times> NodeDetail) go"
where
  "remoteMulti e pc cd uuid nodename fmsg args n =
     (case marshal_args cd (fmsg_Protocal fmsg) (butlast args) of
        Inl err \<Rightarrow> Ret (call_resp (Some (''remoteCall marshal error: '' @ err)) NodeInfo_zero ''Local'' None, n)
      | Inr data \<Rightarrow>
          go_bind (if uuid \<noteq> '''' \<or> nodename \<noteq> '''' then Ret (GetAssignConn e pc uuid nodename n)
                   else GetRemoteConn e pc fmsg n) (\<lambda>(conns, n).
            if conns = [] \<or> length args < 2
            then Ret (call_resp (Some ''no multi remote or get remote error'') NodeInfo_zero ''Comm'' None, n)
            else
              (case pc_enc_MultiBody pc \<lparr>mb_Count = of_nat (length args) - 1, mb_Data = data\<rparr> of
                 Inr bts \<Rightarrow> Ret (connsCall e cd fmsg bts (Some (last args)) conns n)
               | Inl err \<Rightarrow>
                   Ret (call_resp (Some (''remoteCall marshal error: '' @ err)) NodeInfo_zero ''Local'' None, n))))"

text \<open>
  The local part of \<open>call\<close>, \<open>send\<close> and \<open>multi\<close>: the services of the node itself. \<open>run\<close> calls the
  function, \<open>strict\<close> says that its kind is checked as well, which is done for an explicit uuid only. For a
  name without a node the code goes on with a missing function, whose kind it asks for.
\<close>

definition local_call ::
    "(Server \<Rightarrow> ServerFunc \<Rightarrow> (error option \<times> 'v option) go) \<Rightarrow> bool \<Rightarrow> bool \<Rightarrow> string \<Rightarrow> string \<Rightarrow> FuncMsg
     \<Rightarrow> NodeDetail \<Rightarrow> 'v CallResp option go"
where
  "local_call run strict asks uuid nodename fmsg n =
     (let local = (\<lambda>s f. go_bind (run s f) (\<lambda>(err, v). Ret (Some (call_resp err (nd_info n) ''Local'' v))))
      in if uuid \<noteq> '''' \<and> ni_Uuid (nd_info n) = uuid then
           (case nd_funcs n (fmsg_ServName fmsg) of
              None \<Rightarrow> Ret (Some (call_resp (Some ''local server node not found struct service'') (nd_info n) [] None))
            | Some s \<Rightarrow>
                (case sv_funcs s (fmsg_FuncName fmsg) of
                   None \<Rightarrow> Ret (Some (call_resp (Some ''local not found this api or input values wrong'')
                             (nd_info n) ''Local'' None))
                 | Some f \<Rightarrow>
                     if strict \<and> sf_api f \<noteq> Call
                     then Ret (Some (call_resp (Some ''local not found this api or input values wrong'')
                             (nd_info n) ''Local'' None))
                     else local s f))
         else if nodename = '''' \<or> ni_Name (nd_info n) = nodename then
           (case nd_funcs n (fmsg_ServName fmsg) of
              None \<Rightarrow> Ret None
            | Some s \<Rightarrow>
                (case sv_funcs s (fmsg_FuncName fmsg) of
                   Some f \<Rightarrow> local s f
                 | None \<Rightarrow> if asks then Panic NilDereference else Ret None))
         else Ret None)"

definition call ::
    "net_env \<Rightarrow> pb_codec \<Rightarrow> 'v codec \<Rightarrow> 'v methods \<Rightarrow> string \<Rightarrow> string \<Rightarrow> 'v \<Rightarrow> (gotype \<times> 'v) option \<Rightarrow> NodeDetail
     \<Rightarrow> ('v CallResp \<times> NodeDetail) go"
where
  "call e pc cd exec uuid name req rsp n =
     (if name = '''' then Ret (call_resp (Some ''call server api name cannot be null'') (nd_info n) [] None, n)
      else
        (case SplitApiName name of
           (nodename, apiname) \<Rightarrow>
             (case QueryFunc e pc 0 apiname n of
                (None, n) \<Rightarrow> Ret (call_resp (Some (''call not found this server api: '' @ name)) (nd_info n) [] None, n)
              | (Some fmsg, n) \<Rightarrow>
                  if fmsg_ApiType fmsg \<noteq> Call
                  then Ret (call_resp (Some (''call not found this server api: '' @ name)) (nd_info n) [] None, n)
                  else
                    go_bind (local_call (\<lambda>s f. case rsp of
                          None \<Rightarrow> Panic ExplicitPanic
                        | Some (t, r) \<Rightarrow> map_go (\<lambda>(err, v). (err, Some v)) (LocalCall exec (sv_sname s) f req r))
                        True True uuid nodename fmsg n) (\<lambda>r.
                      case r of
                        Some resp \<Rightarrow> Ret (resp, n)
                      | None \<Rightarrow> remoteCall e pc cd uuid nodename fmsg req rsp n))))"

definition send ::
    "net_env \<Rightarrow> pb_codec \<Rightarrow> 'v codec \<Rightarrow> 'v methods \<Rightarrow> string \<Rightarrow> string \<Rightarrow> 'v \<Rightarrow> NodeDetail
     \<Rightarrow> ('v CallResp \<times> NodeDetail) go"
where
  "send e pc cd exec uuid name req n =
     (if name = '''' then Ret (call_resp (Some ''send server api name cannot be null'') (nd_info n) [] None, n)
      else
        (case SplitApiName name of
           (nodename, apiname) \<Rightarrow>
             (case QueryFunc e pc 0 apiname n of
                (None, n) \<Rightarrow> Ret (call_resp (Some (''call not found this server api: '' @ name)) (nd_info n) [] None, n)
              | (Some fmsg, n) \<Rightarrow>
                  if fmsg_ApiType fmsg \<noteq> Send
                  then Ret (call_resp (Some (''call not found this server api: '' @ name)) (nd_info n) [] None, n)
                  else
                    go_bind (local_call (\<lambda>s f.
                          map_go (\<lambda>(err, v). (err, None)) (LocalSend exec (sv_sname s) f req))
                        True True uuid nodename fmsg n) (\<lambda>r.
                      case r of
                        Some resp \<Rightarrow> Ret (resp, n)
                      | None \<Rightarrow> remoteCall e pc cd uuid nodename fmsg req None n))))"

definition multi ::
    "net_env \<Rightarrow> pb_codec \<Rightarrow> 'v codec \<Rightarrow> 'v methods \<Rightarrow> string \<Rightarrow> string \<Rightarrow> (gotype \<times> 'v) list \<Rightarrow> NodeDetail
     \<Rightarrow> ('v CallResp \<times> NodeDetail) go"
where
  "multi e pc cd exec uuid name args n =
     (case SplitApiName name of
        (nodename, apiname) \<Rightarrow>
          (case QueryFunc e pc 0 apiname n of
             (None, n) \<Rightarrow> Ret (call_resp (Some (''call not found this server api: '' @ name)) (nd_info n) [] None, n)
           | (Some fmsg, n) \<Rightarrow>
               if fmsg_ApiType fmsg \<noteq> Multi
               then Ret (call_resp (Some (''call not found this server api: '' @ name)) (nd_info n) [] None, n)
               else
                 go_bind (local_call (\<lambda>s f.
                       map_go (\<lambda>(err, v). (err, Some v)) (LocalMulti exec (sv_sname s) f (map snd args)))
                     False False uuid nodename fmsg n) (\<lambda>r.
                   case r of
                     Some resp \<Rightarrow> Ret (resp, n)
                   | None \<Rightarrow> remoteMulti e pc cd uuid nodename fmsg args n)))"

section \<open>Sending to all\<close>

text \<open>The goroutine for one connection: TCP, then UDP, then HTTP, until one works.\<close>

definition send_one ::
    "net_env \<Rightarrow> 'v codec \<Rightarrow> FuncMsg \<Rightarrow> byte list \<Rightarrow> nat \<Rightarrow> nat \<Rightarrow> NodeDetail \<Rightarrow> SendRsp \<times> NodeDetail"
where
  "send_one e cd fmsg bts num p n =
     (let fid = unat (fmsg_FuncID fmsg);
          result = \<lparr>sr_Uuid = conn_uuid n p, sr_Network = [], sr_Success = False, sr_Message = []\<rparr>;
          (result, n) =
            (if nc_tconn (nd_conn n p) \<noteq> None then
               (case write_rows e (nc_tconn (nd_conn n p)) (MakeReqBody tcpsplit bts num fid) n of
                  (err, n) \<Rightarrow> (result\<lparr>sr_Network := ''TCP'', sr_Success := (err = None)\<rparr>, n))
             else (result, n));
          (result, n) =
            (if \<not> sr_Success result \<and> nc_uconn (nd_conn n p) \<noteq> None then
               (case write_rows e (nc_uconn (nd_conn n p)) (MakeReqBody udpsplit bts num fid) n of
                  (err, n) \<Rightarrow> (result\<lparr>sr_Network := ''UDP'', sr_Success := (err = None)\<rparr>, n))
             else (result, n))
      in if \<not> sr_Success result \<and> ni_Hport (conn_info n p) \<noteq> 0 then
           (case post_http e n of
              (post, n) \<Rightarrow>
                (case postHttpApi cd (fmsg_Protocal fmsg) None post of
                   (None, None, v) \<Rightarrow> (result\<lparr>sr_Network := ''HTTP'', sr_Success := True\<rparr>, n)
                 | _ \<Rightarrow> (result, n)))
         else (result, n))"

fun send_each ::
    "net_env \<Rightarrow> 'v codec \<Rightarrow> FuncMsg \<Rightarrow> byte list \<Rightarrow> nat \<Rightarrow> nat list \<Rightarrow> NodeDetail \<Rightarrow> SendRsp list \<times> NodeDetail"
where
  "send_each e cd fmsg bts num [] n = ([], n)"
| "send_each e cd fmsg bts num (p # ps) n =
     (case send_one e cd fmsg bts num p n of
        (r, n) \<Rightarrow> (case send_each e cd fmsg bts num ps n of (rs, n) \<Rightarrow> (r # rs, n)))"

text \<open>What \<open>sendall\<close> does before it starts the goroutines: the error it returns, or what they need.\<close>

definition sendall_prepare ::
    "net_env \<Rightarrow> pb_codec \<Rightarrow> 'v codec \<Rightarrow> string \<Rightarrow> 'v \<Rightarrow> NodeDetail
     \<Rightarrow> ((error + FuncMsg \<times> byte list \<times> nat \<times> nat list) \<times> NodeDetail) go"
where
  "sendall_prepare e pc cd name req n =
     (if name = '''' then Ret (Inl ''send server api name cannot be null'', n)
      else
        (case SplitApiName name of
           (nodename, apiname) \<Rightarrow>
             (case QueryFunc e pc 0 apiname n of
                (None, n) \<Rightarrow> Ret (Inl (''not found this server api: '' @ name), n)
              | (Some fmsg, n) \<Rightarrow>
                  go_bind (GetRemoteConn e pc fmsg n) (\<lambda>(conns, n).
                    if conns = [] then Ret (Inl ''not found remote node'', n)
                    else
                      (case MarshalInterface cd (fmsg_Protocal fmsg) req of
                         Inl err \<Rightarrow> Ret (Inl (''remoteCall marshal error: '' @ err), n)
                       | Inr bts \<Rightarrow>
                           (case serial (fmsg_FuncID fmsg) n of
                              (num, n) \<Rightarrow> Ret (Inr (fmsg, bts, num, conns), n)))))))"

text \<open>
  \<open>sendall\<close> with its goroutines one after the other (theory SendAll has them at once). The list of failures that
  decides about the error is never filled.
\<close>

definition sendall ::
    "net_env \<Rightarrow> pb_codec \<Rightarrow> 'v codec \<Rightarrow> string \<Rightarrow> 'v \<Rightarrow> NodeDetail \<Rightarrow> ((error option \<times> SendRsp list) \<times> NodeDetail) go"
where
  "sendall e pc cd name req n =
     go_bind (sendall_prepare e pc cd name req n) (\<lambda>(start, n).
       case start of
         Inl err \<Rightarrow> Ret ((Some err, []), n)
       | Inr (fmsg, bts, num, conns) \<Rightarrow>
           let (results, n) = send_each e cd fmsg bts num conns n; msg = ([] :: string list)
           in Ret ((if msg = [] then None
                    else Some (''list server uuid send error: ['' @ concat msg @ '']''), results), n))"

section \<open>Calls with raw bytes\<close>

definition byte_resp :: "error option \<Rightarrow> NodeInfo \<Rightarrow> string \<Rightarrow> byte list \<Rightarrow> 'v CallResp" where
  "byte_resp err msg con body = \<lparr>cr_err = err, cr_msg = msg, cr_con = con, cr_rsp = body, cr_val = None\<rparr>"

definition WaitRspByte :: "net_env \<Rightarrow> nat \<Rightarrow> nat \<Rightarrow> NodeDetail \<Rightarrow> (byte list \<times> error option) \<times> NodeDetail" where
  "WaitRspByte e p num n =
     (case wait_chan e p num n of
        (CtxDone err, n) \<Rightarrow> (([], Some err), n)
      | (Body buff, n) \<Rightarrow> ((buff, None), n)
      | (ErrChan err, n) \<Rightarrow> (([], Some err), n))"

definition byte_try ::
    "net_env \<Rightarrow> FuncMsg \<Rightarrow> byte list \<Rightarrow> nat \<Rightarrow> nat \<Rightarrow> NodeDetail \<Rightarrow> 'v CallResp option \<times> NodeDetail"
where
  "byte_try e fmsg req num p n =
     (let fid = unat (fmsg_FuncID fmsg) in
      if conn_uuid n p = ni_Uuid (nd_info n) \<or> nc_wrong (nd_conn n p) then (None, n)
      else
        (case nc_types (nd_conn n p) of
           ConnWithTCP \<Rightarrow>
             (case write_rows e (nc_tconn (nd_conn n p)) (MakeReqBody tcpsplit req num fid) n of
                (Some _, n) \<Rightarrow> (None, n)
              | (None, n) \<Rightarrow>
                  (case WaitRspByte e p num n of
                     ((body, err), n) \<Rightarrow> (Some (byte_resp err (conn_info n p) ''TCP'' body), n)))
         | ConnWithUDP \<Rightarrow>
             (case write_rows e (nc_uconn (nd_conn n p)) (MakeReqBody udpsplit req num fid) n of
                (Some _, n) \<Rightarrow> (None, n)
              | (None, n) \<Rightarrow>
                  (case WaitRspByte e p num n of
                     ((body, err), n) \<Rightarrow> (Some (byte_resp err (conn_info n p) ''UDP'' body), n)))
         | ConnWithHTTP \<Rightarrow>
             (case post_http e n of
                (Inl err, n) \<Rightarrow> (None, n)
              | (Inr resp, n) \<Rightarrow>
                  if hr_code resp = HttpReqSuccessBody
                  then (Some (byte_resp None (conn_info n p) ''UDP'' (hr_body resp)), n)
                  else if hr_code resp = HttpReqSuccessNull then (Some (byte_resp None (conn_info n p) ''UDP'' []), n)
                  else if hr_code resp = HttpReqFailMessage
                  then (Some (byte_resp (Some (string_of_bytes (hr_body resp))) (conn_info n p) ''UDP'' []), n)
                  else (None, n))
         | ConnUnset \<Rightarrow> (None, n)))"

fun byte_loop ::
    "net_env \<Rightarrow> FuncMsg \<Rightarrow> byte list \<Rightarrow> nat \<Rightarrow> nat list \<Rightarrow> NodeDetail \<Rightarrow> 'v CallResp option \<times> NodeDetail"
where
  "byte_loop e fmsg req num [] n = (None, n)"
| "byte_loop e fmsg req num (p # ps) n =
     (case byte_try e fmsg req num p n of
        (Some r, n) \<Rightarrow> (Some r, n)
      | (None, n) \<Rightarrow> byte_loop e fmsg req num ps n)"

text \<open>Asking a watcher for connections, after the label \<open>TryRemote\<close>.\<close>

definition ask_conns :: "net_env \<Rightarrow> pb_codec \<Rightarrow> FuncMsg \<Rightarrow> NodeDetail \<Rightarrow> nat list \<times> NodeDetail" where
  "ask_conns e pc fmsg n =
     (case wser_GetApiConn e pc (fmsg_FuncID fmsg) (fmsg_ApiName fmsg) n of
        ((rsp, err), n) \<Rightarrow>
          if err = None \<and> ga_List rsp \<noteq> [] then
            (case gather e False (ga_List rsp) n of
               ((ids, rows), n) \<Rightarrow> (rows, UpFuncNode (fmsg_FuncID fmsg) ids n))
          else ([], n))"

definition try_remote ::
    "net_env \<Rightarrow> pb_codec \<Rightarrow> FuncMsg \<Rightarrow> byte list \<Rightarrow> NodeDetail \<Rightarrow> 'v CallResp \<times> NodeDetail"
where
  "try_remote e pc fmsg req n =
     (case ask_conns e pc fmsg n of
        (conns, n) \<Rightarrow>
          if conns = []
          then (byte_resp (Some (''not found node to request: '' @ fmsg_ApiName fmsg)) NodeInfo_zero ''Remote'' [], n)
          else
            (case serial (fmsg_FuncID fmsg) n of
               (num, n) \<Rightarrow>
                 (case byte_loop e fmsg req num conns n of
                    (Some r, n) \<Rightarrow> (r, n)
                  | (None, n) \<Rightarrow>
                      (byte_resp (Some ''call all server node with api, but all wrong'') NodeInfo_zero ''Remote'' [], n))))"

definition CallRemoteByte ::
    "net_env \<Rightarrow> pb_codec \<Rightarrow> string \<Rightarrow> string \<Rightarrow> byte list \<Rightarrow> NodeDetail \<Rightarrow> ('v CallResp \<times> NodeDetail) go"
where
  "CallRemoteByte e pc uuid name req n =
     (case SplitApiName name of
        (nodename, apiname) \<Rightarrow>
          if apiname = '''' then Ret (byte_resp (Some ''name cannot be null'') NodeInfo_zero [] [], n)
          else
            (case Query 0 apiname n of
               None \<Rightarrow> Ret (byte_resp (Some (''not found function to request: '' @ apiname)) NodeInfo_zero ''Remote'' [], n)
             | Some d \<Rightarrow>
                 let fmsg = rd_msg (nd_data n d)
                 in go_bind (GetFuncConn 0 apiname n) (\<lambda>conns.
                      if conns = [] then Ret (try_remote e pc fmsg req n)
                      else
                        (case serial (fmsg_FuncID fmsg) n of
                           (num, n) \<Rightarrow>
                             (case byte_loop e fmsg req num conns n of
                                (Some r, n) \<Rightarrow> Ret (r, n)
                              | (None, n) \<Rightarrow> Ret (try_remote e pc fmsg req n))))))"

definition CallMultiByByte ::
    "net_env \<Rightarrow> pb_codec \<Rightarrow> string \<Rightarrow> string \<Rightarrow> byte list list \<Rightarrow> NodeDetail \<Rightarrow> ('v CallResp \<times> NodeDetail) go"
where
  "CallMultiByByte e pc uuid name args n =
     (if length args = 1 then CallRemoteByte e pc uuid name (args ! 0) n
      else if length args > 1 then
        (case pc_enc_MultiBody pc \<lparr>mb_Count = of_nat (length args), mb_Data = args\<rparr> of
           Inr bts \<Rightarrow> CallRemoteByte e pc uuid name bts n
         | Inl err \<Rightarrow>
             Ret (byte_resp (Some (''combined request body error: '' @ err)) NodeInfo_zero ''Local'' [], n))
      else Ret (byte_resp (Some ''call args cannot null'') NodeInfo_zero ''Local'' [], n))"

definition WatchSend ::
    "net_env \<Rightarrow> 'v codec \<Rightarrow> string \<Rightarrow> uint32 \<Rightarrow> byte list \<Rightarrow> NodeDetail \<Rightarrow> error option \<times> NodeDetail" where
  "WatchSend e cd uuid fid req n =
     (if uuid = '''' \<or> fid = 0 then (Some ''uuid and function id cannot be null'', n)
      else
        (case GetNodeConn n uuid of
           None \<Rightarrow> (Some ''not found this uuid'', n)
         | Some p \<Rightarrow>
             (case connsCall e cd (FuncMsg_zero\<lparr>fmsg_ApiType := Send, fmsg_FuncID := fid,
                  fmsg_Protocal := PROTO\<rparr>) req None [p] n of
                (resp, n) \<Rightarrow> (CallResp_Err resp, n))))"

definition WatchCall ::
    "net_env \<Rightarrow> 'v codec \<Rightarrow> string \<Rightarrow> uint32 \<Rightarrow> byte list \<Rightarrow> (gotype \<times> 'v) option \<Rightarrow> NodeDetail
     \<Rightarrow> (error option \<times> 'v option) \<times> NodeDetail" where
  "WatchCall e cd uuid fid req rsp n =
     (if uuid = '''' \<or> fid = 0 then ((Some ''uuid and function id cannot be null'', None), n)
      else
        (case GetNodeConn n uuid of
           None \<Rightarrow> ((Some ''not found this uuid'', None), n)
         | Some p \<Rightarrow>
             (case connsCall e cd (FuncMsg_zero\<lparr>fmsg_ApiType := Call, fmsg_FuncID := fid,
                  fmsg_Protocal := PROTO\<rparr>) req rsp [p] n of
                (resp, n) \<Rightarrow> ((CallResp_Err resp, cr_val resp), n))))"

section \<open>The public functions\<close>

text \<open>
  They fix the uuid and the context, and a timeout is a context that ends. \<open>RunServer\<close> runs once (\<open>sync.Once\<close>,
  whose flag is \<open>started\<close>): a second call reports success whatever became of the first.
\<close>

definition CallByUuid ::
    "net_env \<Rightarrow> pb_codec \<Rightarrow> 'v codec \<Rightarrow> 'v methods \<Rightarrow> string \<Rightarrow> string \<Rightarrow> 'v \<Rightarrow> (gotype \<times> 'v) option \<Rightarrow> NodeDetail
     \<Rightarrow> ('v CallResp \<times> NodeDetail) go" where
  "CallByUuid e pc cd exec uuid name req rsp n = call e pc cd exec uuid name req rsp n"

definition CallAuto ::
    "net_env \<Rightarrow> pb_codec \<Rightarrow> 'v codec \<Rightarrow> 'v methods \<Rightarrow> string \<Rightarrow> 'v \<Rightarrow> (gotype \<times> 'v) option \<Rightarrow> NodeDetail
     \<Rightarrow> ('v CallResp \<times> NodeDetail) go" where
  "CallAuto e pc cd exec name req rsp n = call e pc cd exec '''' name req rsp n"

definition SendByUuid ::
    "net_env \<Rightarrow> pb_codec \<Rightarrow> 'v codec \<Rightarrow> 'v methods \<Rightarrow> string \<Rightarrow> string \<Rightarrow> 'v \<Rightarrow> NodeDetail
     \<Rightarrow> (error option \<times> NodeDetail) go" where
  "SendByUuid e pc cd exec uuid name req n =
     map_go (\<lambda>(r, n). (CallResp_Err r, n)) (send e pc cd exec uuid name req n)"

definition SendAuto ::
    "net_env \<Rightarrow> pb_codec \<Rightarrow> 'v codec \<Rightarrow> 'v methods \<Rightarrow> string \<Rightarrow> 'v \<Rightarrow> NodeDetail \<Rightarrow> (error option \<times> NodeDetail) go" where
  "SendAuto e pc cd exec name req n =
     map_go (\<lambda>(r, n). (CallResp_Err r, n)) (send e pc cd exec '''' name req n)"

text \<open>The context of a call, its own or with a timeout, decides when a wait ends: that is the environment's answer.\<close>

definition CallAutoContext ::
    "net_env \<Rightarrow> pb_codec \<Rightarrow> 'v codec \<Rightarrow> 'v methods \<Rightarrow> string \<Rightarrow> 'v \<Rightarrow> (gotype \<times> 'v) option \<Rightarrow> NodeDetail
     \<Rightarrow> ('v CallResp \<times> NodeDetail) go" where
  "CallAutoContext e pc cd exec name req rsp n = call e pc cd exec '''' name req rsp n"

definition CallAutoTimeout ::
    "net_env \<Rightarrow> pb_codec \<Rightarrow> 'v codec \<Rightarrow> 'v methods \<Rightarrow> string \<Rightarrow> 'v \<Rightarrow> (gotype \<times> 'v) option \<Rightarrow> NodeDetail
     \<Rightarrow> ('v CallResp \<times> NodeDetail) go" where
  "CallAutoTimeout e pc cd exec name req rsp n = call e pc cd exec '''' name req rsp n"

definition SendAutoContext ::
    "net_env \<Rightarrow> pb_codec \<Rightarrow> 'v codec \<Rightarrow> 'v methods \<Rightarrow> string \<Rightarrow> 'v \<Rightarrow> NodeDetail \<Rightarrow> (error option \<times> NodeDetail) go" where
  "SendAutoContext e pc cd exec name req n =
     map_go (\<lambda>(r, n). (CallResp_Err r, n)) (send e pc cd exec '''' name req n)"

definition SendAutoTimeout ::
    "net_env \<Rightarrow> pb_codec \<Rightarrow> 'v codec \<Rightarrow> 'v methods \<Rightarrow> string \<Rightarrow> 'v \<Rightarrow> NodeDetail \<Rightarrow> (error option \<times> NodeDetail) go" where
  "SendAutoTimeout e pc cd exec name req n =
     map_go (\<lambda>(r, n). (CallResp_Err r, n)) (send e pc cd exec '''' name req n)"

definition SendAutoAll ::
    "net_env \<Rightarrow> pb_codec \<Rightarrow> 'v codec \<Rightarrow> string \<Rightarrow> 'v \<Rightarrow> NodeDetail \<Rightarrow> ((error option \<times> SendRsp list) \<times> NodeDetail) go" where
  "SendAutoAll e pc cd name req n = sendall e pc cd name req n"

definition CallMultiByUuid ::
    "net_env \<Rightarrow> pb_codec \<Rightarrow> 'v codec \<Rightarrow> 'v methods \<Rightarrow> string \<Rightarrow> string \<Rightarrow> (gotype \<times> 'v) list \<Rightarrow> NodeDetail
     \<Rightarrow> ('v CallResp \<times> NodeDetail) go" where
  "CallMultiByUuid e pc cd exec uuid name args n = multi e pc cd exec uuid name args n"

definition CallMultiAuto ::
    "net_env \<Rightarrow> pb_codec \<Rightarrow> 'v codec \<Rightarrow> 'v methods \<Rightarrow> string \<Rightarrow> (gotype \<times> 'v) list \<Rightarrow> NodeDetail
     \<Rightarrow> ('v CallResp \<times> NodeDetail) go" where
  "CallMultiAuto e pc cd exec name args n = multi e pc cd exec '''' name args n"

definition RunServer ::
    "net_env \<Rightarrow> pb_codec \<Rightarrow> error option \<Rightarrow> error option \<Rightarrow> FuncMsg list \<Rightarrow> bool \<Rightarrow> NodeDetail
     \<Rightarrow> error option \<times> bool \<times> NodeDetail" where
  "RunServer e pc tcp udp rows started n =
     (if started then (None, started, n)
      else (case runServer e pc tcp udp rows n of (err, n) \<Rightarrow> (err, True, n)))"

section \<open>What calls leave alone\<close>

lemma serial_mild: "serial fid n = (num, n') \<Longrightarrow> mild n n'"
  by (auto simp: serial_def Let_def mild_def funcs_ok_def conns_ok_def split: if_splits)

lemma WaitRsp_keeps:
  assumes "WaitRsp e cd fmsg rsp p num n = (r, n')"
  shows "keeps n n'"
proof -
  obtain w n1 where 1: "wait_chan e p num n = (w, n1)" by fastforce
  with assms have "n' = n1"
    by (cases w) (auto simp: WaitRsp_def split: option.splits if_splits sum.splits prod.splits)
  with wait_chan_keeps [OF 1] show ?thesis by simp
qed

lemma post_http_keeps: "post_http e n = (r, n') \<Longrightarrow> keeps n n'"
  by (auto simp: post_http_def keeps_def)

lemma conn_try_keeps:
  assumes "conn_try e cd fmsg bts rsp num p n = (r, n')"
  shows "keeps n n'"
proof (cases "nc_types (nd_conn n p)")
  case ConnWithHTTP
  with assms show ?thesis
    by (auto simp: conn_try_def split: if_splits prod.splits option.splits dest: post_http_keeps)
qed (use assms in \<open>auto simp: conn_try_def split: if_splits prod.splits option.splits
  dest!: write_rows_keeps WaitRsp_keeps intro: keeps_trans\<close>)

text \<open>The caller's side of an attempt over TCP, once its frames are written and the wait ends with a body.\<close>

lemma conn_try_answered:
  assumes "conn_uuid n p \<noteq> ni_Uuid (nd_info n)" "\<not> nc_wrong (nd_conn n p)" "nc_types (nd_conn n p) = ConnWithTCP"
    "write_rows e (nc_tconn (nd_conn n p)) (MakeReqBody tcpsplit bts num (unat (fmsg_FuncID fmsg))) n = (None, n1)"
    "ne_wait e (nd_ops n1) = Body rsp" "rsp \<noteq> [] \<Longrightarrow> UnmarshalInterface cd (fmsg_Protocal fmsg) t rsp = Inr x"
  shows "\<exists>n2. conn_try e cd fmsg bts (Some (t, old)) num p n =
    (Some (call_resp None (conn_info n2 p) ''TCP'' (if rsp = [] then None else Some x)), n2)"
proof -
  obtain n2 where "wait_chan e p num n1 = (Body rsp, n2)"
    using assms(5) by (simp add: wait_chan_def upd_conn_def)
  with assms show ?thesis by (simp add: conn_try_def WaitRsp_def)
qed

lemma conns_loop_keeps: "conns_loop e cd fmsg bts rsp num ps n = (r, n') \<Longrightarrow> keeps n n'"
proof (induction e cd fmsg bts rsp num ps n arbitrary: r n' rule: conns_loop.induct)
  case (2 e cd fmsg bts rsp num p ps n)
  then show ?case
    by (cases "conn_try e cd fmsg bts rsp num p n")
      (auto split: option.splits dest: conn_try_keeps intro: keeps_trans)
qed simp

lemma connsCall_mild: "connsCall e cd fmsg bts rsp conns n = (r, n') \<Longrightarrow> mild n n'"
  by (auto simp: connsCall_def split: prod.splits
      dest!: serial_mild conns_loop_keeps keeps_mild intro: mild_trans)

lemma gather_mild: "gather e put nodes n = (r, n') \<Longrightarrow> mild n n'"
proof (induction nodes arbitrary: n r n')
  case (Cons node nodes)
  define found where "found = (case GetNodeConn n (ni_Uuid node) of
      None \<Rightarrow> (None, n)
    | Some p \<Rightarrow>
        (case TestConn e (Some p) n of
           (None, n) \<Rightarrow> (Some p, if put then PutConn e p n else n)
         | (Some _, n) \<Rightarrow> (None, n)))"
  obtain c n1 where f: "found = (c, n1)" by fastforce
  have m1: "mild n n1"
  proof (cases "GetNodeConn n (ni_Uuid node)")
    case (Some p)
    obtain t n2 where t: "TestConn e (Some p) n = (t, n2)" by fastforce
    have k: "keeps n n2" by (rule TestConn_keeps [OF t])
    have "conns_ok n2 \<Longrightarrow> p < nd_conns n2"
      using Some k by (simp add: keeps_def GetNodeConn_def conns_ok_def)
    then have "mild n (PutConn e p n2)" by (rule mild_trans [OF keeps_mild [OF k] PutConn_mild])
    with f t Some keeps_mild [OF k] show ?thesis
      by (auto simp: found_def split: option.splits if_splits)
  qed (use f in \<open>simp add: found_def\<close>)
  have step: "gather e put (node # nodes) n =
    (case found of
       (Some p, n) \<Rightarrow> (case gather e put nodes n of ((ids, rows), n) \<Rightarrow> ((ni_Uuid node # ids, p # rows), n))
     | (None, n) \<Rightarrow>
         (case NodeBaseToConn e node n of
            ((Some p, None), n) \<Rightarrow>
              (case gather e put nodes (PutConn e p n) of
                 ((ids, rows), n) \<Rightarrow> ((ni_Uuid node # ids, p # rows), n))
          | (_, n) \<Rightarrow> gather e put nodes n))"
    by (simp add: found_def)
  obtain d err n3 where b: "NodeBaseToConn e node n1 = ((d, err), n3)" by (metis surj_pair)
  have m3: "mild n n3" by (rule mild_trans [OF m1 NodeBaseToConn_mild [OF b]])
  have m4: "d = Some p \<Longrightarrow> mild n (PutConn e p n3)" for p
    using b by (auto intro: mild_trans [OF m1 NodeBaseToConn_PutConn_mild])
  from Cons.prems have "(\<exists>r. gather e put nodes n1 = (r, n')) \<or>
      (\<exists>r. gather e put nodes n3 = (r, n')) \<or> (\<exists>p r. d = Some p \<and> gather e put nodes (PutConn e p n3) = (r, n'))"
    unfolding step f using b by (auto split: option.splits prod.splits)
  then show ?case
    using mild_trans [OF m1 Cons.IH] mild_trans [OF m3 Cons.IH] mild_trans [OF m4 Cons.IH] by blast
qed simp

lemma GetRemoteConn_mild:
  assumes "GetRemoteConn e pc fmsg n = Ret (rows, n')"
  shows "mild n n'"
proof -
  obtain rsp err n1 where 1: "wser_GetApiConn e pc (fmsg_FuncID fmsg) (fmsg_ApiName fmsg) n = ((rsp, err), n1)"
    by (metis surj_pair)
  have m1: "mild n n1" by (rule keeps_mild [OF wser_keeps(3) [OF 1]])
  obtain ids gs n2 where 2: "gather e False (ga_List rsp) n1 = ((ids, gs), n2)" by (metis surj_pair)
  have m2: "mild n n2" by (rule mild_trans [OF m1 gather_mild [OF 2]])
  from assms 1 2 m1 m2 mild_trans [OF m2 UpFuncNode_mild] show ?thesis
    by (auto simp: GetRemoteConn_def go_bind_Ret_iff split: if_splits)
qed

lemma GetAssignConn_mild:
  assumes "GetAssignConn e pc uuid name n = (rows, n')"
  shows "mild n n'"
proof (cases "(if uuid \<noteq> [] then GetNodeConn n uuid else None) = None \<and> name = []")
  case False
  with assms show ?thesis by (auto simp: GetAssignConn_def split: option.splits if_splits)
next
  case True
  obtain rsp err n1 where 1: "wser_GetNodeMsg e pc uuid [] n = ((rsp, err), n1)" by (metis surj_pair)
  have m1: "mild n n1" by (rule keeps_mild [OF wser_keeps(2) [OF 1]])
  define made where "made = (case gn_Data rsp of None \<Rightarrow> ((None, Some ''''), n1) | Some d \<Rightarrow> NodeBaseToConn e d n1)"
  obtain c r n2 where 2: "made = ((c, r), n2)" by (metis surj_pair)
  have m2: "mild n n2"
    using 2 m1 by (auto simp: made_def split: option.splits intro: mild_trans dest: NodeBaseToConn_mild)
  have m3: "c = Some p \<Longrightarrow> r = None \<Longrightarrow> mild n (PutConn e p n2)" for p
    using 2 by (auto simp: made_def split: option.splits intro: mild_trans [OF m1] dest: NodeBaseToConn_PutConn_mild)
  obtain ids gs n3 where 3: "gather e True (gn_List rsp) n2 = ((ids, gs), n3)" by (metis surj_pair)
  have m4: "mild n n3" by (rule mild_trans [OF m2 gather_mild [OF 3]])
  have "GetAssignConn e pc uuid name n =
    (if err \<noteq> None \<or> (gn_Data rsp = None \<and> gn_List rsp = []) then ([], n1)
     else (case ((c, r), n2) of ((Some p, None), n) \<Rightarrow> ([p], PutConn e p n) | _ \<Rightarrow> (gs, n3)))"
    unfolding GetAssignConn_def using True 1 2 3 by (auto simp: made_def [symmetric] split: option.splits)
  with assms m1 m3 m4 show ?thesis by (auto split: option.splits if_splits)
qed

lemma pick_conns_mild:
  "(if b then Ret (GetAssignConn e pc uuid nodename n) else GetRemoteConn e pc fmsg n) = Ret (conns, n') \<Longrightarrow>
    mild n n'"
  by (cases "GetAssignConn e pc uuid nodename n")
    (auto split: if_splits dest: GetRemoteConn_mild GetAssignConn_mild)

lemma pick_connsCall_mild:
  assumes "(if b then Ret (GetAssignConn e pc uuid nodename n) else GetRemoteConn e pc fmsg n) = Ret (conns, n1)"
    and "connsCall e' cd fmsg' bts rsp conns' n1 = (r, n')"
  shows "mild n n'"
  by (rule mild_trans [OF pick_conns_mild [OF assms(1)] connsCall_mild [OF assms(2)]])

lemma remoteCall_mild:
  assumes "remoteCall e pc cd uuid nodename fmsg req rsp n = Ret (r, n')"
  shows "mild n n'"
proof (cases "MarshalInterface cd (fmsg_Protocal fmsg) req")
  case (Inl err)
  with assms show ?thesis by (simp add: remoteCall_def)
next
  case (Inr bts)
  with assms obtain conns n1 where
    1: "(if uuid \<noteq> [] \<or> nodename \<noteq> [] then Ret (GetAssignConn e pc uuid nodename n)
         else GetRemoteConn e pc fmsg n) = Ret (conns, n1)"
    and 2: "n' = n1 \<or> connsCall e cd fmsg bts rsp conns n1 = (r, n')"
    unfolding remoteCall_def by (simp only: sum.case go_bind_Ret_iff) (auto split: if_splits)
  from 2 show ?thesis using pick_conns_mild [OF 1] pick_connsCall_mild [OF 1] by blast
qed

lemma remoteMulti_mild:
  assumes "remoteMulti e pc cd uuid nodename fmsg args n = Ret (r, n')"
  shows "mild n n'"
proof (cases "marshal_args cd (fmsg_Protocal fmsg) (butlast args)")
  case (Inl err)
  with assms show ?thesis by (simp add: remoteMulti_def)
next
  case (Inr data)
  with assms obtain conns n1 where
    1: "(if uuid \<noteq> [] \<or> nodename \<noteq> [] then Ret (GetAssignConn e pc uuid nodename n)
         else GetRemoteConn e pc fmsg n) = Ret (conns, n1)"
    and 2: "n' = n1 \<or> (\<exists>bts. connsCall e cd fmsg bts (Some (last args)) conns n1 = (r, n'))"
    unfolding remoteMulti_def by (simp only: sum.case go_bind_Ret_iff) (auto split: if_splits sum.splits)
  from 2 show ?thesis using pick_conns_mild [OF 1] pick_connsCall_mild [OF 1] by blast
qed

lemma call_mild:
  assumes "call e pc cd exec uuid name req rsp n = Ret (r, n')"
  shows "mild n n'"
proof -
  obtain nodename apiname where s: "SplitApiName name = (nodename, apiname)" by fastforce
  obtain q n1 where q: "QueryFunc e pc 0 apiname n = (q, n1)" by fastforce
  have m: "mild n n1" by (rule QueryFunc_mild [OF q])
  from assms s q have "n' = n \<or> n' = n1 \<or> (\<exists>f r'. remoteCall e pc cd uuid nodename f req rsp n1 = Ret (r', n'))"
    by (auto simp: call_def go_bind_Ret_iff split: if_splits option.splits)
  with m show ?thesis by (auto intro: mild_trans [OF m remoteCall_mild])
qed

lemma send_mild:
  assumes "send e pc cd exec uuid name req n = Ret (r, n')"
  shows "mild n n'"
proof -
  obtain nodename apiname where s: "SplitApiName name = (nodename, apiname)" by fastforce
  obtain q n1 where q: "QueryFunc e pc 0 apiname n = (q, n1)" by fastforce
  have m: "mild n n1" by (rule QueryFunc_mild [OF q])
  from assms s q have "n' = n \<or> n' = n1 \<or> (\<exists>f r'. remoteCall e pc cd uuid nodename f req None n1 = Ret (r', n'))"
    by (auto simp: send_def go_bind_Ret_iff split: if_splits option.splits)
  with m show ?thesis by (auto intro: mild_trans [OF m remoteCall_mild])
qed

lemma multi_mild:
  assumes "multi e pc cd exec uuid name args n = Ret (r, n')"
  shows "mild n n'"
proof -
  obtain nodename apiname where s: "SplitApiName name = (nodename, apiname)" by fastforce
  obtain q n1 where q: "QueryFunc e pc 0 apiname n = (q, n1)" by fastforce
  have m: "mild n n1" by (rule QueryFunc_mild [OF q])
  from assms s q have "n' = n \<or> n' = n1 \<or> (\<exists>f r'. remoteMulti e pc cd uuid nodename f args n1 = Ret (r', n'))"
    by (auto simp: multi_def go_bind_Ret_iff split: if_splits option.splits)
  with m show ?thesis by (auto intro: mild_trans [OF m remoteMulti_mild])
qed

lemma send_one_keeps:
  assumes "send_one e cd fmsg bts num p n = (r, n')"
  shows "keeps n n'"
proof -
  obtain a n1 where 1: "write_rows e (nc_tconn (nd_conn n p)) (MakeReqBody tcpsplit bts num (unat (fmsg_FuncID fmsg))) n
      = (a, n1)" by fastforce
  have k1: "keeps n n1" by (rule write_rows_keeps [OF 1])
  have k2: "keeps n k \<Longrightarrow> write_rows e s rows k = (b, k') \<Longrightarrow> keeps n k'" for k k' s rows b
    by (rule keeps_trans [OF _ write_rows_keeps])
  have k3: "keeps n k \<Longrightarrow> post_http e k = (b, k') \<Longrightarrow> keeps n k'" for k k' b
    by (rule keeps_trans [OF _ post_http_keeps])
  show ?thesis
    using assms 1 k1
    by (auto simp: send_one_def Let_def split: if_splits prod.splits option.splits
        dest: k2 k3 write_rows_keeps post_http_keeps)
qed

lemma send_each_keeps: "send_each e cd fmsg bts num ps n = (rs, n') \<Longrightarrow> keeps n n' \<and> length rs = length ps"
proof (induction ps arbitrary: n rs)
  case (Cons p ps)
  then show ?case
    by (auto split: prod.splits dest!: send_one_keeps intro: keeps_trans)
qed simp

lemma sendall_prepare_mild:
  assumes "sendall_prepare e pc cd name req n = Ret (r, n')"
  shows "mild n n' \<and> (\<forall>fmsg bts num conns. r = Inr (fmsg, bts, num, conns) \<longrightarrow> conns \<noteq> [])"
proof -
  obtain nodename apiname where s: "SplitApiName name = (nodename, apiname)" by fastforce
  obtain q n1 where q: "QueryFunc e pc 0 apiname n = (q, n1)" by fastforce
  have m: "mild n n1" by (rule QueryFunc_mild [OF q])
  have g: "GetRemoteConn e pc f n1 = Ret (rows, n2) \<Longrightarrow> mild n n2" for f rows n2
    by (rule mild_trans [OF m GetRemoteConn_mild])
  have e: "mild n k \<Longrightarrow> serial fid k = (num, k') \<Longrightarrow> mild n k'" for k k' fid num
    by (meson mild_trans serial_mild)
  from assms s q m show ?thesis
    by (auto simp: sendall_prepare_def go_bind_Ret_iff split: if_splits option.splits sum.splits prod.splits dest: g e)
qed

lemma sendall_cases:
  assumes "sendall e pc cd name req n = Ret ((err, results), n')"
  obtains (fails) msg where "sendall_prepare e pc cd name req n = Ret (Inl msg, n')" "err = Some msg" "results = []"
  | (sends) fmsg bts num conns n1 where "sendall_prepare e pc cd name req n = Ret (Inr (fmsg, bts, num, conns), n1)"
      "send_each e cd fmsg bts num conns n1 = (results, n')" "err = None"
proof -
  obtain start n1 where p: "sendall_prepare e pc cd name req n = Ret (start, n1)"
    using assms by (auto simp: sendall_def go_bind_Ret_iff)
  show ?thesis
  proof (cases start)
    case (Inl msg)
    with assms p that(1) show ?thesis by (simp add: sendall_def)
  next
    case (Inr x)
    obtain fmsg bts num conns where x: "x = (fmsg, bts, num, conns)" by (cases x) auto
    obtain rs k where "send_each e cd fmsg bts num conns n1 = (rs, k)" by fastforce
    with assms p Inr x that(2) show ?thesis by (simp add: sendall_def)
  qed
qed

lemma sendall_mild:
  assumes "sendall e pc cd name req n = Ret (r, n')"
  shows "mild n n'"
proof -
  obtain err results where "sendall e pc cd name req n = Ret ((err, results), n')" using assms by (cases r) simp
  then show ?thesis
  proof (cases rule: sendall_cases)
    case fails
    show ?thesis using sendall_prepare_mild [OF fails(1)] by simp
  next
    case (sends fmsg bts num conns n1)
    have "mild n1 n'" using send_each_keeps [OF sends(2)] by (simp add: keeps_mild)
    with sendall_prepare_mild [OF sends(1)] show ?thesis using mild_trans by blast
  qed
qed

text \<open>Calls with raw bytes ask the cache only, so they never leave the node.\<close>

lemma CallRemoteByte_fails:
  "funcs_ok n \<Longrightarrow> \<exists>r. CallRemoteByte e pc uuid name req n = Ret (r, n) \<and> cr_err r \<noteq> None"
  by (auto simp: CallRemoteByte_def byte_resp_def Query_misses split: prod.splits)

lemma CallMultiByByte_fails:
  "funcs_ok n \<Longrightarrow> \<exists>r. CallMultiByByte e pc uuid name args n = Ret (r, n) \<and> cr_err r \<noteq> None"
  using CallRemoteByte_fails [of n e pc uuid name]
  by (auto simp: CallMultiByByte_def byte_resp_def split: sum.splits)

lemma WatchSend_mild: "WatchSend e cd uuid fid req n = (r, n') \<Longrightarrow> mild n n'"
  by (auto simp: WatchSend_def split: if_splits option.splits prod.splits dest: connsCall_mild)

lemma WatchCall_mild: "WatchCall e cd uuid fid req rsp n = (r, n') \<Longrightarrow> mild n n'"
  by (auto simp: WatchCall_def split: if_splits option.splits prod.splits dest: connsCall_mild)

end
