(* ===== verification/Buffers.thy ===== *)
theory Buffers
  imports Transport
begin

text \<open>
  The buffers that the read loops of all connections of a program share: the pools of network/rpc/tcp.go and
  network/rpc/udp.go (\<open>NewTcpBuffer\<close>, \<open>PutTcpBuffer\<close>, \<open>NewUdpBuffer\<close>, \<open>PutUdpBuffer\<close>), the loops that fill a
  buffer (\<open>tcpAccept\<close>, \<open>UdpListen\<close>, \<open>ReadRespTCP\<close>, \<open>ReadRespUDP\<close>) and the goroutines that decode it and put it back.

  A buffer is an address into a store; loops and goroutines hold addresses. \<open>sync.Pool\<close> may give any of its
  buffers or a new one, and may drop buffers at any time. The state keeps two histories of every connection:
  what its reads returned, and the contents of its buffers at the moment they were decoded. A client decodes in its read loop,
  which is one of the schedules.
\<close>

section \<open>Pools\<close>

record buffers =
  bf_heap :: "nat \<Rightarrow> byte list"
  bf_fresh :: nat
  bf_pool :: "nat list"
  bf_read :: "(nat \<times> nat \<times> nat) list"
  bf_go :: "(nat \<times> nat) list"
  bf_put :: "nat list"
  bf_closed :: "nat set"
  bf_in :: "nat \<Rightarrow> byte list list"
  bf_parsed :: "nat \<Rightarrow> byte list list"

text \<open>A loop holds a connection, a buffer and the number of bytes read so far; a goroutine a connection and a buffer.\<close>

definition no_buffers :: buffers where
  "no_buffers = \<lparr>bf_heap = (\<lambda>_. []), bf_fresh = 0, bf_pool = [], bf_read = [], bf_go = [], bf_put = [], bf_closed = {},
     bf_in = (\<lambda>_. []), bf_parsed = (\<lambda>_. [])\<rparr>"

text \<open>\<open>New\<close> of the pool, for the connection \<open>i\<close>.\<close>

definition NewBuffer :: "nat \<Rightarrow> nat \<Rightarrow> buffers \<Rightarrow> buffers" where
  "NewBuffer tot i s =
     s\<lparr>bf_heap := (bf_heap s)(bf_fresh s := replicate tot 0), bf_fresh := Suc (bf_fresh s),
       bf_read := (i, bf_fresh s, 0) # bf_read s\<rparr>"

definition PutBuffer :: "nat \<Rightarrow> nat \<Rightarrow> buffers \<Rightarrow> buffers" where
  "PutBuffer tot p s =
     s\<lparr>bf_heap := (bf_heap s)(p := go_copy (bf_heap s p) (replicate tot 0)), bf_pool := p # bf_pool s\<rparr>"

text \<open>The two pools, by the size of their buffers.\<close>

definition NewTcpBuffer :: "nat \<Rightarrow> buffers \<Rightarrow> buffers" where
  "NewTcpBuffer = NewBuffer (TotalSize tcpsplit)"

definition PutTcpBuffer :: "nat \<Rightarrow> buffers \<Rightarrow> buffers" where
  "PutTcpBuffer = PutBuffer (TotalSize tcpsplit)"

definition NewUdpBuffer :: "nat \<Rightarrow> buffers \<Rightarrow> buffers" where
  "NewUdpBuffer = NewBuffer (TotalSize udpsplit)"

definition PutUdpBuffer :: "nat \<Rightarrow> buffers \<Rightarrow> buffers" where
  "PutUdpBuffer = PutBuffer (TotalSize udpsplit)"

text \<open>\<open>conn.Read(buff.Data[k:])\<close> that returns the bytes \<open>c\<close>, and \<open>conn.ReadFromUDP(buff.Data)\<close> on a datagram,
  which drops what does not fit.\<close>

definition read_at :: "nat \<Rightarrow> byte list \<Rightarrow> byte list \<Rightarrow> byte list" where
  "read_at k c b = take k b @ go_copy (drop k b) c"

definition got :: "nat \<Rightarrow> byte list \<Rightarrow> nat \<Rightarrow> byte list \<Rightarrow> buffers \<Rightarrow> buffers" where
  "got p b i c s = s\<lparr>bf_heap := (bf_heap s)(p := b), bf_in := (bf_in s)(i := bf_in s i @ [c])\<rparr>"

section \<open>Steps\<close>

inductive buf_step :: "bool \<Rightarrow> nat \<Rightarrow> buffers \<Rightarrow> buffers \<Rightarrow> bool" for udp tot where
  gets: "buf_step udp tot s (s\<lparr>bf_pool := ps @ qs, bf_read := (i, p, 0) # bf_read s\<rparr>)"
    if "bf_pool s = ps @ p # qs" "i \<notin> bf_closed s" "i \<notin> fst ` set (bf_read s)"
| makes: "buf_step udp tot s (NewBuffer tot i s)"
    if "i \<notin> bf_closed s" "i \<notin> fst ` set (bf_read s)"
| reads: "buf_step udp tot s (got p (read_at k c (bf_heap s p)) i c (s\<lparr>bf_read := as @ (i, p, k + length c) # bs\<rparr>))"
    if "\<not> udp" "bf_read s = as @ (i, p, k) # bs" "k + length c < tot"
| fills: "buf_step udp tot s (got p (read_at k c (bf_heap s p)) i c (s\<lparr>bf_read := as @ bs, bf_go := (i, p) # bf_go s\<rparr>))"
    if "\<not> udp" "bf_read s = as @ (i, p, k) # bs" "k + length c = tot"
| datagrams: "buf_step udp tot s (got p (read_at k d (bf_heap s p)) i d (s\<lparr>bf_read := as @ bs, bf_go := (i, p) # bf_go s\<rparr>))"
    if "udp" "bf_read s = as @ (i, p, k) # bs"
| skips: "buf_step udp tot s (PutBuffer tot p (s\<lparr>bf_heap := (bf_heap s)(p := read_at k d (bf_heap s p)), bf_read := as @ bs\<rparr>))"
    if "udp" "bf_read s = as @ (i, p, k) # bs" "length d < tot"
| fails: "buf_step udp tot s (PutBuffer tot p (s\<lparr>bf_read := as @ bs, bf_closed := insert i (bf_closed s)\<rparr>))"
    if "bf_read s = as @ (i, p, k) # bs"
| parses: "buf_step udp tot s
      (s\<lparr>bf_go := as @ bs, bf_put := p # bf_put s, bf_parsed := (bf_parsed s)(i := bf_parsed s i @ [bf_heap s p])\<rparr>)"
    if "bf_go s = as @ (i, p) # bs"
| puts: "buf_step udp tot s (PutBuffer tot p (s\<lparr>bf_put := as @ bs\<rparr>))"
    if "bf_put s = as @ p # bs"
| leaks: "buf_step udp tot s (s\<lparr>bf_put := as @ bs\<rparr>)"
    if "udp" "bf_put s = as @ p # bs"
| drops: "buf_step udp tot s (s\<lparr>bf_pool := ps @ qs\<rparr>)"
    if "bf_pool s = ps @ p # qs"

abbreviation buf_reachable :: "bool \<Rightarrow> nat \<Rightarrow> buffers \<Rightarrow> bool" where
  "buf_reachable udp tot s \<equiv> (buf_step udp tot)\<^sup>*\<^sup>* no_buffers s"

section \<open>Every buffer has one owner\<close>

definition owned :: "buffers \<Rightarrow> nat list" where
  "owned s = bf_pool s @ map (fst \<circ> snd) (bf_read s) @ map snd (bf_go s) @ bf_put s"

definition owners_ok :: "nat \<Rightarrow> buffers \<Rightarrow> bool" where
  "owners_ok tot s \<longleftrightarrow> distinct (owned s) \<and> (\<forall>p \<in> set (owned s). p < bf_fresh s \<and> length (bf_heap s p) = tot) \<and>
     distinct (map fst (bf_read s))"

lemma length_read_at [simp]: "length (read_at k c b) = length b"
  by (simp add: read_at_def)

lemma distinct_sub:
  assumes "distinct xs" and "mset ys \<subseteq># mset xs"
  shows "distinct ys"
proof -
  obtain zs where "mset zs = mset xs - mset ys" using ex_mset by blast
  with assms(2) have "mset (ys @ zs) = mset xs" by (simp add: subset_mset.add_diff_inverse)
  from mset_eq_imp_distinct_iff [OF this] assms(1) show ?thesis by simp
qed

lemma owners_sub:
  assumes "owners_ok tot s" and "mset (owned s') \<subseteq># mset (owned s)" and "bf_fresh s' = bf_fresh s"
    and "\<forall>p. length (bf_heap s' p) = length (bf_heap s p)" and "mset (map fst (bf_read s')) \<subseteq># mset (map fst (bf_read s))"
  shows "owners_ok tot s'"
  using assms distinct_sub [OF _ assms(2)] distinct_sub [OF _ assms(5)] set_mset_mono [OF assms(2)]
  by (auto simp: owners_ok_def)

lemma owners_new:
  assumes "owners_ok tot s" and "i \<notin> fst ` set (bf_read s)"
  shows "owners_ok tot (NewBuffer tot i s)"
proof -
  have m: "mset (owned (NewBuffer tot i s)) = mset (bf_fresh s # owned s)"
    by (simp add: owned_def NewBuffer_def)
  have new: "bf_fresh s \<notin> set (owned s)" using assms(1) by (auto simp: owners_ok_def)
  have "distinct (owned (NewBuffer tot i s))"
    using mset_eq_imp_distinct_iff [OF m] new assms(1) by (simp add: owners_ok_def)
  moreover have "\<forall>p \<in> set (owned (NewBuffer tot i s)).
      p < bf_fresh (NewBuffer tot i s) \<and> length (bf_heap (NewBuffer tot i s) p) = tot"
    using assms(1) new unfolding mset_eq_setD [OF m] by (auto simp: owners_ok_def NewBuffer_def)
  ultimately show ?thesis using assms by (simp add: owners_ok_def NewBuffer_def)
qed

lemma owners_step: "buf_step udp tot s s' \<Longrightarrow> owners_ok tot s \<Longrightarrow> owners_ok tot s'"
proof (induction rule: buf_step.induct)
  case (gets s ps p qs i)
  then show ?case by (auto simp: owners_ok_def owned_def)
next
  case (makes i s)
  then show ?case by (simp add: owners_new)
qed (erule owners_sub; simp add: owned_def PutBuffer_def got_def)+

section \<open>What the loops hand on is what was read\<close>

text \<open>The buffers that the reads of a connection fill: the stream cut into buffers, or every datagram in a buffer of its own.\<close>

definition frames_read :: "bool \<Rightarrow> nat \<Rightarrow> byte list list \<Rightarrow> byte list list" where
  "frames_read udp tot cs = (if udp then map (go_copy (replicate tot 0)) cs else cut tot (concat cs))"

definition pending :: "buffers \<Rightarrow> nat \<Rightarrow> byte list list" where
  "pending s i = map (bf_heap s \<circ> snd) (filter (\<lambda>x. fst x = i) (bf_go s))"

definition reading_ok :: "bool \<Rightarrow> nat \<Rightarrow> byte list list \<Rightarrow> nat \<Rightarrow> byte list \<Rightarrow> bool" where
  "reading_ok udp tot cs k b \<longleftrightarrow>
     (if udp then k = 0 \<and> b = replicate tot 0 else k < tot \<and> (\<exists>xs. concat cs = xs @ take k b \<and> tot dvd length xs))"

definition buffers_ok :: "bool \<Rightarrow> nat \<Rightarrow> buffers \<Rightarrow> bool" where
  "buffers_ok udp tot s \<longleftrightarrow> 0 < tot \<and> owners_ok tot s \<and>
     (\<forall>p \<in> set (bf_pool s). bf_heap s p = replicate tot 0) \<and>
     (\<forall>(i, p, k) \<in> set (bf_read s). reading_ok udp tot (bf_in s i) k (bf_heap s p)) \<and>
     (\<forall>i. \<not> udp \<and> i \<notin> bf_closed s \<and> i \<notin> fst ` set (bf_read s) \<longrightarrow> tot dvd length (concat (bf_in s i))) \<and>
     (\<forall>i. mset (bf_parsed s i @ pending s i) = mset (frames_read udp tot (bf_in s i)))"

lemma cut_append: "tot dvd length xs \<Longrightarrow> cut tot (xs @ ys) = cut tot xs @ cut tot ys"
proof (induction tot xs rule: cut.induct)
  case (1 tot xs)
  show ?case
  proof (cases "tot = 0 \<or> length xs < tot")
    case True
    with 1(2) have "tot = 0 \<or> xs = []" by (auto dest: dvd_imp_le)
    then show ?thesis by (auto simp: cut.simps [of 0] cut.simps [of tot "[]"])
  next
    case False
    with 1(2) have "tot dvd length (drop tot xs)" by (simp add: dvd_diff_nat)
    with 1(1) False show ?thesis by (simp add: cut.simps [of tot xs] cut.simps [of tot "xs @ ys"])
  qed
qed

lemma cut_short: "length ys < tot \<Longrightarrow> cut tot ys = []"
  by (simp add: cut.simps)

lemma cut_one: "0 < tot \<Longrightarrow> length ys = tot \<Longrightarrow> cut tot ys = [ys]"
  by (simp add: cut.simps [of tot ys] cut.simps [of tot "[]"])

lemma read_at_eq: "k + length c \<le> length b \<Longrightarrow> read_at k c b = take k b @ c @ drop (k + length c) b"
  by (simp add: read_at_def go_copy_def add.commute)

lemma go_copy_full: "length b = length c \<Longrightarrow> go_copy b c = c"
  by (simp add: go_copy_def)

lemma reading_alone:
  assumes "owners_ok tot s" and "bf_read s = as @ (i, p, k) # bs"
  shows "p \<notin> set (bf_pool s)" and "p \<notin> snd ` set (bf_go s)" and "i \<notin> fst ` set as" and "i \<notin> fst ` set bs"
    and "length (bf_heap s p) = tot"
    and "\<forall>j q m. (j, q, m) \<in> set as \<or> (j, q, m) \<in> set bs \<longrightarrow> q \<noteq> p \<and> j \<noteq> i"
    and "p \<notin> set (map (fst \<circ> snd) (as @ bs))"
proof -
  have *: "distinct (owned s)" "distinct (map fst (as @ (i, p, k) # bs))" "\<forall>p \<in> set (owned s). length (bf_heap s p) = tot"
    using assms by (simp_all add: owners_ok_def)
  show "p \<notin> set (bf_pool s)" "p \<notin> snd ` set (bf_go s)" "i \<notin> fst ` set as" "i \<notin> fst ` set bs" "length (bf_heap s p) = tot"
    using * assms(2) by (simp_all add: owned_def)
  show p: "p \<notin> set (map (fst \<circ> snd) (as @ bs))"
    using * assms(2) by (auto simp: owned_def)
  moreover have "i \<notin> set (map fst (as @ bs))"
    using * assms(2) by (auto simp: owned_def)
  ultimately show "\<forall>j q m. (j, q, m) \<in> set as \<or> (j, q, m) \<in> set bs \<longrightarrow> q \<noteq> p \<and> j \<noteq> i" by force
qed

lemma pending_upd: "p \<notin> snd ` set (bf_go s) \<Longrightarrow>
    map ((bf_heap s)(p := b) \<circ> snd) (filter (\<lambda>x. fst x = i) (bf_go s)) = pending s i"
  by (force simp: pending_def)

lemma frames_read_more:
  assumes "reading_ok udp tot cs k b" and "length b = tot" and "0 < tot"
  shows "\<not> udp \<Longrightarrow> k + length c < tot \<Longrightarrow> frames_read udp tot (cs @ [c]) = frames_read udp tot cs \<and>
      reading_ok udp tot (cs @ [c]) (k + length c) (read_at k c b)"
    and "\<not> udp \<Longrightarrow> k + length c = tot \<Longrightarrow> frames_read udp tot (cs @ [c]) = frames_read udp tot cs @ [read_at k c b] \<and>
      tot dvd length (concat (cs @ [c]))"
    and "udp \<Longrightarrow> frames_read udp tot (cs @ [c]) = frames_read udp tot cs @ [read_at k c b]"
proof -
  assume tcp: "\<not> udp"
  then obtain xs where xs: "concat cs = xs @ take k b" "tot dvd length xs" and k: "k < tot"
    using assms(1) by (auto simp: reading_ok_def)
  have old: "cut tot (concat cs) = cut tot xs"
    using xs k assms(2) by (simp add: cut_append cut_short)
  have new: "cut tot (concat cs @ c) = cut tot xs @ cut tot (take k b @ c)"
    using xs by (simp add: cut_append)
  {
    assume "k + length c < tot"
    with xs k assms(2) tcp old new show "frames_read udp tot (cs @ [c]) = frames_read udp tot cs \<and>
        reading_ok udp tot (cs @ [c]) (k + length c) (read_at k c b)"
      by (auto simp: frames_read_def reading_ok_def cut_short read_at_eq)
  }
  {
    assume full: "k + length c = tot"
    have "length (concat (cs @ [c])) = length xs + tot" using xs k full assms(2) by simp
    then have "tot dvd length (concat (cs @ [c]))" using xs(2) by (simp only: dvd_add dvd_refl)
    with full xs k assms(2,3) tcp old new show "frames_read udp tot (cs @ [c]) = frames_read udp tot cs @ [read_at k c b] \<and>
        tot dvd length (concat (cs @ [c]))"
      by (simp add: frames_read_def cut_one read_at_eq)
  }
qed (use assms in \<open>auto simp: frames_read_def reading_ok_def read_at_def\<close>)

lemma buffers_okD:
  assumes "buffers_ok udp tot s"
  shows "0 < tot" "owners_ok tot s" "p \<in> set (bf_pool s) \<Longrightarrow> bf_heap s p = replicate tot 0"
    "(i, p, k) \<in> set (bf_read s) \<Longrightarrow> reading_ok udp tot (bf_in s i) k (bf_heap s p)"
    "\<not> udp \<Longrightarrow> i \<notin> bf_closed s \<Longrightarrow> i \<notin> fst ` set (bf_read s) \<Longrightarrow> tot dvd length (concat (bf_in s i))"
    "mset (bf_parsed s i) + mset (pending s i) = mset (frames_read udp tot (bf_in s i))"
  using assms by (auto simp: buffers_ok_def)

lemma taken_ok:
  assumes "buffers_ok udp tot s" and "i \<notin> bf_closed s" and "i \<notin> fst ` set (bf_read s)"
  shows "reading_ok udp tot (bf_in s i) 0 (replicate tot 0)"
  using buffers_okD(1) [OF assms(1)] buffers_okD(5) [OF assms(1) _ assms(2,3)] by (simp add: reading_ok_def)

text \<open>A step that reads into the buffer \<open>p\<close> of the connection \<open>i\<close>.\<close>

lemma got_ok:
  assumes ok: "buffers_ok udp tot s" and r: "bf_read s = as @ (i, p, k) # bs"
    and new: "length b = tot" "frames_read udp tot (bf_in s i @ [c]) = frames_read udp tot (bf_in s i) @ fs"
    and next_read: "rs = (i, p, m) # as @ bs \<and> fs = [] \<and> gs = bf_go s \<and> reading_ok udp tot (bf_in s i @ [c]) m b \<or>
      rs = as @ bs \<and> fs = [b] \<and> gs = (i, p) # bf_go s \<and> (\<not> udp \<longrightarrow> tot dvd length (concat (bf_in s i @ [c])))"
    and rs: "mset rs' = mset rs" and own: "owners_ok tot (got p b i c (s\<lparr>bf_read := rs', bf_go := gs\<rparr>))"
  shows "buffers_ok udp tot (got p b i c (s\<lparr>bf_read := rs', bf_go := gs\<rparr>))"
proof -
  let ?s = "got p b i c (s\<lparr>bf_read := rs', bf_go := gs\<rparr>)"
  note alone = reading_alone [OF buffers_okD(2) [OF ok] r]
  have set: "set rs' = set rs" using rs by (rule mset_eq_setD)
  have heap: "bf_heap ?s q = (if q = p then b else bf_heap s q)" "bf_in ?s j = (if j = i then bf_in s i @ [c] else bf_in s j)" for q j
    by (simp_all add: got_def)
  have "reading_ok udp tot (bf_in ?s j) n (bf_heap ?s q)" if "(j, q, n) \<in> set rs'" for j q n
    using that next_read alone(6) [rule_format, of j q n] buffers_okD(4) [OF ok, of j q n] unfolding set heap r by auto
  moreover have "tot dvd length (concat (bf_in ?s j))" if "\<not> udp" "j \<notin> bf_closed s" "j \<notin> fst ` set rs'" for j
    using that next_read buffers_okD(5) [OF ok, of j] alone(3,4) unfolding set heap r by (auto split: if_splits)
  moreover have "mset (bf_parsed s j) + mset (pending ?s j) = mset (frames_read udp tot (bf_in ?s j))" for j
  proof -
    have "pending ?s j = (if j = i then fs @ pending s j else pending s j)"
      using next_read pending_upd [OF alone(2), of b j] by (auto simp: pending_def got_def)
    with buffers_okD(6) [OF ok, of j] new(2) show ?thesis by (auto simp: heap)
  qed
  moreover have "bf_heap ?s q = replicate tot 0" if "q \<in> set (bf_pool s)" for q
    using that buffers_okD(3) [OF ok, of q] alone(1) by (auto simp: heap)
  ultimately show ?thesis
    using own buffers_okD(1) [OF ok] by (auto simp: buffers_ok_def got_def)
qed

text \<open>A step that puts the buffer \<open>p\<close> back, which neither a loop nor a goroutine holds any more.\<close>

lemma put_back_ok:
  assumes ok: "buffers_ok udp tot s" and p: "p \<notin> snd ` set (bf_go s)" "length (bf_heap s' p) = tot"
    and own: "owners_ok tot (PutBuffer tot p s')"
    and s': "bf_pool s' = bf_pool s" "bf_go s' = bf_go s" "bf_in s' = bf_in s" "bf_parsed s' = bf_parsed s"
      "\<forall>q. q \<noteq> p \<longrightarrow> bf_heap s' q = bf_heap s q" "bf_closed s \<subseteq> bf_closed s'"
    and reads: "set (bf_read s') \<subseteq> set (bf_read s)" "p \<notin> set (map (fst \<circ> snd) (bf_read s'))"
      "\<not> udp \<longrightarrow> fst ` set (bf_read s) \<subseteq> bf_closed s' \<union> fst ` set (bf_read s')"
  shows "buffers_ok udp tot (PutBuffer tot p s')"
proof -
  let ?s = "PutBuffer tot p s'"
  have heap: "bf_heap ?s q = (if q = p then replicate tot 0 else bf_heap s q)" for q
    using p(2) s'(5) by (auto simp: PutBuffer_def go_copy_full)
  have fields: "bf_pool ?s = p # bf_pool s" "bf_go ?s = bf_go s" "bf_in ?s = bf_in s" "bf_parsed ?s = bf_parsed s"
    "bf_closed ?s = bf_closed s'" "bf_read ?s = bf_read s'"
    using s' by (simp_all add: PutBuffer_def)
  have "pending ?s j = pending s j" for j
    using p(1) by (force simp: pending_def fields heap)
  moreover have "reading_ok udp tot (bf_in s j) n (bf_heap ?s q)" if "(j, q, n) \<in> set (bf_read s')" for j q n
    using that reads(1,2) buffers_okD(4) [OF ok, of j q n] by (force simp: heap)
  moreover have "tot dvd length (concat (bf_in s j))" if "\<not> udp" "j \<notin> bf_closed s'" "j \<notin> fst ` set (bf_read s')" for j
    using that reads(3) s'(6) buffers_okD(5) [OF ok, of j] by blast
  ultimately show ?thesis
    using own buffers_okD(1) [OF ok] buffers_okD(3) [OF ok] buffers_okD(6) [OF ok]
    by (auto simp: buffers_ok_def fields heap)
qed

lemma put_alone:
  assumes "owners_ok tot s" and "bf_put s = as @ p # bs"
  shows "p \<notin> snd ` set (bf_go s)" and "p \<notin> set (map (fst \<circ> snd) (bf_read s))" and "length (bf_heap s p) = tot"
proof -
  have *: "distinct (owned s)" "length (bf_heap s p) = tot"
    using assms by (simp_all add: owners_ok_def owned_def)
  show "p \<notin> snd ` set (bf_go s)" "length (bf_heap s p) = tot"
    using * assms(2) by (simp_all add: owned_def)
  show "p \<notin> set (map (fst \<circ> snd) (bf_read s))"
    using * assms(2) by (simp add: owned_def)
qed

lemma new_ok:
  assumes ok: "buffers_ok udp tot s" and i: "i \<notin> bf_closed s" "i \<notin> fst ` set (bf_read s)"
  shows "buffers_ok udp tot (NewBuffer tot i s)"
proof -
  have "bf_fresh s \<notin> set (owned s)" using buffers_okD(2) [OF ok] by (auto simp: owners_ok_def)
  then have new: "bf_fresh s \<notin> snd ` set (bf_go s)" "bf_fresh s \<notin> set (bf_pool s)"
      "\<forall>(j, q, n) \<in> set (bf_read s). q \<noteq> bf_fresh s"
    by (force simp: owned_def)+
  have "pending (NewBuffer tot i s) j = pending s j" for j
    using pending_upd [OF new(1), of "replicate tot 0" j] by (simp add: pending_def NewBuffer_def)
  with owners_new [OF buffers_okD(2) [OF ok] i(2)] new taken_ok [OF ok i] buffers_okD [OF ok] show ?thesis
    by (auto simp: buffers_ok_def NewBuffer_def)
qed

lemma read_ok:
  assumes ok: "buffers_ok udp tot s" and r: "bf_read s = as @ (i, p, k) # bs"
    and b: "b = read_at k c (bf_heap s p)"
  shows "\<not> udp \<Longrightarrow> k + length c < tot \<Longrightarrow> owners_ok tot (got p b i c (s\<lparr>bf_read := as @ (i, p, k + length c) # bs\<rparr>)) \<Longrightarrow>
      buffers_ok udp tot (got p b i c (s\<lparr>bf_read := as @ (i, p, k + length c) # bs\<rparr>))"
    and "udp \<or> k + length c = tot \<Longrightarrow> owners_ok tot (got p b i c (s\<lparr>bf_read := as @ bs, bf_go := (i, p) # bf_go s\<rparr>)) \<Longrightarrow>
      buffers_ok udp tot (got p b i c (s\<lparr>bf_read := as @ bs, bf_go := (i, p) # bf_go s\<rparr>))"
proof -
  have len: "length (bf_heap s p) = tot" using reading_alone [OF buffers_okD(2) [OF ok] r] by simp
  have "reading_ok udp tot (bf_in s i) k (bf_heap s p)" using buffers_okD(4) [OF ok, of i p k] r by simp
  note more = frames_read_more [OF this len buffers_okD(1) [OF ok], of c]
  {
    assume "\<not> udp" "k + length c < tot" "owners_ok tot (got p b i c (s\<lparr>bf_read := as @ (i, p, k + length c) # bs\<rparr>))"
    with more(1) len show "buffers_ok udp tot (got p b i c (s\<lparr>bf_read := as @ (i, p, k + length c) # bs\<rparr>))"
      by (intro got_ok [OF ok r, where fs = "[]" and gs = "bf_go s" and m = "k + length c"
            and rs = "(i, p, k + length c) # as @ bs", simplified]) (simp_all add: b)
  }
  assume "udp \<or> k + length c = tot" "owners_ok tot (got p b i c (s\<lparr>bf_read := as @ bs, bf_go := (i, p) # bf_go s\<rparr>))"
  with more(2,3) len show "buffers_ok udp tot (got p b i c (s\<lparr>bf_read := as @ bs, bf_go := (i, p) # bf_go s\<rparr>))"
    by (cases udp; intro got_ok [OF ok r, where fs = "[b]"]) (auto simp: b)
qed

lemma parses_ok:
  assumes ok: "buffers_ok udp tot s" and g: "bf_go s = as @ (i, p) # bs"
  defines "s' \<equiv> s\<lparr>bf_go := as @ bs, bf_put := p # bf_put s, bf_parsed := (bf_parsed s)(i := bf_parsed s i @ [bf_heap s p])\<rparr>"
  assumes "owners_ok tot s'"
  shows "buffers_ok udp tot s'"
proof -
  have "mset (bf_parsed s' j) + mset (pending s' j) = mset (frames_read udp tot (bf_in s j))" for j
    using buffers_okD(6) [OF ok, of j] g by (cases "j = i") (simp_all add: pending_def s'_def)
  with assms(4) buffers_okD(1-5) [OF ok] show ?thesis by (auto simp: buffers_ok_def s'_def)
qed

lemma buffers_step: "buf_step udp tot s s' \<Longrightarrow> buffers_ok udp tot s \<Longrightarrow> buffers_ok udp tot s'"
proof -
  assume "buf_step udp tot s s'" "buffers_ok udp tot s"
  moreover from this have "owners_ok tot s'" using buffers_okD(2) owners_step by blast
  ultimately show ?thesis
  proof (induction rule: buf_step.induct)
    case (gets s ps p qs i)
    then show ?case
      using taken_ok [of udp tot s i] buffers_okD(3) [of udp tot s p] by (auto simp: buffers_ok_def pending_def)
  next
    case (skips s as i p k bs d)
    note alone = reading_alone [OF buffers_okD(2) [OF skips(4)] skips(2)]
    show ?case
      using skips(1,2,5) alone by (intro put_back_ok [OF skips(4) alone(2)]) (auto simp: PutBuffer_def)
  next
    case (fails s as i p k bs)
    note alone = reading_alone [OF buffers_okD(2) [OF fails(2)] fails(1)]
    show ?case
      using fails(1,3) alone by (intro put_back_ok [OF fails(2) alone(2)]) (auto simp: PutBuffer_def)
  next
    case (puts s as p bs)
    note alone = put_alone [OF buffers_okD(2) [OF puts(2)] puts(1)]
    show ?case
      using puts(1,3) alone by (intro put_back_ok [OF puts(2) alone(1)]) (auto simp: PutBuffer_def)
  next
    case (leaks s as p bs)
    then show ?case by (simp add: buffers_ok_def pending_def)
  next
    case (drops s ps p qs)
    then show ?case by (auto simp: buffers_ok_def pending_def)
  qed (simp_all add: new_ok read_ok parses_ok)
qed

lemma no_buffers_ok: "0 < tot \<Longrightarrow> buffers_ok udp tot no_buffers"
  by (simp add: buffers_ok_def owners_ok_def owned_def no_buffers_def pending_def frames_read_def cut_short)

interpretation pooled: step_invariant "buf_step udp tot" "buffers_ok udp tot" for udp tot
  by unfold_locales (rule buffers_step)

lemma reachable_ok: "buf_reachable udp tot s \<Longrightarrow> 0 < tot \<Longrightarrow> buffers_ok udp tot s"
  by (rule pooled.reachable) (auto intro: no_buffers_ok)

section \<open>Requests through shared buffers\<close>

text \<open>C4: However many connections share the pool of a protocol, in whatever order reads, goroutines and the pool take
  their steps: no buffer is held twice, the buffers of the pool are clean, and what the goroutines of a connection decode, or
  still hold, is what the reads of that connection returned, cut into buffers, each exactly once. A datagram is decoded
  alone, followed by zeros, and not by what its buffer held before.\<close>

theorem buffers_never_mixed:
  assumes "nt \<in> {tcpsplit, udpsplit}" and "buf_reachable (nt = udpsplit) (TotalSize nt) s"
  shows "distinct (owned s) \<and> (\<forall>p \<in> set (bf_pool s). bf_heap s p = replicate (TotalSize nt) 0) \<and>
    (\<forall>i. mset (bf_parsed s i @ pending s i) = mset (
      if nt = udpsplit then map (go_copy (replicate (TotalSize nt) 0)) (bf_in s i)
      else read_buffers (TotalSize nt) (bf_in s i)))"
proof -
  have "0 < TotalSize nt" using assms(1) by (auto simp: tcpsplit_def udpsplit_def)
  from reachable_ok [OF assms(2) this] show ?thesis
    by (auto simp: buffers_ok_def owners_ok_def frames_read_def read_buffers_cut)
qed

text \<open>The frames of requests have the size of a buffer.\<close>

lemma length_wires:
  assumes nt: "nt \<in> {tcpsplit, udpsplit}" and es: "\<forall>e \<in> set es. fst e \<in> U"
    and all: "\<forall>u \<in> U. mset (filter (\<lambda>e. fst e = u) es) = mset (map (Pair u) [0..<frame_count nt (snd (msgs u))])"
    and e: "e \<in> set es"
  shows "length (wire nt msgs e) = TotalSize nt"
proof -
  have "snd e < frame_count nt (snd (msgs (fst e)))"
    using arrivals_in_range [OF all, of "fst e" "snd e"] es e by simp
  then show ?thesis
    using nt tcp.length_MakeReqBody udp.length_MakeReqBody tcp.frame_length udp.frame_length
    by (auto simp: wire_def) (metis nth_mem)+
qed

lemma frames_read_wires:
  assumes "nt \<in> {tcpsplit, udpsplit}" and "\<forall>f \<in> set fs. length f = TotalSize nt"
    and "if udp then cs = fs else concat cs = concat fs"
  shows "frames_read udp (TotalSize nt) cs = fs"
proof -
  have "0 < TotalSize nt" using assms(1) by (auto simp: tcpsplit_def udpsplit_def)
  with assms(2,3) show ?thesis
    by (auto simp: frames_read_def cut_concat go_copy_full map_idI split: if_splits)
qed


section \<open>Two runs\<close>

text \<open>A loop that needs two reads for a buffer, and a buffer that a second, shorter datagram gets after a first one.\<close>

lemma two_reads_run:
  assumes "length c + length d = tot" and "d \<noteq> []"
  shows "\<exists>s. buf_reachable False tot s \<and> bf_in s 0 = [c, d] \<and> pending s 0 = []"
proof -
  define s1 where "s1 = NewBuffer tot 0 no_buffers"
  define s2 where "s2 = got 0 (read_at 0 c (bf_heap s1 0)) 0 c (s1\<lparr>bf_read := [] @ (0, 0, 0 + length c) # []\<rparr>)"
  define s3 where "s3 = got 0 (read_at (length c) d (bf_heap s2 0)) 0 d (s2\<lparr>bf_read := [] @ [], bf_go := (0, 0) # bf_go s2\<rparr>)"
  define s4 where "s4 = s3\<lparr>bf_go := [] @ [], bf_put := 0 # bf_put s3, bf_parsed := (bf_parsed s3)(0 := bf_parsed s3 0 @ [bf_heap s3 0])\<rparr>"
  note defs = s1_def s2_def s3_def s4_def NewBuffer_def got_def no_buffers_def
  have "buf_step False tot no_buffers s1"
    unfolding s1_def by (rule buf_step.makes) (simp_all add: no_buffers_def)
  moreover have "buf_step False tot s1 s2"
    unfolding s2_def by (rule buf_step.reads) (use assms in \<open>auto simp: defs\<close>)
  moreover have "buf_step False tot s2 s3"
    unfolding s3_def by (rule buf_step.fills) (use assms in \<open>auto simp: defs\<close>)
  moreover have "buf_step False tot s3 s4"
    unfolding s4_def by (rule buf_step.parses) (auto simp: defs)
  ultimately have "buf_reachable False tot s4"
    by (meson converse_rtranclp_into_rtranclp rtranclp.rtrancl_refl)
  moreover have "bf_in s4 0 = [c, d]" "pending s4 0 = []"
    by (simp_all add: defs pending_def)
  ultimately show ?thesis by blast
qed

lemma reused_buffer_run:
  shows "\<exists>s. buf_reachable True tot s \<and> bf_in s 0 = [c, d] \<and> bf_fresh s = 1 \<and> length (bf_parsed s 0) = 1 \<and> length (pending s 0) = 1"
proof -
  define s1 where "s1 = NewBuffer tot 0 no_buffers"
  define s2 where "s2 = got 0 (read_at 0 c (bf_heap s1 0)) 0 c (s1\<lparr>bf_read := [] @ [], bf_go := (0, 0) # bf_go s1\<rparr>)"
  define s3 where "s3 = s2\<lparr>bf_go := [] @ [], bf_put := 0 # bf_put s2, bf_parsed := (bf_parsed s2)(0 := bf_parsed s2 0 @ [bf_heap s2 0])\<rparr>"
  define s4 where "s4 = PutBuffer tot 0 (s3\<lparr>bf_put := [] @ []\<rparr>)"
  define s5 where "s5 = s4\<lparr>bf_pool := [] @ [], bf_read := (0, 0, 0) # bf_read s4\<rparr>"
  define s6 where "s6 = got 0 (read_at 0 d (bf_heap s5 0)) 0 d (s5\<lparr>bf_read := [] @ [], bf_go := (0, 0) # bf_go s5\<rparr>)"
  note defs = s1_def s2_def s3_def s4_def s5_def s6_def NewBuffer_def PutBuffer_def got_def no_buffers_def
  have "buf_step True tot no_buffers s1"
    unfolding s1_def by (rule buf_step.makes) (simp_all add: no_buffers_def)
  moreover have "buf_step True tot s1 s2"
    unfolding s2_def by (rule buf_step.datagrams) (auto simp: defs)
  moreover have "buf_step True tot s2 s3"
    unfolding s3_def by (rule buf_step.parses) (auto simp: defs)
  moreover have "buf_step True tot s3 s4"
    unfolding s4_def by (rule buf_step.puts) (auto simp: defs)
  moreover have "buf_step True tot s4 s5"
    unfolding s5_def by (rule buf_step.gets) (auto simp: defs)
  moreover have "buf_step True tot s5 s6"
    unfolding s6_def by (rule buf_step.datagrams) (auto simp: defs)
  ultimately have "buf_reachable True tot s6"
    by (meson converse_rtranclp_into_rtranclp rtranclp.rtrancl_refl)
  moreover have "bf_in s6 0 = [c, d]" "bf_fresh s6 = 1" "length (bf_parsed s6 0) = 1" "length (pending s6 0) = 1"
    by (simp_all add: defs pending_def)
  ultimately show ?thesis by blast
qed

theorem buffers_never_mixed_witness:
  "\<exists>s. buf_reachable True (TotalSize udpsplit) s \<and> bf_fresh s = 1 \<and>
    mset (bf_parsed s 0 @ pending s 0) = {#7 # replicate 533 0, replicate 534 0#}"
proof -
  obtain s where s: "buf_reachable True (TotalSize udpsplit) s" "bf_in s 0 = [[7], []]" "bf_fresh s = 1"
    using reused_buffer_run by blast
  have "replicate 534 (0 :: byte) = 0 # replicate 533 0" by (simp flip: replicate_Suc)
  with buffers_never_mixed [of udpsplit s] s show ?thesis
    by (intro exI [of _ s]) (simp add: udpsplit_def go_copy_def)
qed


section \<open>The loops of a client\<close>

text \<open>Alone on its connection a client's loop decodes what it reads, buffer by buffer; \<open>ReadRespUDP\<close> passes over
  datagrams that do not fill the buffer.\<close>

definition datagram :: "byte list \<Rightarrow> byte list" where
  "datagram d = go_copy (replicate (TotalSize udpsplit) 0) d"

definition ReadRespTCP :: "link_table \<Rightarrow> wait_table \<Rightarrow> byte list list \<Rightarrow> (link_table \<times> wait_table \<times> bool) go" where
  "ReadRespTCP m rc cs = read_frames tcpsplit m rc (read_buffers (TotalSize tcpsplit) cs)"

definition ReadRespUDP :: "link_table \<Rightarrow> wait_table \<Rightarrow> byte list list \<Rightarrow> (link_table \<times> wait_table \<times> bool) go" where
  "ReadRespUDP m rc ds =
     read_frames udpsplit m rc (map datagram (filter (\<lambda>d. min (length d) (TotalSize udpsplit) = TotalSize udpsplit) ds))"

lemma datagram_full: "length d = TotalSize udpsplit \<Longrightarrow> datagram d = d"
  by (simp add: datagram_def go_copy_full)

text \<open>A successful answer reaches its caller through either loop, over UDP also when shorter datagrams come in between.\<close>

lemma ReadResp_answer:
  assumes "0 < num" "num < 16777216" "fid < 65536" "m num = None" "rc num = Some c" "ch_body c = None"
  shows "length bts \<le> 65535 * BodySplit tcpsplit \<Longrightarrow> concat cs = concat (MakeReqBody tcpsplit bts num fid) \<Longrightarrow>
      ReadRespTCP m rc cs = Ret (m, rc(num \<mapsto> c\<lparr>ch_body := Some bts\<rparr>), False)"
    and "length bts \<le> 65535 * BodySplit udpsplit \<Longrightarrow>
      mset (filter (\<lambda>d. TotalSize udpsplit \<le> length d) ds) = mset (MakeReqBody udpsplit bts num fid) \<Longrightarrow>
      ReadRespUDP m rc ds = Ret (m, rc(num \<mapsto> c\<lparr>ch_body := Some bts\<rparr>), False)"
proof -
  assume "length bts \<le> 65535 * BodySplit tcpsplit" "concat cs = concat (MakeReqBody tcpsplit bts num fid)"
  then show "ReadRespTCP m rc cs = Ret (m, rc(num \<mapsto> c\<lparr>ch_body := Some bts\<rparr>), False)"
    using assms by (simp add: ReadRespTCP_def tcp.stream_frames tcp.answer_delivered)
next
  let ?fs = "filter (\<lambda>d. TotalSize udpsplit \<le> length d) ds"
  assume bts: "length bts \<le> 65535 * BodySplit udpsplit" "mset ?fs = mset (MakeReqBody udpsplit bts num fid)"
  have "filter (\<lambda>d. min (length d) (TotalSize udpsplit) = TotalSize udpsplit) ds = ?fs"
    by (rule filter_cong) (auto simp: min_def)
  moreover have "map datagram ?fs = ?fs"
    using udp.frame_length [of _ bts num fid] mset_eq_setD [OF bts(2)] by (intro map_idI datagram_full) blast
  ultimately show "ReadRespUDP m rc ds = Ret (m, rc(num \<mapsto> c\<lparr>ch_body := Some bts\<rparr>), False)"
    using assms bts by (simp add: ReadRespUDP_def udp.answer_delivered)
qed

text \<open>C5: A successful answer to a caller that is waiting arrives in the caller's channel, and nothing else changes: over TCP
  whatever pieces the stream of its frames arrives in, over UDP whatever the order of its frames and whatever shorter
  datagrams come in between.\<close>

theorem answer_through_read_loops:
  assumes "0 < num" "num < 16777216" and "0 < fid" "fid < 65536" and "m num = None" and "rc num = Some c" "ch_body c = None"
  shows "(length bts \<le> 65535 * BodySplit tcpsplit \<and> concat cs = concat (MakeRspBody tcpsplit bts num fid None) \<longrightarrow>
      ReadRespTCP m rc cs = Ret (m, rc(num \<mapsto> c\<lparr>ch_body := Some bts\<rparr>), False)) \<and>
    (length bts \<le> 65535 * BodySplit udpsplit \<and>
      mset (filter (\<lambda>d. TotalSize udpsplit \<le> length d) ds) = mset (MakeRspBody udpsplit bts num fid None) \<longrightarrow>
      ReadRespUDP m rc ds = Ret (m, rc(num \<mapsto> c\<lparr>ch_body := Some bts\<rparr>), False))"
  using ReadResp_answer [where num = num and m = m and rc = rc and c = c and fid = fid, OF assms(1,2,4-7)] assms(3) by (simp add: MakeRspBody_def)

theorem answer_through_read_loops_witness:
  "ReadRespTCP Map.empty (fst (NewChan 0 Map.empty 9)) (map (\<lambda>b. [b]) (concat (MakeRspBody tcpsplit [5, 6] 9 120 None))) =
     Ret (Map.empty, (fst (NewChan 0 Map.empty 9))(9 \<mapsto> (snd (NewChan 0 Map.empty 9))\<lparr>ch_body := Some [5, 6]\<rparr>), False) \<and>
   ReadRespUDP Map.empty (fst (NewChan 0 Map.empty 9)) ([1, 0] # MakeRspBody udpsplit [5, 6] 9 120 None) =
     Ret (Map.empty, (fst (NewChan 0 Map.empty 9))(9 \<mapsto> (snd (NewChan 0 Map.empty 9))\<lparr>ch_body := Some [5, 6]\<rparr>), False)"
proof -
  have "fst (NewChan 0 Map.empty 9) 9 = Some (snd (NewChan 0 Map.empty 9))" "ch_body (snd (NewChan 0 Map.empty 9)) = None"
    by (simp_all add: NewChan_def Let_def)
  note loops = answer_through_read_loops [where num = 9 and fid = 120 and m = Map.empty and bts = "[5, 6]"
      and rc = "fst (NewChan 0 Map.empty 9)" and c = "snd (NewChan 0 Map.empty 9)"
      and cs = "map (\<lambda>b. [b]) (concat (MakeRspBody tcpsplit [5, 6] 9 120 None))"
      and ds = "[1, 0] # MakeRspBody udpsplit [5, 6] 9 120 None", OF _ _ _ _ _ this]
  have "\<forall>f \<in> set (MakeRspBody udpsplit [5, 6] 9 120 None). TotalSize udpsplit \<le> length f"
    using udp.frame_length [of _ "[5, 6]" 9 120] by (simp add: MakeRspBody_def)
  then have "filter (\<lambda>d. TotalSize udpsplit \<le> length d) ([1, 0] # MakeRspBody udpsplit [5, 6] 9 120 None) =
      MakeRspBody udpsplit [5, 6] 9 120 None"
    by (simp add: udpsplit_def)
  then have datagrams: "mset (filter (\<lambda>d. TotalSize udpsplit \<le> length d) ([1, 0] # MakeRspBody udpsplit [5, 6] 9 120 None)) =
      mset (MakeRspBody udpsplit [5, 6] 9 120 None)"
    by (rule arg_cong)
  have "concat (map (\<lambda>b. [b]) bs) = bs" for bs :: "byte list"
    by (induction bs) simp_all
  moreover have "length [5, 6 :: byte] \<le> 65535 * BodySplit tcpsplit" "length [5, 6 :: byte] \<le> 65535 * BodySplit udpsplit"
    by (simp_all add: tcpsplit_def udpsplit_def)
  ultimately show ?thesis
    using loops datagrams by (simp only: zero_less_numeral numeral_less_iff simp_thms) simp
qed

end
