(* ===== verification/Dispatch.thy ===== *)
theory Dispatch
  imports Invoke Buffers
begin

text \<open>
  The serving side of a node: the reserved functions (network/rpc/builtin.go), the answer to a request
  (\<open>ParseRspByte\<close> of network/rpc/encode.go) and the loops of \<open>tcpAccept\<close> and \<open>UdpListen\<close> over the buffers of
  a connection, whose goroutines run here one after the other; theory \<open>Race\<close> has their interleavings, theory \<open>Buffers\<close> the
  buffers that they share.

  A connection that was accepted has no uuid; all that is used of it is its link table, its kind and
  the address of its peer, which a listening UDP socket does not have.
\<close>

section \<open>Reserved functions\<close>

fun UpServNodeConn :: "net_env \<Rightarrow> NodeInfo list \<Rightarrow> NodeDetail \<Rightarrow> NodeDetail" where
  "UpServNodeConn e [] n = n"
| "UpServNodeConn e (row # rows) n =
     (case GetNodeConn n (ni_Uuid row) of
        Some p \<Rightarrow>
          UpServNodeConn e rows (upd_conn p (\<lambda>c. c\<lparr>nc_info := (nc_info c)\<lparr>ni_Host := ni_Host row,
            ni_Hport := ni_Hport row, ni_Tport := ni_Tport row, ni_Uport := ni_Uport row\<rparr>\<rparr>) n)
      | None \<Rightarrow>
          (case NodeBaseToConn e row n of
             ((Some p, None), n) \<Rightarrow> UpServNodeConn e rows (PutConn e p n)
           | (_, n) \<Rightarrow> UpServNodeConn e rows n))"

text \<open>The host of a node that registers: the address of the peer when the node gives none of its own.\<close>

definition peer_host :: "ConnType \<Rightarrow> string option \<Rightarrow> NodeInfo \<Rightarrow> NodeInfo go" where
  "peer_host types remote rsp =
     (if ni_Host rsp = '''' \<or> ni_Host rsp = ''127.0.0.1'' \<or> ni_Host rsp = ''0.0.0.0'' then
        if types = ConnWithTCP \<or> types = ConnWithUDP then
          (case remote of
             None \<Rightarrow> Panic NilDereference
           | Some addr \<Rightarrow> Ret (rsp\<lparr>ni_Host := split_on CHR '':'' addr ! 0\<rparr>))
        else Ret rsp
      else Ret rsp)"

definition builtin ::
    "net_env \<Rightarrow> pb_codec \<Rightarrow> ConnType \<Rightarrow> string option \<Rightarrow> nat \<Rightarrow> byte list \<Rightarrow> NodeDetail
     \<Rightarrow> ((byte list \<times> error option) \<times> NodeDetail) go"
where
  "builtin e pc types remote fid bts n =
     (if fid = PingNetwork then Ret ((bytes_of_string ''PONG'', None), n)
      else if fid = DialRegister then
        (case pc_dec_NodeInfo pc bts of
           Inl err \<Rightarrow> Ret (([], Some err), n)
         | Inr rsp \<Rightarrow>
             go_bind (peer_host types remote rsp) (\<lambda>rsp.
               Ret (([], None), snd (NodeBaseToConn e rsp n))))
      else if fid = UpFuncMapList then
        (case pc_dec_UpFuncList pc bts of
           Inl err \<Rightarrow> Ret (([], Some err), n)
         | Inr rows \<Rightarrow> Ret (([], None), fold (\<lambda>row n. snd (rpc_PutMsg row n)) rows n))
      else if fid = UpNodeConnMsg then
        (case pc_dec_GetApiConnRsp pc bts of
           Inl err \<Rightarrow> Ret (([], Some err), n)
         | Inr req \<Rightarrow> Ret (([], None), UpServNodeConn e (ga_List req) n))
      else Ret (([], Some ''parse build-in request byte wrong''), n))"

section \<open>Answering a request\<close>

text \<open>What \<open>ParseRspByte\<close> does with the result of \<open>ParseResp\<close>.\<close>

definition respond ::
    "net_env \<Rightarrow> pb_codec \<Rightarrow> 'v codec \<Rightarrow> (gotype \<Rightarrow> 'v) \<Rightarrow> 'v methods \<Rightarrow> NetworkBuffer \<Rightarrow> ConnType \<Rightarrow> string option
     \<Rightarrow> resp \<Rightarrow> NodeDetail \<Rightarrow> (byte list list \<times> NodeDetail) go"
where
  "respond e pc cd zero exec nb types remote r n =
     (case r of (num, fid, bts, err) \<Rightarrow>
        if err \<noteq> None \<or> fid = 0 \<or> num = 0 then Ret ([], n)
        else if fid < BUILT_IN_MAX then
          go_bind (builtin e pc types remote fid bts n) (\<lambda>((bts, err), n).
            Ret (MakeRspBody nb bts num fid err, n))
        else
          (case QueryFunc e pc (of_nat fid) '''' n of
             (Some fmsg, n) \<Rightarrow>
               go_bind (findCall cd (pc_dec_MultiBody pc) zero exec n fmsg bts) (\<lambda>(bts, err).
                 Ret (MakeRspBody nb bts num fid err, n))
           | (None, n) \<Rightarrow>
               Ret (MakeRspBody nb bts num fid (Some ''not found server api mapping in server: ''), n)))"

definition ParseRspByte ::
    "net_env \<Rightarrow> pb_codec \<Rightarrow> 'v codec \<Rightarrow> (gotype \<Rightarrow> 'v) \<Rightarrow> 'v methods \<Rightarrow> NetworkBuffer \<Rightarrow> ConnType \<Rightarrow> string option
     \<Rightarrow> link_table \<Rightarrow> byte list \<Rightarrow> NodeDetail \<Rightarrow> (byte list list \<times> link_table \<times> NodeDetail) go"
where
  "ParseRspByte e pc cd zero exec nb types remote m d n =
     go_bind (ParseResp nb m d) (\<lambda>(m, r).
       go_bind (respond e pc cd zero exec nb types remote r n) (\<lambda>(rows, n). Ret (rows, m, n)))"

text \<open>The buffers of a connection; the frames that are written back, buffer by buffer.\<close>

fun serve ::
    "net_env \<Rightarrow> pb_codec \<Rightarrow> 'v codec \<Rightarrow> (gotype \<Rightarrow> 'v) \<Rightarrow> 'v methods \<Rightarrow> NetworkBuffer \<Rightarrow> ConnType \<Rightarrow> string option
     \<Rightarrow> link_table \<Rightarrow> byte list list \<Rightarrow> NodeDetail \<Rightarrow> (byte list list \<times> link_table \<times> NodeDetail) go"
where
  "serve e pc cd zero exec nb types remote m [] n = Ret ([], m, n)"
| "serve e pc cd zero exec nb types remote m (d # ds) n =
     go_bind (ParseRspByte e pc cd zero exec nb types remote m d n) (\<lambda>(rows, m, n).
       go_bind (serve e pc cd zero exec nb types remote m ds n) (\<lambda>(rest, m, n).
         Ret (rows @ rest, m, n)))"

text \<open>\<open>tcpAccept\<close> on the pieces in which a stream arrives.\<close>

definition tcpAccept ::
    "net_env \<Rightarrow> pb_codec \<Rightarrow> 'v codec \<Rightarrow> (gotype \<Rightarrow> 'v) \<Rightarrow> 'v methods \<Rightarrow> string \<Rightarrow> byte list list \<Rightarrow> NodeDetail
     \<Rightarrow> (byte list list \<times> link_table \<times> NodeDetail) go"
where
  "tcpAccept e pc cd zero exec remote cs n =
     serve e pc cd zero exec tcpsplit ConnWithTCP (Some remote) Map.empty (read_buffers (TotalSize tcpsplit) cs) n"

text \<open>\<open>UdpListen\<close> on the datagrams that arrive, each read into a clean buffer.\<close>

definition UdpListen ::
    "net_env \<Rightarrow> pb_codec \<Rightarrow> 'v codec \<Rightarrow> (gotype \<Rightarrow> 'v) \<Rightarrow> 'v methods \<Rightarrow> byte list list \<Rightarrow> NodeDetail
     \<Rightarrow> (byte list list \<times> link_table \<times> NodeDetail) go"
where
  "UdpListen e pc cd zero exec ds n =
     serve e pc cd zero exec udpsplit ConnWithUDP None Map.empty (map datagram ds) n"

text \<open>
  The loop over \<open>Accept\<close>: each result is an error, which is logged, or a connection, the address of its peer with
  the pieces in which its stream arrives. A connection is served in a goroutine of its own; here those run one after
  the other. No goroutine that answers a buffer recovers from a panic, so a panic ends the process. The result has the
  log and what is written to each connection.
\<close>

fun accept_loop ::
    "net_env \<Rightarrow> pb_codec \<Rightarrow> 'v codec \<Rightarrow> (gotype \<Rightarrow> 'v) \<Rightarrow> 'v methods \<Rightarrow> (error + string \<times> byte list list) list \<Rightarrow> NodeDetail
     \<Rightarrow> ((string list \<times> byte list list list) \<times> NodeDetail) go"
where
  "accept_loop e pc cd zero exec [] n = Ret (([], []), n)"
| "accept_loop e pc cd zero exec (Inl err # as) n =
     go_bind (accept_loop e pc cd zero exec as n) (\<lambda>((logged, outs), n).
       Ret (((''rpc.Serve: accept: '' @ err @ ''\<newline>'') # logged, outs), n))"
| "accept_loop e pc cd zero exec (Inr (remote, cs) # as) n =
     go_bind (tcpAccept e pc cd zero exec remote cs n) (\<lambda>(out, m, n).
       go_bind (accept_loop e pc cd zero exec as n) (\<lambda>((logged, outs), n). Ret ((logged, out # outs), n)))"

text \<open>\<open>TcpListen\<close>, which listens at the port of the node whatever port it is given: an error, or the server.\<close>

definition TcpListen ::
    "net_env \<Rightarrow> pb_codec \<Rightarrow> 'v codec \<Rightarrow> (gotype \<Rightarrow> 'v) \<Rightarrow> 'v methods \<Rightarrow> (uint64 \<Rightarrow> error option) \<Rightarrow>
     (error + string \<times> byte list list) list \<Rightarrow> int \<Rightarrow> NodeDetail
     \<Rightarrow> (error option \<times> (string list \<times> byte list list list) \<times> NodeDetail) go"
where
  "TcpListen e pc cd zero exec listen as port n =
     (case listen (ni_Tport (nd_info n)) of
        Some err \<Rightarrow> Ret (Some err, ([], []), n)
      | None \<Rightarrow> go_bind (accept_loop e pc cd zero exec as n) (\<lambda>r. Ret (None, r)))"

text \<open>The start of the UDP server, at the port it is given; its loop ends at the first failure to read.\<close>

definition UdpListen_at ::
    "net_env \<Rightarrow> pb_codec \<Rightarrow> 'v codec \<Rightarrow> (gotype \<Rightarrow> 'v) \<Rightarrow> 'v methods \<Rightarrow> (int \<Rightarrow> error option) \<Rightarrow> byte list list \<Rightarrow> int \<Rightarrow> NodeDetail
     \<Rightarrow> (error option \<times> byte list list \<times> NodeDetail) go"
where
  "UdpListen_at e pc cd zero exec listen ds port n =
     (case listen port of
        Some err \<Rightarrow> Ret (Some err, [], n)
      | None \<Rightarrow> go_bind (UdpListen e pc cd zero exec ds n) (\<lambda>(out, m, n). Ret (None, out, n)))"

section \<open>Serving leaves the node as it is\<close>

lemma UpServNodeConn_mild: "mild n (UpServNodeConn e rows n)"
proof (induction rows arbitrary: n)
  case (Cons row rows)
  show ?case
  proof (cases "GetNodeConn n (ni_Uuid row)")
    case (Some p)
    have "mild n (upd_conn p (\<lambda>c. c\<lparr>nc_info := (nc_info c)\<lparr>ni_Host := ni_Host row,
        ni_Hport := ni_Hport row, ni_Tport := ni_Tport row, ni_Uport := ni_Uport row\<rparr>\<rparr>) n)"
      by (simp add: mild_def funcs_ok_def conns_ok_def upd_conn_def)
    with Some show ?thesis by (simp add: mild_trans [OF _ Cons.IH])
  next
    case None
    obtain c err n1 where 1: "NodeBaseToConn e row n = ((c, err), n1)" by (metis surj_pair)
    have g: "mild n n1" by (rule NodeBaseToConn_mild [OF 1])
    show ?thesis
    proof (cases "c = None \<or> err \<noteq> None")
      case True
      with None 1 show ?thesis
        by (cases c; cases err) (auto intro: mild_trans [OF g Cons.IH])
    next
      case False
      then obtain p where p: "c = Some p" "err = None" by auto
      with None 1 NodeBaseToConn_PutConn_mild [OF 1 [unfolded p]] show ?thesis
        by (auto intro: mild_trans [OF _ Cons.IH])
    qed
  qed
qed simp

lemma builtin_mild: "builtin e pc types remote fid bts n = Ret (r, n') \<Longrightarrow> mild n n'"
  using UpServNodeConn_mild fold_PutMsg_mild NodeBaseToConn_mild
  by (auto simp: builtin_def go_bind_Ret_iff split: if_splits sum.splits) (metis prod.collapse)+

lemma respond_mild:
  assumes "respond e pc cd zero exec nb types remote r n = Ret (rows, n')"
  shows "mild n n'"
proof -
  obtain num fid bts err where r: "r = (num, fid, bts, err)" by (cases r)
  obtain q n1 where q: "QueryFunc e pc (of_nat fid) '''' n = (q, n1)" by fastforce
  have "mild n n1" by (rule QueryFunc_mild [OF q])
  with assms r q show ?thesis
    by (auto simp: respond_def go_bind_Ret_iff split: if_splits option.splits dest: builtin_mild)
qed

lemma serve_mild: "serve e pc cd zero exec nb types remote m ds n = Ret (rows, m', n') \<Longrightarrow> mild n n'"
proof (induction ds arbitrary: m n rows)
  case (Cons d ds)
  then obtain rows1 m1 n1 rest where
    1: "ParseRspByte e pc cd zero exec nb types remote m d n = Ret (rows1, m1, n1)"
    and 2: "serve e pc cd zero exec nb types remote m1 ds n1 = Ret (rest, m', n')"
    by (auto simp: go_bind_Ret_iff)
  from 1 have "mild n n1" by (auto simp: ParseRspByte_def go_bind_Ret_iff dest: respond_mild)
  from mild_trans [OF this Cons.IH [OF 2]] show ?case .
qed simp

text \<open>Serving the buffers is receiving them, and answering what they give.\<close>

fun respond_all ::
    "net_env \<Rightarrow> pb_codec \<Rightarrow> 'v codec \<Rightarrow> (gotype \<Rightarrow> 'v) \<Rightarrow> 'v methods \<Rightarrow> NetworkBuffer \<Rightarrow> ConnType \<Rightarrow> string option
     \<Rightarrow> resp list \<Rightarrow> NodeDetail \<Rightarrow> (byte list list \<times> NodeDetail) go"
where
  "respond_all e pc cd zero exec nb types remote [] n = Ret ([], n)"
| "respond_all e pc cd zero exec nb types remote (r # rs) n =
     go_bind (respond e pc cd zero exec nb types remote r n) (\<lambda>(rows, n).
       go_bind (respond_all e pc cd zero exec nb types remote rs n) (\<lambda>(rest, n). Ret (rows @ rest, n)))"

lemma serve_receive:
  assumes "receive nb m ds = Ret (m', rs)"
  shows "serve e pc cd zero exec nb types remote m ds n =
    go_bind (respond_all e pc cd zero exec nb types remote rs n) (\<lambda>(rows, n). Ret (rows, m', n))"
  using assms
proof (induction ds arbitrary: m rs n)
  case (Cons d ds)
  then obtain m1 r rs' where 1: "ParseResp nb m d = Ret (m1, r)" "receive nb m1 ds = Ret (m', rs')" "rs = r # rs'"
    by (auto simp: go_bind_Ret_iff)
  then show ?case
    by (cases "respond e pc cd zero exec nb types remote r n")
      (auto simp: ParseRspByte_def Cons.IH [OF 1(2)] go_bind_assoc case_prod_beta)
qed simp

lemma respond_no_resp [simp]: "respond e pc cd zero exec nb types remote no_resp n = Ret ([], n)"
  by (simp add: respond_def no_resp_def)

lemma respond_all_waits:
  "respond_all e pc cd zero exec nb types remote (replicate k no_resp @ rs) n =
    respond_all e pc cd zero exec nb types remote rs n"
proof (induction k)
  case (Suc k)
  have "go_bind (respond_all e pc cd zero exec nb types remote rs n) (\<lambda>(rest, n). Ret (rest, n)) =
      respond_all e pc cd zero exec nb types remote rs n"
    by (cases "respond_all e pc cd zero exec nb types remote rs n") auto
  with Suc show ?case by simp
qed simp

lemma respond_all_single:
  "respond_all e pc cd zero exec nb types remote [r] n = respond e pc cd zero exec nb types remote r n"
  by (cases "respond e pc cd zero exec nb types remote r n") auto

text \<open>The server's side: the frames of a request in any order.\<close>

lemma serve_request:
  assumes "num < 16777216" "fid < 65536" "length bts \<le> 65535 * BodySplit tcpsplit" "m num = None"
    "mset fs = mset (MakeReqBody tcpsplit bts num fid)"
  shows "serve e pc cd zero exec tcpsplit types remote m fs n =
    go_bind (respond e pc cd zero exec tcpsplit types remote (num, fid, bts, None) n) (\<lambda>(rows, n). Ret (rows, m, n))"
proof -
  have "receive tcpsplit m fs = Ret (m, replicate (length fs - 1) no_resp @ [(num, fid, bts, None)])"
    by (rule tcp.receive_one) (use assms in simp_all)
  then show ?thesis
    using serve_receive [of tcpsplit m fs m _ e pc cd zero exec types remote n]
    by (simp add: respond_all_waits respond_all_single del: respond_all.simps)
qed

lemma respond_Call:
  assumes "faithful_codec cd ty" and "sv_proto s \<noteq> JSONPB"
    and "nd_funcs n (fmsg_ServName fmsg) = Some s" and "server_ok s"
    and "sv_funcs s (fmsg_FuncName fmsg) = Some f" and "sf_api f = Call"
    and "sf_req f = Some (ty v)" and "MarshalInterface cd (sv_proto s) v = Inr bts"
    and "sf_rsp f = Some t" and "gt_kind t = Ptr"
    and "exec (sv_sname s) (sf_method f) [Receiver, Arg v, Arg (zero t)] = Ret (None, x)"
    and "MarshalInterface cd (sv_proto s) x = Inr rsp"
    and "QueryFunc e pc (fmsg_FuncID fmsg) '''' n = (Some fmsg, n')"
    and "0 < num" and "BUILT_IN_MAX \<le> unat (fmsg_FuncID fmsg)"
  shows "respond e pc cd zero exec nb types remote (num, unat (fmsg_FuncID fmsg), bts, None) n =
    Ret (MakeRspBody nb rsp num (unat (fmsg_FuncID fmsg)) None, n')"
proof -
  have "nd_funcs n' (fmsg_ServName fmsg) = Some s"
    using QueryFunc_mild [OF assms(13)] assms(3) by (simp add: mild_def)
  from findCall_Call [OF assms(1,2) this assms(4-10), of "pc_dec_MultiBody pc" zero exec] assms(11-15) show ?thesis
    by (auto simp: respond_def reply_def BUILT_IN_MAX_def)
qed

text \<open>A watcher: a node without watchers of its own.\<close>

definition alone :: "NodeDetail \<Rightarrow> bool" where
  "alone n \<longleftrightarrow> funcs_ok n \<and> wt_master (nd_wser n) = None \<and> wt_slaves (nd_wser n) = []"

lemma mild_alone: "mild n n' \<Longrightarrow> alone n \<Longrightarrow> alone n'"
  by (simp add: mild_def alone_def)

lemma alone_refuses:
  assumes "alone n" "0 < num" "BUILT_IN_MAX \<le> fid"
  shows "\<exists>n'. respond e pc cd zero exec nb types remote (num, fid, bts, None) n =
    Ret (MakeRspBody nb bts num fid (Some ''not found server api mapping in server: ''), n')"
proof -
  obtain q n1 where q: "QueryFunc e pc (of_nat fid) '''' n = (q, n1)" by fastforce
  with QueryFunc_none [of n e pc "of_nat fid" "''''"] assms(1) have "q = None"
    by (simp add: alone_def)
  with q assms(2,3) show ?thesis by (simp add: respond_def BUILT_IN_MAX_def)
qed

section \<open>The HTTP server\<close>

text \<open>What \<open>encoding/json\<close> decodes into an interface: none of these is a \<open>[]byte\<close>, so the type assertion of
  \<open>httpBuiltIn\<close> panics.\<close>

datatype json_any = JsonNull | JsonBool bool | JsonNumber | JsonString string | JsonArray | JsonObject

record CommReq =
  rq_Data :: json_any
  rq_Num :: int
  rq_Func :: int

definition assert_bytes :: "json_any \<Rightarrow> byte list go" where
  "assert_bytes v = Panic BadAssertion"

definition httpBuiltIn ::
    "net_env \<Rightarrow> pb_codec \<Rightarrow> (byte list \<Rightarrow> error + CommReq) \<Rightarrow> error + byte list \<Rightarrow> NodeDetail
     \<Rightarrow> (http_response \<times> NodeDetail) go"
where
  "httpBuiltIn e pc dec body n =
     (case body of
        Inl err \<Rightarrow> Ret (makeHttpResp [] (Some err) fresh_response, n)
      | Inr bts \<Rightarrow>
          (case dec bts of
             Inl err \<Rightarrow> Ret (makeHttpResp [] (Some err) fresh_response, n)
           | Inr req \<Rightarrow>
               go_bind (assert_bytes (rq_Data req)) (\<lambda>bts.
                 go_bind (builtin e pc ConnUnset None (nat (rq_Func req)) bts n) (\<lambda>(_, n). Ret (fresh_response, n)))))"

text \<open>A request to the server that \<open>runServer\<close> starts: the handlers of the services at \<open>/Server.Function\<close>, \<open>httpBuiltIn\<close> at
  its own path, and \<^const>\<open>None\<close> for a path that nobody serves.\<close>

definition ServeHTTP ::
    "net_env \<Rightarrow> pb_codec \<Rightarrow> (byte list \<Rightarrow> error + CommReq) \<Rightarrow> 'v codec \<Rightarrow> (gotype \<Rightarrow> 'v) \<Rightarrow> 'v methods \<Rightarrow> string
     \<Rightarrow> error + byte list \<Rightarrow> NodeDetail \<Rightarrow> (http_response option \<times> NodeDetail) go"
where
  "ServeHTTP e pc dec cd zero exec path body n =
     (if path = ''/'' @ BUILT_IN_NAME then
        go_bind (httpBuiltIn e pc dec body n) (\<lambda>(w, n). Ret (Some w, n))
      else
        (case path of
           [] \<Rightarrow> Ret (None, n)
         | c # key \<Rightarrow>
             (case if c = CHR ''/'' then nd_hlist n key else None of
                None \<Rightarrow> Ret (None, n)
              | Some (s, f) \<Rightarrow>
                  (case body of
                     Inl err \<Rightarrow> Ret (Some (makeHttpResp [] (Some err) fresh_response), n)
                   | Inr bts \<Rightarrow> go_bind (http_handler cd zero exec s f bts) (\<lambda>w. Ret (Some w, n))))))"

text \<open>The path that \<open>postHttpApi\<close> posts a request to.\<close>

definition http_path :: "FuncMsg \<Rightarrow> string" where
  "http_path fmsg = ''/'' @ fmsg_ApiName fmsg"

lemma httpBuiltIn_panics: "dec bts = Inr req \<Longrightarrow> httpBuiltIn e pc dec (Inr bts) n = Panic BadAssertion"
  by (simp add: httpBuiltIn_def assert_bytes_def)

text \<open>The path of a function.\<close>

lemma publish_path:
  assumes "server_ok s" and "ni_Hport (nd_info n) \<noteq> 0" and "sv_funcs s k = Some f" and "sf_api f \<noteq> Multi"
    and "k \<in> set order \<or> nd_hlist n (sv_sname s @ ''.'' @ k) = Some (s, f)"
  shows "nd_hlist (publish s order n) (sv_sname s @ ''.'' @ k) = Some (s, f)"
  using assms(2,5)
proof (induction order arbitrary: n)
  case (Cons j js)
  show ?case
  proof (cases "sv_funcs s j")
    case None
    with Cons assms(3) show ?thesis by auto
  next
    case (Some g)
    then have g: "sf_fname g = j" using assms(1) by (simp add: server_ok_def)
    define n1 where "n1 = n\<lparr>nd_info := (nd_info n)\<lparr>ni_Funcs := ni_Funcs (nd_info n) @
        [\<lparr>fa_ID = 0, fa_Name = sv_sname s @ ''.'' @ sf_fname g, fa_Type = sf_api g, fa_Kind = sv_proto s\<rparr>]\<rparr>\<rparr>"
    have "publish s (j # js) n = publish s js (httpCall (sv_sname s @ ''.'' @ j) s g n1)"
      using Some g Cons.prems(1) by (simp add: n1_def Let_def)
    moreover have "nd_hlist (publish s js (httpCall (sv_sname s @ ''.'' @ j) s g n1)) (sv_sname s @ ''.'' @ k) = Some (s, f)"
      using Some Cons.prems assms(3,4) by (intro Cons.IH) (auto simp: httpCall_def n1_def)
    ultimately show ?thesis by simp
  qed
qed simp

lemma Register_path:
  fixes n n' :: "'a NodeBase_scheme"
  assumes "Register order sname ms n = Ret (None, n')" and "ni_Hport (nd_info n) \<noteq> 0" and "k \<in> set order"
    and "nd_funcs n' sname = Some s" and "sv_funcs s k = Some f" and "sf_api f \<noteq> Multi"
  shows "nd_hlist n' (sname @ ''.'' @ k) = Some (s, f)" and "server_ok s"
proof -
  let ?s0 = "\<lparr>sv_proto = PROTO, sv_sname = sname, sv_funcs = Map.empty\<rparr>"
  from assms(1) obtain s' where s': "parseFunc ms ?s0 = Ret (None, s')"
    "n' = publish s' order (n\<lparr>nd_funcs := (nd_funcs n)(sname \<mapsto> s')\<rparr>)"
    by (auto simp: Register_def go_bind_Ret_iff split: option.splits)
  have "server_ok ?s0" by (simp add: server_ok_def)
  from parseFunc_ok [OF s'(1) this] have ok: "server_ok s'" "sv_sname s' = sname" by simp_all
  moreover have "s' = s"
    using assms(4) publish_fields [of s' order "n\<lparr>nd_funcs := (nd_funcs n)(sname \<mapsto> s')\<rparr>"] s'(2) by simp
  ultimately show "nd_hlist n' (sname @ ''.'' @ k) = Some (s, f)" "server_ok s"
    using publish_path [of s "n\<lparr>nd_funcs := (nd_funcs n)(sname \<mapsto> s')\<rparr>" k f order] assms(2,3,5,6) s'(2) by simp_all
qed


section \<open>One buffer ends the process\<close>

lemma go_bind_panics: "(\<And>x. m = Ret x \<Longrightarrow> \<exists>p. f x = Panic p) \<Longrightarrow> \<exists>p. go_bind m f = Panic p"
  by (cases m) auto

lemma serve_panics:
  assumes "d \<in> set ds" "parse nb d = Panic p"
  shows "\<exists>p. serve e pc cd zero exec nb types remote m ds n = Panic p"
  using assms(1)
proof (induction ds arbitrary: m n)
  case (Cons b bs)
  show ?case
  proof (cases "b = d")
    case True
    with assms(2) show ?thesis by (simp add: ParseRspByte_def ParseResp_def)
  next
    case False
    have "\<exists>p. (case x of (rows, m, n) \<Rightarrow>
        go_bind (serve e pc cd zero exec nb types remote m bs n) (\<lambda>(rest, m, n). Ret (rows @ rest, m, n))) = Panic p" for x
    proof (cases x)
      case (fields rows k n')
      from False Cons obtain p' where "serve e pc cd zero exec nb types remote k bs n' = Panic p'" by auto
      with fields show ?thesis by simp
    qed
    then show ?thesis by (simp add: go_bind_panics)
  qed
qed simp

lemma accept_loop_panics:
  assumes "Inr (remote, cs) \<in> set as" "\<And>n. \<exists>p. tcpAccept e pc cd zero exec remote cs n = Panic p"
  shows "\<exists>p. accept_loop e pc cd zero exec as n = Panic p"
  using assms(1)
proof (induction as arbitrary: n)
  case (Cons a as)
  have bad: "\<exists>p. accept_loop e pc cd zero exec as n = Panic p" if "a \<noteq> Inr (remote, cs)" for n
    using Cons that by auto
  show ?case
  proof (cases a)
    case (Inl err)
    with bad [of n] show ?thesis by auto
  next
    case (Inr c)
    obtain r1 c1 where c: "c = (r1, c1)" by fastforce
    show ?thesis
    proof (cases "(r1, c1) = (remote, cs)")
      case True
      with assms(2) [of n] Inr c show ?thesis by auto
    next
      case False
      with bad Inr c have "\<exists>p. accept_loop e pc cd zero exec as n = Panic p" for n by auto
      then have "\<exists>p. (case x of (out, m, n) \<Rightarrow>
          go_bind (accept_loop e pc cd zero exec as n) (\<lambda>((logged, outs), n). Ret ((logged, out # outs), n))) = Panic p" for x
        by (cases x) (metis case_prod_conv go_bind.simps(2))
      then have "\<exists>p. go_bind (tcpAccept e pc cd zero exec r1 c1 n) (\<lambda>(out, m, n).
          go_bind (accept_loop e pc cd zero exec as n) (\<lambda>((logged, outs), n). Ret ((logged, out # outs), n))) = Panic p"
        by (rule go_bind_panics)
      then show ?thesis using Inr c by simp
    qed
  qed
qed simp

lemma udp_datagram_panics:
  assumes "d \<in> set ds" "parse udpsplit (datagram d) = Panic p" "listen port = None"
  shows "\<exists>p. UdpListen_at e pc cd zero exec listen ds port n = Panic p"
proof -
  have "\<exists>p. UdpListen e pc cd zero exec ds n = Panic p"
    unfolding UdpListen_def by (rule serve_panics [OF _ assms(2)]) (use assms(1) in simp)
  with assms(3) show ?thesis by (auto simp: UdpListen_at_def)
qed

text \<open>C14: One buffer ends the process: if on any connection, before, after or among any others and any failures to accept, the
  TCP server reads one buffer with the marks of the protocol whose length field points behind it, the server panics,
  whatever the state of the node. The sender need not be known to the node.\<close>

theorem one_buffer_ends_the_process:
  assumes "listen (ni_Tport (nd_info n)) = None" and "Inr (remote, cs) \<in> set as"
    and "d \<in> set (read_buffers (TotalSize tcpsplit) cs)" and "well_marked tcpsplit d"
    and "d ! 5 \<in> {BodyWholeData, BodyRespSuccess, BodyRespFailed, BodyReqFinaly, BodyRespFinaly}"
    and "BodySplit tcpsplit + 2 < unat (d ! 10) * 256 + unat (d ! 11)"
  shows "\<exists>p. TcpListen e pc cd zero exec listen as port n = Panic p"
proof -
  have "parse tcpsplit d = Panic SliceOutOfRange" using tcp.parse_panic_iff assms(4-6) by blast
  from serve_panics [OF assms(3) this] have "\<exists>p. tcpAccept e pc cd zero exec remote cs n = Panic p" for n
    by (simp add: tcpAccept_def)
  from accept_loop_panics [OF assms(2) this] obtain p where "accept_loop e pc cd zero exec as n = Panic p" by blast
  with assms(1) show ?thesis by (simp add: TcpListen_def)
qed

theorem one_buffer_ends_the_process_witness:
  "\<forall>e pc zero exec n. \<exists>p. TcpListen e pc bytes_codec zero exec (\<lambda>_. None)
     [Inr (''10.0.0.1:5'', []), Inl ''too many open files'',
      Inr (''10.0.0.2:6'', [[1, 0, 0, 0, 1], [0, 0, 80, 0, 1, 255, 255] @ replicate (BodySplit tcpsplit) 0 @ [0, 1]])] 0 n = Panic p"
proof (intro allI, rule one_buffer_ends_the_process)
  let ?d = "[1, 0, 0, 0, 1, 0, 0, 80, 0, 1, 255, 255] @ replicate (BodySplit tcpsplit) 0 @ [0, 1] :: byte list"
  show "?d \<in> set (read_buffers (TotalSize tcpsplit) [[1, 0, 0, 0, 1], [0, 0, 80, 0, 1, 255, 255] @ replicate (BodySplit tcpsplit) 0 @ [0, 1]])"
    using cut_concat [of "TotalSize tcpsplit" "[?d]"] by (simp add: read_buffers_cut tcpsplit_def)
  show "well_marked tcpsplit ?d"
    by (simp add: well_marked_def tcpsplit_def frame_marks nth_append)
qed (simp_all add: tcpsplit_def body_types nth_append)

end
