(* ===== verification/NodeLife.thy ===== *)
theory NodeLife
  imports Dispatch
begin

text \<open>
  A node at work: every operation that a node of package rpc performs, as a step, the invariant of its
  states, and what follows from it for callers, for watchers and for the request numbers.
\<close>

section \<open>The invariant\<close>

definition node_ok :: "NodeDetail \<Rightarrow> bool" where
  "node_ok n \<longleftrightarrow> funcs_ok n \<and> conns_ok n"

lemma mild_ok: "mild n n' \<Longrightarrow> node_ok n \<Longrightarrow> node_ok n'"
  by (simp add: mild_def node_ok_def)

lemma set_watchers_ok [simp]: "node_ok (set_watchers m ss n) = node_ok n"
  by (simp add: node_ok_def funcs_ok_def conns_ok_def set_watchers_def)

lemma promote_ok [simp]: "node_ok (promote n) = node_ok n"
  by (auto simp: promote_def split: option.splits list.splits)

lemma Close_ok: "node_ok n \<Longrightarrow> node_ok (Close p n)"
  by (rule mild_ok [OF keeps_mild [OF Close_keeps [OF keeps_refl]]])

lemma fold_Close_ok: "node_ok n \<Longrightarrow> node_ok (fold Close ps n)"
  by (induction ps arbitrary: n) (simp_all add: Close_ok)

lemma NodeBaseToConn_ok: "NodeBaseToConn e node n = (r, n') \<Longrightarrow> node_ok n \<Longrightarrow> node_ok n'"
  by (rule mild_ok [OF NodeBaseToConn_mild])

lemma connect_watchers_ok: "node_ok n \<Longrightarrow> node_ok (connect_watchers e nodes n)"
proof (induction nodes arbitrary: n)
  case (Cons node nodes)
  obtain c err n1 where 1: "NodeBaseToConn e node n = ((c, err), n1)" by (metis surj_pair)
  have ok1: "node_ok n1" by (rule NodeBaseToConn_ok [OF 1 Cons.prems])
  have ok2: "TestTcpConn e p n1 = (t, n2) \<Longrightarrow> node_ok n2" for p t n2
    by (rule mild_ok [OF keeps_mild [OF TestTcpConn_keeps] ok1])
  show ?case using 1 ok1 ok2 Cons.IH by (auto split: option.splits prod.splits)
qed simp

lemma dial_watchers_ok: "dial_watchers e n = (err, n') \<Longrightarrow> node_ok n \<Longrightarrow> node_ok n'"
  by (auto simp: dial_watchers_def connect_watchers_ok simp del: connect_watchers.simps
      split: list.splits prod.splits dest: NodeBaseToConn_ok)

lemma close_watchers_ok: "node_ok n \<Longrightarrow> node_ok (close_watchers n)"
  unfolding close_watchers_def Let_def
  by (rule fold_Close_ok) (auto simp: Close_ok split: option.splits)

lemma InitWatchConfig_ok: "InitWatchConfig e n = (err, n') \<Longrightarrow> node_ok n \<Longrightarrow> node_ok n'"
  by (auto simp: InitWatchConfig_def split: prod.splits if_splits dest: dial_watchers_ok close_watchers_ok)

text \<open>Watchers answer a registration with functions that have an id and a name.\<close>

definition named_replies :: "pb_codec \<Rightarrow> bool" where
  "named_replies pc \<longleftrightarrow>
     (\<forall>b r. pc_dec_RegisteredRsp pc b = Inr r \<longrightarrow> (\<forall>f \<in> set (rr_Funcs r). fa_ID f \<noteq> 0 \<and> fa_Name f \<noteq> ''''))"

lemma learn_funcs_ok:
  "\<forall>f \<in> set fs. fa_ID f \<noteq> 0 \<and> fa_Name f \<noteq> '''' \<Longrightarrow> node_ok n \<Longrightarrow> node_ok (learn_funcs fs n)"
proof (induction fs arbitrary: n)
  case (Cons f fs)
  then have "node_ok (store_func \<lparr>rd_msg = func_msg f, rd_one = True, rd_node = []\<rparr> n)"
    by (auto simp: node_ok_def store_func_ok func_msg_def split: prod.splits)
  with Cons show ?case by simp
qed simp

lemma learn_watchers_ok: "node_ok n \<Longrightarrow> node_ok (learn_watchers e nodes n)"
proof (induction nodes arbitrary: n)
  case (Cons node nodes)
  obtain c err n1 where 1: "NodeBaseToConn e node n = ((c, err), n1)" by (metis surj_pair)
  with NodeBaseToConn_ok [OF 1 Cons.prems] Cons.IH show ?case
    by (auto split: option.splits)
qed simp

lemma MasterCall_reply:
  assumes "MasterCall e (Some dec) fid bts n = (Inr (Some r), n')"
  shows "\<exists>b. dec b = Inr r"
proof -
  have w: "ProtoWaitRsp e (Some dec) p num n = (Inr (Some r), n') \<Longrightarrow> \<exists>b. dec b = Inr r" for p num n n'
    by (auto simp: ProtoWaitRsp_def split: prod.splits wait_result.splits if_splits sum.splits)
  have t: "watch_try e (Some dec) fid bts num p n = (Some (Inr (Some r)), n') \<Longrightarrow> \<exists>b. dec b = Inr r" for num p n n'
    by (auto simp: watch_try_def split: ConnType.splits prod.splits option.splits dest: w)
  have l: "slaves_loop e (Some dec) fid bts num ps n = (Inr (Some r), n') \<Longrightarrow> \<exists>b. dec b = Inr r" for num ps n n'
    by (induction ps arbitrary: n) (auto split: prod.splits option.splits dest: t)
  show ?thesis
    using assms by (auto simp: MasterCall_def SlavesCall_def split: option.splits if_splits prod.splits dest: t l)
qed

lemma WatchRegister_ok:
  assumes "WatchRegister e pc n = (err, n')" "node_ok n" "named_replies pc"
  shows "node_ok n'"
proof (cases "pc_enc_NodeInfo pc (nd_info n)")
  case (Inl x)
  with assms show ?thesis by (simp add: WatchRegister_def)
next
  case (Inr bts)
  obtain r n1 where 1: "MasterCall e (Some (pc_dec_RegisteredRsp pc)) Registered bts n = (r, n1)" by fastforce
  have ok: "node_ok n1" by (rule mild_ok [OF keeps_mild [OF MasterCall_keeps [OF 1]] assms(2)])
  have upd: "node_ok (m\<lparr>nd_wser := w\<rparr>) = node_ok m" for m :: NodeDetail and w
    by (simp add: node_ok_def funcs_ok_def conns_ok_def)
  have names: "\<forall>f \<in> set (rr_Funcs s). fa_ID f \<noteq> 0 \<and> fa_Name f \<noteq> ''''" if "r = Inr (Some s)" for s
    using MasterCall_reply [OF 1 [unfolded that]] assms(3) by (auto simp: named_replies_def)
  show ?thesis
  proof (cases r)
    case (Inr x)
    with assms(1) 1 ok upd names \<open>pc_enc_NodeInfo pc (nd_info n) = Inr bts\<close> show ?thesis
      by (cases x)
        (auto simp: WatchRegister_def filled_def Let_def learn_funcs_ok learn_watchers_ok split: if_splits)
  qed (use assms(1) 1 ok \<open>pc_enc_NodeInfo pc (nd_info n) = Inr bts\<close> in \<open>auto simp: WatchRegister_def filled_def\<close>)
qed

lemma timer_check_keeps:
  assumes "timer_check e p n = (r, n')"
  shows "keeps n n'"
proof -
  have refresh: "keeps n k \<Longrightarrow> keeps n (snd (RefreshConn e p k))" for k
    by (metis RefreshConn_keeps keeps_trans prod.collapse)
  define chk where "chk = (case nc_types (nd_conn n p) of
      ConnWithTCP \<Rightarrow> (case TestTcpConn e p n of (None, n) \<Rightarrow> (False, n) | (Some _, n) \<Rightarrow> (False, snd (RefreshConn e p n)))
    | ConnWithUDP \<Rightarrow> (case TestUdpConn e p n of (None, n) \<Rightarrow> (False, n) | (Some _, n) \<Rightarrow> (False, snd (RefreshConn e p n)))
    | ConnWithHTTP \<Rightarrow> (case HttpPingTest e n of (None, n) \<Rightarrow> (False, n) | (Some _, n) \<Rightarrow> (False, snd (RefreshConn e p n)))
    | ConnUnset \<Rightarrow> (case RefreshConn e p n of (err, n) \<Rightarrow> (err \<noteq> None, n)))"
  obtain stop n1 where c: "chk = (stop, n1)" by fastforce
  have k: "keeps n n1"
    using c refresh
    by (auto simp: chk_def HttpPingTest_def split: ConnType.splits prod.splits option.splits
        dest: TestTcpConn_keeps TestUdpConn_keeps net_op_keeps RefreshConn_keeps)
  have "keeps n (upd_conn p (\<lambda>c. c\<lparr>nc_rc := f c\<rparr>) n1)" for f
    by (rule keeps_upd_trans [OF k]) simp
  with assms k show ?thesis
    unfolding timer_check_def chk_def [symmetric] c by (auto simp: Let_def split: if_splits)
qed

lemma rpc_PutMsg_fold_ok: "node_ok n \<Longrightarrow> node_ok (fold (\<lambda>row n. snd (rpc_PutMsg row n)) rows n)"
  by (rule mild_ok [OF fold_PutMsg_mild])

lemma runServer_ok: "runServer e pc tcp udp rows n = (err, n') \<Longrightarrow> node_ok n \<Longrightarrow> named_replies pc \<Longrightarrow> node_ok n'"
  by (auto simp: runServer_def rpc_PutMsg_fold_ok split: if_splits dest: WatchRegister_ok)

lemma heartbeat_tick_ok:
  assumes "heartbeat_tick e pc state wrong n = (w, n')" "node_ok n" "named_replies pc"
  shows "node_ok n'"
proof -
  obtain r n1 where 1: "wser_Heartbeats e pc state n = (r, n1)" by fastforce
  then obtain bts x where "MasterCall e (None :: (byte list \<Rightarrow> error + unit) option) Heartbeats bts n = (x, n1)"
    by (auto simp: wser_Heartbeats_def Let_def split: prod.splits sum.splits)
  then have ok: "node_ok n1" by (rule mild_ok [OF keeps_mild [OF MasterCall_keeps] assms(2)])
  have reg: "WatchRegister e pc k = (r, k') \<Longrightarrow> node_ok k \<Longrightarrow> node_ok k'" for k r k'
    using WatchRegister_ok assms(3) by blast
  obtain r2 n2 where 2: "WatchRegister e pc n1 = (r2, n2)" by fastforce
  obtain r3 n3 where 3: "InitWatchConfig e n2 = (r3, n3)" by fastforce
  obtain r4 n4 where 4: "WatchRegister e pc n3 = (r4, n4)" by fastforce
  have "node_ok n2" by (rule reg [OF 2 ok])
  moreover from InitWatchConfig_ok [OF 3 this] have "node_ok n3" .
  moreover from reg [OF 4 this] have "node_ok n4" .
  ultimately show ?thesis
    using assms(1) ok 1 2 3 4
    by (auto simp: heartbeat_tick_def Let_def split: option.splits if_splits)
qed

text \<open>Registering services changes the part of the node that services use.\<close>

lemma publish_tables:
  "nd_ids (publish s ks n) = nd_ids n" "nd_str (publish s ks n) = nd_str n" "nd_ser (publish s ks n) = nd_ser n"
  "nd_conn (publish s ks n) = nd_conn n" "nd_conns (publish s ks n) = nd_conns n"
  "nd_wser (publish s ks n) = nd_wser n" "ni_Name (nd_info (publish s ks n)) = ni_Name (nd_info n)"
  for n :: NodeDetail
  by (induction ks arbitrary: n) (auto simp: Let_def httpCall_def split: option.splits)

lemma Register_tables:
  fixes n :: NodeDetail
  assumes "Register order sname ms n = Ret (err, n')"
  shows "nd_ids n' = nd_ids n" "nd_str n' = nd_str n" "nd_ser n' = nd_ser n" "nd_conn n' = nd_conn n"
    "nd_conns n' = nd_conns n" "nd_wser n' = nd_wser n" "ni_Name (nd_info n') = ni_Name (nd_info n)"
  using assms by (auto simp: Register_def go_bind_Ret_iff publish_tables split: option.splits)

lemma Register_ok:
  fixes n :: NodeDetail
  assumes "Register order sname ms n = Ret (err, n')" "node_ok n"
  shows "node_ok n'"
  using assms(2) Register_tables [OF assms(1)] by (simp add: node_ok_def funcs_ok_def conns_ok_def)

section \<open>Steps\<close>

inductive node_step :: "pb_codec \<Rightarrow> 'v codec \<Rightarrow> NodeDetail \<Rightarrow> NodeDetail \<Rightarrow> bool" for pc cd where
  registers: "Register order sname ms n = Ret (err, n') \<Longrightarrow> node_step pc cd n n'"
| runs: "runServer e pc tcp udp rows n = (err, n') \<Longrightarrow> node_step pc cd n n'"
| calls: "call e pc cd exec uuid name req rsp n = Ret (r, n') \<Longrightarrow> node_step pc cd n n'"
| sends: "send e pc cd exec uuid name req n = Ret (r, n') \<Longrightarrow> node_step pc cd n n'"
| calls_multi: "multi e pc cd exec uuid name args n = Ret (r, n') \<Longrightarrow> node_step pc cd n n'"
| sends_all: "sendall e pc cd name req n = Ret (s, n') \<Longrightarrow> node_step pc cd n n'"
| watch_sends: "WatchSend e cd uuid fid bts n = (err, n') \<Longrightarrow> node_step pc cd n n'"
| watch_calls: "WatchCall e cd uuid fid bts rsp n = (s, n') \<Longrightarrow> node_step pc cd n n'"
| serves: "serve e pc cd zero exec nb types remote m ds n = Ret (rows, m', n') \<Longrightarrow> node_step pc cd n n'"
| checks: "timer_check e p n = (b, n') \<Longrightarrow> node_step pc cd n n'"
| clears: "node_step pc cd n (ClearConn now n)"
| beats: "heartbeat_tick e pc state wrong n = (w, n') \<Longrightarrow> node_step pc cd n n'"

inductive_cases node_stepE: "node_step pc cd n n'"

lemma node_step_ok: "node_step pc cd n n' \<Longrightarrow> named_replies pc \<Longrightarrow> node_ok n \<Longrightarrow> node_ok n'"
proof (induction rule: node_step.induct)
  case (registers order sname ms n err n')
  then show ?case by (blast intro: Register_ok)
next
  case (runs e tcp udp rows n err n')
  then show ?case by (blast intro: runServer_ok)
next
  case (checks e p n b n')
  then show ?case by (blast intro: mild_ok keeps_mild timer_check_keeps)
next
  case (beats e state wrong n w n')
  then show ?case by (blast intro: heartbeat_tick_ok)
qed (blast intro: mild_ok call_mild send_mild multi_mild sendall_mild WatchSend_mild WatchCall_mild
  serve_mild ClearConn_mild)+

interpretation node_life: step_invariant "node_step pc cd" "\<lambda>n. named_replies pc \<longrightarrow> node_ok n" for pc cd
  by unfold_locales (auto intro: node_step_ok)

lemma node_steps_ok: "(node_step pc cd)\<^sup>*\<^sup>* n n' \<Longrightarrow> named_replies pc \<Longrightarrow> node_ok n \<Longrightarrow> node_ok n'"
  using node_life.reachable by blast

lemma fresh_node_ok: "node_ok (fresh_node base ws heart)"
  by (simp add: node_ok_def funcs_ok_def conns_ok_def fresh_node_def)

lemma initMsgByte_tables:
  assumes "initMsgByte pc n = (err, n')"
  shows "nd_ids n' = nd_ids n" "nd_str n' = nd_str n" "nd_ser n' = nd_ser n" "nd_conn n' = nd_conn n"
    "nd_conns n' = nd_conns n" "nd_wser n' = nd_wser n" "nd_info n' = nd_info n"
  using assms by (auto simp: initMsgByte_def Let_def split: sum.splits if_splits)

lemma initMsgByte_ok: "initMsgByte pc n = (err, n') \<Longrightarrow> node_ok n \<Longrightarrow> node_ok n'"
  using initMsgByte_tables [of pc n err n'] by (simp add: node_ok_def funcs_ok_def conns_ok_def)

lemma newClient_ok: "newClient e pc hash pid ip free config = (Some n, err) \<Longrightarrow> node_ok n"
  by (auto simp: newClient_def Let_def split: sum.splits option.splits prod.splits if_splits
      dest!: initMsgByte_ok InitWatchConfig_ok intro: fresh_node_ok)

lemma newClient_watcher:
  assumes "newClient e pc hash pid ip free config = (Some n, None)" "cf_NodeName config = WatchNodeName"
  shows "wt_master (nd_wser n) = None" "wt_slaves (nd_wser n) = []" "ni_Name (nd_info n) = WatchNodeName"
  using assms
  by (auto simp: newClient_def Let_def fresh_node_def split: sum.splits option.splits prod.splits if_splits
      dest: initMsgByte_tables)

section \<open>Properties\<close>

text \<open>A network on which everything works and nobody answers, a protobuf library, and a watcher.\<close>

definition mute_env :: net_env where
  "mute_env = \<lparr>ne_err = (\<lambda>_. None), ne_wait = (\<lambda>_. CtxDone ''context deadline exceeded''),
     ne_post = (\<lambda>_. Inl ''refused''), ne_now = (\<lambda>_. 0)\<rparr>"

definition toy_pb :: pb_codec where
  "toy_pb = \<lparr>pc_enc_NodeInfo = (\<lambda>_. Inr []), pc_dec_NodeInfo = (\<lambda>_. Inr NodeInfo_zero),
     pc_dec_RegisteredRsp = (\<lambda>_. Inl ''no''), pc_enc_SystemStatus = (\<lambda>_. Inr []),
     pc_enc_GetFuncMsgReq = (\<lambda>_ _. Inr []), pc_dec_GetFuncMsgRsp = (\<lambda>_. Inl ''no''),
     pc_enc_GetNodeMsgReq = (\<lambda>_ _. Inr []), pc_dec_GetNodeMsgRsp = (\<lambda>_. Inl ''no''),
     pc_enc_GetApiConnReq = (\<lambda>_ _. Inr []), pc_dec_GetApiConnRsp = (\<lambda>_. Inl ''no''),
     pc_enc_MultiBody = (\<lambda>_. Inr []), pc_dec_MultiBody = (\<lambda>_. Inl ''no''), pc_dec_UpFuncList = (\<lambda>_. Inr [])\<rparr>"

definition watcher_config :: NodeConfig where
  "watcher_config = \<lparr>cf_Version = [], cf_NodeName = WatchNodeName, cf_Watchers = [], cf_IPAddr = [], cf_HeartBeatTime = 0,
     cf_TcpPort = 1, cf_TcpListenOff = False, cf_UdpPort = 0, cf_UdpListenOn = False, cf_HttpPort = 0,
     cf_HttpListenOff = True\<rparr>"

lemma watcher_starts:
  "\<exists>n. newClient mute_env toy_pb (\<lambda>_ _. ''u'') 1 (Inr ''h'') (\<lambda>_. Inr 7) watcher_config = (Some n, None)"
  by (simp add: newClient_def watcher_config_def choose_port_def initMsgByte_def toy_pb_def Let_def
      tcp.MakeReqBody_nil udp.MakeReqBody_nil)

lemma toy_named: "named_replies toy_pb"
  by (simp add: named_replies_def toy_pb_def)



text \<open>C16: The watcher cannot serve its own functions: whatever it has served since it started, and with its
  handlers registered, it answers every request for a function above the reserved ones with an error, because
  it looks the function up in its cache and then asks a watcher, which it has not.\<close>

theorem watcher_refuses_every_call:
  assumes "newClient e pc hash pid ip free config = (Some n0, None)" and "cf_NodeName config = WatchNodeName"
    and "Register order sname ms n0 = Ret (None, n1)"
    and "runServer e pc tcp udp rows n1 = (None, n2)"
    and "serve e pc cd zero exec nb types remote m0 ds n2 = Ret (out, m, n)"
    and "ParseResp nb m d = Ret (m', (num, fid, bts, None))" and "0 < num" and "BUILT_IN_MAX \<le> fid"
  shows "\<exists>n'. ParseRspByte e pc cd zero exec nb types remote m d n =
    Ret (MakeRspBody nb bts num fid (Some ''not found server api mapping in server: ''), m', n')"
proof -
  have "alone n0"
    using newClient_ok [OF assms(1)] newClient_watcher [OF assms(1,2)] by (simp add: alone_def node_ok_def)
  then have "alone n1" using Register_tables [OF assms(3)] by (simp add: alone_def funcs_ok_def)
  moreover have "ni_Name (nd_info n1) = WatchNodeName"
    using Register_tables(7) [OF assms(3)] newClient_watcher(3) [OF assms(1,2)] by simp
  ultimately have "alone n2"
    using assms(4) mild_alone [OF fold_PutMsg_mild] by (auto simp: runServer_def split: if_splits)
  then have "alone n" by (rule mild_alone [OF serve_mild [OF assms(5)]])
  from alone_refuses [OF this assms(7,8)] obtain n' where
    "respond e pc cd zero exec nb types remote (num, fid, bts, None) n =
      Ret (MakeRspBody nb bts num fid (Some ''not found server api mapping in server: ''), n')" by blast
  with assms(6) show ?thesis by (simp add: ParseRspByte_def)
qed

lemma echo_registers_node: "\<exists>n'. Register [''Echo''] sname [echo_method] n = Ret (None, n')" for n :: NodeDetail
proof -
  have "\<not> snd (CheckProtocal (me_Name echo_method))" by (simp add: CheckProtocal_def echo_method_def)
  then show ?thesis by (simp add: Register_def echo_parses split: prod.splits bool.splits)
qed

text \<open>One frame that holds a whole request.\<close>

lemma single_frame:
  assumes "MakeReqBody nb bts num fid = [d]" "receive nb m [d] = Ret (m, [(num, fid, bts, None)])"
  shows "ParseResp nb m d = Ret (m, (num, fid, bts, None))"
  using assms(2) by (auto simp: go_bind_Ret_iff)

lemma short_request:
  assumes "num < 16777216" "fid < 65536" "m num = None"
  shows "\<exists>d. MakeReqBody tcpsplit [b] num fid = [d] \<and> ParseResp tcpsplit m d = Ret (m, (num, fid, [b], None))"
proof -
  have "length (MakeReqBody tcpsplit [b] num fid) = 1"
    unfolding tcp.length_MakeReqBody by (simp add: frame_count_def tcpsplit_def)
  then obtain d where d: "MakeReqBody tcpsplit [b] num fid = [d]"
    by (auto simp: length_Suc_conv)
  have "receive tcpsplit m [d] = Ret (m, replicate (length [d] - 1) no_resp @ [(num, fid, [b], None)])"
    by (rule tcp.receive_one) (use assms d in \<open>simp_all add: tcpsplit_def\<close>)
  with single_frame [OF d] d show ?thesis by simp
qed

theorem watcher_refuses_every_call_witness:
  "\<exists>n d n'. ParseRspByte mute_env toy_pb bytes_codec (\<lambda>_. []) quiet_method tcpsplit ConnWithTCP None Map.empty d n =
    Ret (MakeRspBody tcpsplit [1] 5 80 (Some ''not found server api mapping in server: ''), Map.empty, n')"
proof -
  obtain n0 where n0: "newClient mute_env toy_pb (\<lambda>_ _. ''u'') 1 (Inr ''h'') (\<lambda>_. Inr 7) watcher_config = (Some n0, None)"
    using watcher_starts by blast
  have w: "cf_NodeName watcher_config = WatchNodeName" by (simp add: watcher_config_def)
  obtain n1 where n1: "Register [''Echo''] ''WatchApi'' [echo_method] n0 = Ret (None, n1)"
    using echo_registers_node by blast
  obtain n2 where n2: "runServer mute_env toy_pb None None WatchFmsg n1 = (None, n2)"
    using Register_tables(7) [OF n1] newClient_watcher(3) [OF n0 w] by (simp add: runServer_def)
  obtain d where d: "ParseResp tcpsplit Map.empty d = Ret (Map.empty, (5, 80, [1], None))"
    using short_request [where num = 5 and fid = 80 and m = Map.empty and b = 1] by auto
  have s: "serve mute_env toy_pb bytes_codec (\<lambda>_. []) quiet_method tcpsplit ConnWithTCP None Map.empty [] n2 =
      Ret ([], Map.empty, n2)" by simp
  show ?thesis
    using watcher_refuses_every_call [OF n0 w n1 n2 s d] by (auto simp: BUILT_IN_MAX_def)
qed

text \<open>A client that knows one watcher, and the state it starts in.\<close>

definition client_config :: NodeConfig where
  "client_config = \<lparr>cf_Version = [], cf_NodeName = ''A'',
     cf_Watchers = [\<lparr>wc_Host = ''w'', wc_TcpPort = 9, wc_UdpPort = 0, wc_HttpPort = 0, wc_ConfigPath = []\<rparr>], cf_IPAddr = [],
     cf_HeartBeatTime = 0, cf_TcpPort = 1, cf_TcpListenOff = False, cf_UdpPort = 0, cf_UdpListenOn = False,
     cf_HttpPort = 0, cf_HttpListenOff = True\<rparr>"

lemma client_starts:
  "\<exists>n. newClient mute_env toy_pb (\<lambda>_ _. ''u'') 1 (Inr ''h'') (\<lambda>_. Inr 7) client_config = (Some n, None) \<and>
     nd_ser n = [[] \<mapsto> 0] \<and> wt_master (nd_wser n) = Some 0 \<and> nc_types (nd_conn n 0) = ConnWithTCP \<and>
     nc_tconn (nd_conn n 0) = Some 0 \<and> nc_uconn (nd_conn n 0) = None \<and>
     ni_Tport (nc_info (nd_conn n 0)) = 9 \<and> ni_Hport (nc_info (nd_conn n 0)) = 0 \<and>
     \<not> nc_wrong (nd_conn n 0) \<and> ni_Uuid (nd_info n) = ''u'' \<and> nd_ops n = 3 \<and> ni_Name (nd_info n) = ''A''"
  by (simp add: newClient_def client_config_def choose_port_def initMsgByte_def toy_pb_def Let_def
      tcp.MakeReqBody_nil udp.MakeReqBody_nil WatchNodeName_def InitWatchConfig_def close_watchers_def
      dial_watchers_def NodeBaseToConn_def make_conn_def GetNodeConn_def fresh_node_def RefreshConn_def
      refresh_tcp_def DialTCP_def dial_def net_op_def mute_env_def sock_write_def TestTcpConn_def upd_conn_def
      fresh_conn_def NodeInfo_zero_def set_watchers_def read_loop_def PutConn_def TimerCheck_def)



text \<open>The numbers of \<open>k\<close> requests in a row.\<close>

fun serials :: "uint32 \<Rightarrow> nat \<Rightarrow> NodeDetail \<Rightarrow> nat list" where
  "serials fid 0 n = []"
| "serials fid (Suc k) n = (case serial fid n of (num, n) \<Rightarrow> num # serials fid k n)"

lemma serials_run:
  "WATCH_IN_MAX \<le> unat fid \<Longrightarrow> 99 \<le> unat (nd_reqnum n) \<Longrightarrow> unat (nd_reqnum n) + k < 2 ^ 32 \<Longrightarrow>
    serials fid k n = map (\<lambda>i. (unat (nd_reqnum n) + 1 + i) mod 65535) [0..<k]"
proof (induction k arbitrary: n)
  case (Suc k)
  have u: "unat (nd_reqnum n + 1) = unat (nd_reqnum n) + 1"
    using Suc.prems(3) by (simp add: unat_word_ariths)
  show ?case
    using Suc.prems Suc.IH [of "n\<lparr>nd_reqnum := nd_reqnum n + 1\<rparr>"] u
    by (simp add: serial_def Let_def WATCH_IN_MAX_def upt_conv_Cons map_Suc_upt [symmetric] del: upt_Suc)
qed simp

lemma mod_shift_inj: "inj_on (\<lambda>i. (a + i) mod m) {..<m}" for a m :: nat
proof -
  have "i = j" if "i \<le> j" "j < m" "(a + i) mod m = (a + j) mod m" for i j
  proof -
    have "m dvd j - i"
      using mod_eq_dvd_iff_nat [of "a + i" "a + j" m] that by simp
    moreover have "j - i < m" using that by simp
    ultimately have "j - i = 0" using nat_dvd_not_less by blast
    with that show ?thesis by simp
  qed
  then show ?thesis by (intro inj_onI) (metis lessThan_iff nat_le_linear)
qed



text \<open>A watcher that answers every question, and what it says of functions.\<close>

definition talk_env :: net_env where
  "talk_env = mute_env\<lparr>ne_wait := \<lambda>_. Body [1]\<rparr>"

definition echo_api :: FuncApi where
  "echo_api = \<lparr>fa_ID = 200, fa_Name = ''Svc.Rev'', fa_Type = Call, fa_Kind = PROTO\<rparr>"

definition talk_pb :: pb_codec where
  "talk_pb = toy_pb\<lparr>pc_dec_GetFuncMsgRsp := \<lambda>_. Inr \<lparr>gf_Func = Some echo_api, gf_List = []\<rparr>\<rparr>"

lemma echo_msg [simp]:
  "func_msg echo_api = \<lparr>fmsg_FuncID = 200, fmsg_ApiName = ''Svc.Rev'', fmsg_ServName = ''Svc'', fmsg_FuncName = ''Rev'',
     fmsg_ApiType = Call, fmsg_Protocal = PROTO\<rparr>"
  by (simp add: func_msg_def echo_api_def comm_SplitApiName_def)

lemma client_asks:
  assumes "wt_master (nd_wser n) = Some 0" "nc_types (nd_conn n 0) = ConnWithTCP" "nc_tconn (nd_conn n 0) = Some 0"
    "funcs_ok n"
  shows "\<exists>n'. QueryFunc talk_env talk_pb fid name n = (Some (func_msg echo_api), n')"
proof -
  have "\<exists>n'. wser_GetFuncMsg talk_env talk_pb fid name n = ((\<lparr>gf_Func = Some echo_api, gf_List = []\<rparr>, None), n')"
    using assms(1-3)
    by (simp add: wser_GetFuncMsg_def talk_pb_def toy_pb_def MasterCall_def watch_num_def Let_def watch_try_def
        tcp.MakeReqBody_nil sock_write_def net_op_def talk_env_def mute_env_def ProtoWaitRsp_def wait_chan_def
        filled_def upd_conn_def)
  then obtain n1 where 1: "wser_GetFuncMsg talk_env talk_pb fid name n = ((\<lparr>gf_Func = Some echo_api, gf_List = []\<rparr>, None), n1)"
    by blast
  have "funcs_ok n1"
    using wser_keeps(1) [OF 1] assms(4) keeps_mild mild_def by blast
  then show ?thesis
    using 1 Query_misses [OF assms(4)] Query_misses [of n1] by (simp add: QueryFunc_def rpc_PutMsg_def)
qed

text \<open>The list of nodes that a node keeps for a function is of no use: whenever it has looked up a function, the entry
  it has stored says that no node serves it, so that a watcher is asked for connections at every call. The
  dereference of a missing function in \<open>GetFuncConn\<close> is not reached.\<close>

lemma nodes_never_cached:
  assumes "named_replies pc" and "newClient e pc hash pid ip free config = (Some n0, err)"
    and "(node_step pc cd)\<^sup>*\<^sup>* n0 n" and "QueryFunc e1 pc fid name n = (Some fmsg, n')"
    and "fmsg_FuncID fmsg \<noteq> 0" and "fmsg_ApiName fmsg \<noteq> ''''"
  shows "GetFuncConn (fmsg_FuncID fmsg) (fmsg_ApiName fmsg) n' = Ret [] \<and>
    (\<exists>r. GetRemoteConn e' pc fmsg n' = Ret r)"
proof -
  have ok: "funcs_ok n"
    using node_steps_ok [OF assms(3,1) newClient_ok [OF assms(2)]] by (simp add: node_ok_def)
  obtain rsp q n1 where 1: "wser_GetFuncMsg e1 pc fid name n = ((rsp, q), n1)" by (metis surj_pair)
  have "funcs_ok n1" using keeps_mild [OF wser_keeps(1) [OF 1]] ok by (simp add: mild_def)
  then have miss: "Query f s n1 = None" for f s by (rule Query_misses)
  obtain f where "rpc_PutMsg f n1 = (fmsg, n')"
    using assms(4) 1 Query_misses [OF ok] by (auto simp: QueryFunc_def split: option.splits prod.splits)
  with assms(5,6) miss have "n' = store_func \<lparr>rd_msg = fmsg, rd_one = False, rd_node = []\<rparr> n1"
    by (auto simp: rpc_PutMsg_def split: if_splits)
  with assms(6) have "GetFuncConn (fmsg_FuncID fmsg) (fmsg_ApiName fmsg) n' = Ret []"
    by (simp add: GetFuncConn_def store_func_def List.map_filter_def)
  then show ?thesis by (auto simp: GetRemoteConn_def split: prod.splits)
qed

lemma nodes_never_cached_witness:
  "\<exists>n. GetFuncConn 200 ''Svc.Rev'' n = Ret [] \<and> (\<exists>r. GetRemoteConn mute_env talk_pb (func_msg echo_api) n = Ret r)"
proof -
  obtain n0 where n0: "newClient mute_env toy_pb (\<lambda>_ _. ''u'') 1 (Inr ''h'') (\<lambda>_. Inr 7) client_config = (Some n0, None)"
    and s: "wt_master (nd_wser n0) = Some 0" "nc_types (nd_conn n0 0) = ConnWithTCP" "nc_tconn (nd_conn n0 0) = Some 0"
    using client_starts by blast
  have "initMsgByte talk_pb = initMsgByte toy_pb" by (simp add: initMsgByte_def talk_pb_def fun_eq_iff)
  then have "newClient mute_env talk_pb = newClient mute_env toy_pb"
    unfolding newClient_def by (rule subst) (rule refl)
  then have n0': "newClient mute_env talk_pb (\<lambda>_ _. ''u'') 1 (Inr ''h'') (\<lambda>_. Inr 7) client_config = (Some n0, None)"
    using n0 by simp
  have named: "named_replies talk_pb" using toy_named by (simp add: named_replies_def talk_pb_def)
  have "funcs_ok n0" using newClient_ok [OF n0] by (simp add: node_ok_def)
  then obtain n1 where q: "QueryFunc talk_env talk_pb 0 ''Svc.Rev'' n0 = (Some (func_msg echo_api), n1)"
    using client_asks [OF s] by blast
  have steps: "(node_step talk_pb bytes_codec)\<^sup>*\<^sup>* n0 n0" by simp
  show ?thesis
    using nodes_never_cached [OF named n0' steps q, where e' = mute_env]
    by (intro exI [of _ n1]) simp
qed

text \<open>A call by a name with three parts, the first of them the name of another node, always fails, although the
  function is known and the request can be encoded: no function looks for the connections of a node by its
  name.\<close>

lemma calls_by_node_name_fail:
  assumes "SplitApiName name = (nodename, apiname)" and "nodename \<noteq> ''''" and "nodename \<noteq> ni_Name (nd_info n)"
    and "QueryFunc e pc 0 apiname n = (Some fmsg, n1)" and "MarshalInterface cd (fmsg_Protocal fmsg) req = Inr bts"
    and "fmsg_ApiType fmsg = Call"
  shows "call e pc cd exec '''' name req rsp n =
    Ret (call_resp (Some ''no multi remote or get remote error'') NodeInfo_zero ''Comm'' None, n1)"
proof -
  have "name \<noteq> ''''" using assms(1,2) by (auto simp: SplitApiName_def)
  moreover have "nd_info n1 = nd_info n" using QueryFunc_mild [OF assms(4)] by (simp add: mild_def)
  ultimately show ?thesis
    using assms by (simp add: call_def local_call_def remoteCall_def GetAssignConn_def)
qed

lemma calls_by_node_name_fail_witness:
  "\<exists>n n1. call talk_env talk_pb bytes_codec quiet_method '''' ''B.Svc.Rev'' [1] (Some (msg_type, [])) n =
    Ret (call_resp (Some ''no multi remote or get remote error'') NodeInfo_zero ''Comm'' None, n1)"
proof -
  obtain n0 where n0: "newClient mute_env toy_pb (\<lambda>_ _. ''u'') 1 (Inr ''h'') (\<lambda>_. Inr 7) client_config = (Some n0, None)"
    and s: "wt_master (nd_wser n0) = Some 0" "nc_types (nd_conn n0 0) = ConnWithTCP" "nc_tconn (nd_conn n0 0) = Some 0"
    and name: "ni_Name (nd_info n0) = ''A''"
    using client_starts by blast
  have "funcs_ok n0" using newClient_ok [OF n0] by (simp add: node_ok_def)
  then obtain n1 where q: "QueryFunc talk_env talk_pb 0 ''Svc.Rev'' n0 = (Some (func_msg echo_api), n1)"
    using client_asks [OF s] by blast
  have "SplitApiName ''B.Svc.Rev'' = (''B'', ''Svc.Rev'')" by (simp add: SplitApiName_def)
  from calls_by_node_name_fail [OF this _ _ q, where cd = bytes_codec and req = "[1]" and bts = "[1]"]
  show ?thesis
    by (auto simp: name bytes_codec_def MarshalInterface_def)
qed

text \<open>When it has tried to send to any node, \<open>sendall\<close> reports success, whatever became of the messages: the list of
  failures that its error is made from is never filled. It fails exactly when there is nobody to send to or
  nothing to send.\<close>

lemma sendall_hides_failures:
  assumes "sendall e pc cd name req n = Ret ((err, results), n')"
  shows "err = None \<longleftrightarrow> results \<noteq> []"
  using assms
proof (cases rule: sendall_cases)
  case sends
  with sendall_prepare_mild [OF sends(1)] send_each_keeps [OF sends(2)] show ?thesis by auto
qed simp

text \<open>The connection to the watcher breaks after eight operations, just before the message is sent.\<close>

definition break_env :: net_env where
  "break_env = talk_env\<lparr>ne_err := \<lambda>k. if k < 8 then None else Some ''broken pipe''\<rparr>"

definition break_pb :: pb_codec where
  "break_pb = talk_pb\<lparr>pc_dec_GetApiConnRsp := \<lambda>_. Inr \<lparr>ga_Func = None, ga_List = [NodeInfo_zero]\<rparr>\<rparr>"

lemma sendall_hides_failures_witness:
  "\<exists>n r n'. sendall break_env break_pb bytes_codec ''Svc.Rev'' [] n = Ret ((None, [r]), n') \<and> \<not> sr_Success r"
proof -
  obtain n0 where n0: "newClient mute_env toy_pb (\<lambda>_ _. ''u'') 1 (Inr ''h'') (\<lambda>_. Inr 7) client_config = (Some n0, None)"
    and s: "nd_ser n0 = [[] \<mapsto> 0]" "wt_master (nd_wser n0) = Some 0" "nc_types (nd_conn n0 0) = ConnWithTCP"
      "nc_tconn (nd_conn n0 0) = Some 0" "nc_uconn (nd_conn n0 0) = None"
      "ni_Tport (nc_info (nd_conn n0 0)) = 9" "ni_Hport (nc_info (nd_conn n0 0)) = 0" "nd_ops n0 = 3"
    using client_starts by blast
  have f: "nd_ids n0 0 = None" "nd_str n0 '''' = None" using newClient_ok [OF n0] by (simp_all add: node_ok_def funcs_ok_def)
  have "\<exists>err r n'. sendall break_env break_pb bytes_codec ''Svc.Rev'' [] n0 = Ret ((err, [r]), n') \<and> \<not> sr_Success r"
    using s f
    by (simp add: sendall_def sendall_prepare_def SplitApiName_def QueryFunc_def Query_def wser_GetFuncMsg_def wser_GetApiConn_def break_pb_def talk_pb_def toy_pb_def MasterCall_def watch_num_def Let_def watch_try_def
        tcp.MakeReqBody_nil sock_write_def net_op_def break_env_def talk_env_def mute_env_def ProtoWaitRsp_def wait_chan_def
        filled_def upd_conn_def rpc_PutMsg_def store_func_def
        GetRemoteConn_def GetFuncConn_def List.map_filter_def GetNodeConn_def NodeInfo_zero_def TestConn_def TestTcpConn_def
        MarshalInterface_def bytes_codec_def serial_def WATCH_IN_MAX_def send_one_def conn_info_def)
  then obtain err r n' where send: "sendall break_env break_pb bytes_codec ''Svc.Rev'' [] n0 = Ret ((err, [r]), n')" and "\<not> sr_Success r"
    by blast
  moreover have "err = None" using sendall_hides_failures [OF send] by simp
  ultimately show ?thesis by blast
qed

end
