(* ===== verification/SendAll.thy ===== *)
theory SendAll
  imports NodeLife
begin

text \<open>
  The goroutines of \<open>sendall\<close> (network/rpc/invoke.go), one for each connection, as the program runs them: all
  at once. They share four things: the network with the counters of the node, the list of results (under a
  mutex), the frames for UDP, which the first that needs them makes, and the variable \<open>err\<close> of \<open>sendall\<close>
  itself, to which every goroutine assigns the result of every \<open>Write\<close> before it looks at it. Here a
  goroutine is cut at every access to one of them; assignments of whole variables are atomic.

  Whatever the order, the goroutines end, and they leave one result for each connection. One after the
  other they are \<^const>\<open>send_each\<close> of theory Invoke. In other orders the results can be wrong: a message that
  could not be sent is reported as sent.
\<close>

section \<open>State and steps\<close>

record sendall_vars =
  sl_node :: NodeDetail
  sl_err :: "error option"
  sl_udpRow :: "byte list list"
  sl_Result :: "SendRsp list"

datatype via = ViaTCP | ViaUDP

text \<open>
  Where a goroutine is: before the loop over the frames or at its head; after a \<open>Write\<close>, with what it
  returned; after the assignment to \<open>err\<close>; behind the loop over TCP; about to make the frames for UDP; about to
  read them; behind the loop over UDP; about to lock the mutex; done. The first argument is the connection.
\<close>

datatype sender =
    Begin nat
  | Writing nat SendRsp via "byte list list"
  | Wrote nat SendRsp via "byte list list" "error option"
  | Testing nat SendRsp via "byte list list"
  | AfterTcp nat SendRsp
  | FillUdp nat SendRsp
  | RangeUdp nat SendRsp
  | AfterUdp nat SendRsp
  | Append nat SendRsp
  | Gone

definition sender_sock :: "NodeDetail \<Rightarrow> nat \<Rightarrow> via \<Rightarrow> nat option" where
  "sender_sock n p v = (case v of ViaTCP \<Rightarrow> nc_tconn (nd_conn n p) | ViaUDP \<Rightarrow> nc_uconn (nd_conn n p))"

definition after_loop :: "nat \<Rightarrow> SendRsp \<Rightarrow> via \<Rightarrow> sender" where
  "after_loop p r v = (case v of ViaTCP \<Rightarrow> AfterTcp p r | ViaUDP \<Rightarrow> AfterUdp p r)"

fun sender_step ::
    "net_env \<Rightarrow> 'v codec \<Rightarrow> FuncMsg \<Rightarrow> byte list \<Rightarrow> nat \<Rightarrow> sendall_vars \<Rightarrow> sender \<Rightarrow> sendall_vars \<times> sender"
where
  "sender_step e cd fmsg bts num s (Begin p) =
     (s, let r = \<lparr>sr_Uuid = conn_uuid (sl_node s) p, sr_Network = [], sr_Success = False, sr_Message = []\<rparr>
         in if nc_tconn (nd_conn (sl_node s) p) \<noteq> None
            then Writing p (r\<lparr>sr_Network := ''TCP'', sr_Success := True\<rparr>) ViaTCP
                   (MakeReqBody tcpsplit bts num (unat (fmsg_FuncID fmsg)))
            else AfterTcp p r)"
| "sender_step e cd fmsg bts num s (Writing p r v []) = (s, after_loop p r v)"
| "sender_step e cd fmsg bts num s (Writing p r v (row # rows)) =
     (case sock_write e (sender_sock (sl_node s) p v) row (sl_node s) of
        (err, n) \<Rightarrow> (s\<lparr>sl_node := n\<rparr>, Wrote p r v rows err))"
| "sender_step e cd fmsg bts num s (Wrote p r v rows err) = (s\<lparr>sl_err := err\<rparr>, Testing p r v rows)"
| "sender_step e cd fmsg bts num s (Testing p r v rows) =
     (s, if sl_err s \<noteq> None then after_loop p (r\<lparr>sr_Success := False\<rparr>) v else Writing p r v rows)"
| "sender_step e cd fmsg bts num s (AfterTcp p r) =
     (s, if \<not> sr_Success r \<and> nc_uconn (nd_conn (sl_node s) p) \<noteq> None
         then if length (sl_udpRow s) = 0 then FillUdp p r else RangeUdp p r
         else AfterUdp p r)"
| "sender_step e cd fmsg bts num s (FillUdp p r) =
     (s\<lparr>sl_udpRow := MakeReqBody udpsplit bts num (unat (fmsg_FuncID fmsg))\<rparr>, RangeUdp p r)"
| "sender_step e cd fmsg bts num s (RangeUdp p r) =
     (s, Writing p (r\<lparr>sr_Network := ''UDP'', sr_Success := True\<rparr>) ViaUDP (sl_udpRow s))"
| "sender_step e cd fmsg bts num s (AfterUdp p r) =
     (if \<not> sr_Success r \<and> ni_Hport (conn_info (sl_node s) p) \<noteq> 0 then
        (case post_http e (sl_node s) of
           (post, n) \<Rightarrow>
             (case postHttpApi cd (fmsg_Protocal fmsg) None post of
                (None, None, v) \<Rightarrow> (s\<lparr>sl_node := n\<rparr>, Append p (r\<lparr>sr_Network := ''HTTP'', sr_Success := True\<rparr>))
              | _ \<Rightarrow> (s\<lparr>sl_node := n\<rparr>, Append p r)))
      else (s, Append p r))"
| "sender_step e cd fmsg bts num s (Append p r) = (s\<lparr>sl_Result := sl_Result s @ [r]\<rparr>, Gone)"
| "sender_step e cd fmsg bts num s Gone = (s, Gone)"

text \<open>Any goroutine that is not done can move next. \<open>sendall\<close> waits until all are done.\<close>

inductive sendall_step ::
    "net_env \<Rightarrow> 'v codec \<Rightarrow> FuncMsg \<Rightarrow> byte list \<Rightarrow> nat \<Rightarrow> sendall_vars \<times> sender list \<Rightarrow> sendall_vars \<times> sender list \<Rightarrow> bool"
  for e cd fmsg bts num
where
  moves: "i < length gs \<Longrightarrow> gs ! i \<noteq> Gone \<Longrightarrow> sender_step e cd fmsg bts num s (gs ! i) = (s', g) \<Longrightarrow>
    sendall_step e cd fmsg bts num (s, gs) (s', gs[i := g])"

definition sendall_start :: "NodeDetail \<Rightarrow> SendRsp list \<Rightarrow> nat list \<Rightarrow> sendall_vars \<times> sender list" where
  "sendall_start n rsp conns = (\<lparr>sl_node = n, sl_err = None, sl_udpRow = [], sl_Result = rsp\<rparr>, map Begin conns)"

definition all_gone :: "sender list \<Rightarrow> bool" where
  "all_gone gs \<longleftrightarrow> (\<forall>g \<in> set gs. g = Gone)"

inductive_cases sendall_stepE: "sendall_step e cd fmsg bts num c c'"

section \<open>Every order ends\<close>

text \<open>The steps that a goroutine has before it, at most, when the messages of the loops have \<open>t\<close> and \<open>u\<close> frames.\<close>

fun steps_left :: "nat \<Rightarrow> nat \<Rightarrow> sender \<Rightarrow> nat" where
  "steps_left t u (Begin p) = 3 * t + 3 * u + 8"
| "steps_left t u (Writing p r v rows) = 3 * length rows + (case v of ViaTCP \<Rightarrow> 3 * u + 7 | ViaUDP \<Rightarrow> 3)"
| "steps_left t u (Wrote p r v rows err) = 3 * length rows + (case v of ViaTCP \<Rightarrow> 3 * u + 9 | ViaUDP \<Rightarrow> 5)"
| "steps_left t u (Testing p r v rows) = 3 * length rows + (case v of ViaTCP \<Rightarrow> 3 * u + 8 | ViaUDP \<Rightarrow> 4)"
| "steps_left t u (AfterTcp p r) = 3 * u + 6"
| "steps_left t u (FillUdp p r) = 3 * u + 5"
| "steps_left t u (RangeUdp p r) = 3 * u + 4"
| "steps_left t u (AfterUdp p r) = 2"
| "steps_left t u (Append p r) = 1"
| "steps_left t u Gone = 0"

lemma steps_left_less:
  assumes "sender_step e cd fmsg bts num s g = (s', g')" "g \<noteq> Gone" "length (sl_udpRow s) \<le> u"
    and "t = length (MakeReqBody tcpsplit bts num (unat (fmsg_FuncID fmsg)))"
    and "u = length (MakeReqBody udpsplit bts num (unat (fmsg_FuncID fmsg)))"
  shows "steps_left t u g' < steps_left t u g \<and> length (sl_udpRow s') \<le> u"
proof (cases g)
  case (Writing p r v rows)
  with assms show ?thesis by (cases rows) (auto simp: after_loop_def split: via.splits prod.splits)
qed (use assms in \<open>auto simp: after_loop_def Let_def split: via.splits prod.splits if_splits option.splits\<close>)

lemma sum_list_update_less:
  "i < length gs \<Longrightarrow> f g < f (gs ! i) \<Longrightarrow> sum_list (map f (gs[i := g])) < (sum_list (map f gs) :: nat)"
  by (induction gs arbitrary: i) (auto split: nat.splits)

text \<open>Every order of the goroutines comes to an end, and then all of them are done.\<close>

lemma sendall_bounded:
  assumes "((sendall_step e cd fmsg bts num) ^^ k) (sendall_start n rsp conns) (s, gs)"
    and "t = length (MakeReqBody tcpsplit bts num (unat (fmsg_FuncID fmsg)))"
    and "u = length (MakeReqBody udpsplit bts num (unat (fmsg_FuncID fmsg)))"
  shows "k + sum_list (map (steps_left t u) gs) \<le> length conns * (3 * t + 3 * u + 8) \<and> length (sl_udpRow s) \<le> u"
  using assms(1)
proof (induction k arbitrary: s gs)
  case 0
  then show ?case by (auto simp: sendall_start_def comp_def sum_list_triv)
next
  case (Suc k)
  then obtain s1 gs1 where 1: "((sendall_step e cd fmsg bts num) ^^ k) (sendall_start n rsp conns) (s1, gs1)"
    and "sendall_step e cd fmsg bts num (s1, gs1) (s, gs)" by (auto elim: relcomppE)
  then obtain i g where i: "i < length gs1" "gs1 ! i \<noteq> Gone" "gs = gs1[i := g]"
    and g: "sender_step e cd fmsg bts num s1 (gs1 ! i) = (s, g)" by (auto elim: sendall_stepE)
  from Suc.IH [OF 1] steps_left_less [OF g i(2) _ assms(2,3)] show ?case
    using sum_list_update_less [OF i(1), of "steps_left t u" g] i(3) by auto
qed

lemma all_gone_nth: "all_gone gs \<longleftrightarrow> (\<forall>i < length gs. gs ! i = Gone)"
  by (auto simp: all_gone_def all_set_conv_all_nth)

lemma sendall_stuck: "(\<nexists>c. sendall_step e cd fmsg bts num (s, gs) c) \<longleftrightarrow> all_gone gs"
proof -
  have "\<exists>c. sendall_step e cd fmsg bts num (s, gs) c" if "i < length gs" "gs ! i \<noteq> Gone" for i
    using moves [OF that] by (metis surj_pair)
  then show ?thesis unfolding all_gone_nth by (blast elim: sendall_stepE)
qed

section \<open>One result for each connection\<close>

text \<open>What a goroutine will report on.\<close>

fun sender_uuid :: "NodeDetail \<Rightarrow> sender \<Rightarrow> string list" where
  "sender_uuid n (Begin p) = [conn_uuid n p]"
| "sender_uuid n (Writing p r v rows) = [sr_Uuid r]"
| "sender_uuid n (Wrote p r v rows err) = [sr_Uuid r]"
| "sender_uuid n (Testing p r v rows) = [sr_Uuid r]"
| "sender_uuid n (AfterTcp p r) = [sr_Uuid r]"
| "sender_uuid n (FillUdp p r) = [sr_Uuid r]"
| "sender_uuid n (RangeUdp p r) = [sr_Uuid r]"
| "sender_uuid n (AfterUdp p r) = [sr_Uuid r]"
| "sender_uuid n (Append p r) = [sr_Uuid r]"
| "sender_uuid n Gone = []"

lemma sock_write_conn: "sock_write e k row n = (err, n') \<Longrightarrow> nd_conn n' = nd_conn n"
  by (auto simp: sock_write_def net_op_def split: option.splits prod.splits)

lemma sender_sock_cong: "nd_conn n' = nd_conn n \<Longrightarrow> sender_sock n' p v = sender_sock n p v"
  by (cases v) (simp_all add: sender_sock_def)

lemma post_http_conn: "post_http e n = (post, n') \<Longrightarrow> nd_conn n' = nd_conn n"
  by (auto simp: post_http_def)

lemma sender_step_conn:
  "sender_step e cd fmsg bts num s g = (s', g') \<Longrightarrow> nd_conn (sl_node s') = nd_conn (sl_node s)"
proof (cases g)
  case (Writing p r v rows)
  then show "sender_step e cd fmsg bts num s g = (s', g') \<Longrightarrow> nd_conn (sl_node s') = nd_conn (sl_node s)"
    by (cases rows) (auto split: prod.splits dest: sock_write_conn)
qed (auto split: prod.splits if_splits option.splits dest: post_http_conn)

lemma sender_step_reports:
  assumes "sender_step e cd fmsg bts num s g = (s', g')" "nd_conn (sl_node s) = nd_conn n"
  shows "\<exists>rs. sl_Result s' = sl_Result s @ rs \<and> map sr_Uuid rs @ sender_uuid n g' = sender_uuid n g"
proof (cases g)
  case (Writing p r v rows)
  with assms show ?thesis by (cases rows) (auto simp: after_loop_def split: prod.splits via.splits)
next
  case (AfterUdp p r)
  with assms show ?thesis by (auto split: prod.splits if_splits option.splits)
qed (use assms in \<open>auto simp: after_loop_def Let_def split: prod.splits via.splits\<close>)

lemma all_gone_reports: "all_gone gs \<Longrightarrow> concat (map (sender_uuid n) gs) = []"
  by (auto simp: all_gone_def)

lemma mset_concat_update:
  "i < length xs \<Longrightarrow> mset (concat (map f (xs[i := x]))) + mset (f (xs ! i)) = mset (concat (map f xs)) + mset (f x)"
  by (induction xs arbitrary: i) (auto split: nat.splits)

definition reports_ok :: "NodeDetail \<Rightarrow> SendRsp list \<Rightarrow> nat list \<Rightarrow> sendall_vars \<times> sender list \<Rightarrow> bool" where
  "reports_ok n rsp conns c \<longleftrightarrow>
     (case c of (s, gs) \<Rightarrow>
        nd_conn (sl_node s) = nd_conn n \<and>
        (\<exists>rs. sl_Result s = rsp @ rs \<and>
          mset (map sr_Uuid rs) + mset (concat (map (sender_uuid n) gs)) = mset (map (conn_uuid n) conns)))"

lemma reports_ok_step:
  assumes "sendall_step e cd fmsg bts num c c'" "reports_ok n rsp conns c"
  shows "reports_ok n rsp conns c'"
proof -
  from assms(1) obtain s gs s' i g where c: "c = (s, gs)" "c' = (s', gs[i := g])"
    and i: "i < length gs" and g: "sender_step e cd fmsg bts num s (gs ! i) = (s', g)"
    by (auto elim: sendall_stepE)
  from assms(2) c obtain rs where n: "nd_conn (sl_node s) = nd_conn n" and rs: "sl_Result s = rsp @ rs"
    "mset (map sr_Uuid rs) + mset (concat (map (sender_uuid n) gs)) = mset (map (conn_uuid n) conns)"
    by (auto simp: reports_ok_def)
  from sender_step_reports [OF g n] obtain ts where ts: "sl_Result s' = sl_Result s @ ts"
    and u: "mset (map sr_Uuid ts) + mset (sender_uuid n g) = mset (sender_uuid n (gs ! i))"
    by (metis mset_append)
  have "mset (map sr_Uuid (rs @ ts)) + mset (concat (map (sender_uuid n) (gs[i := g]))) =
      mset (map sr_Uuid rs) + mset (concat (map (sender_uuid n) gs))"
    using mset_concat_update [OF i, of "sender_uuid n" g] unfolding u [symmetric] by (simp add: ac_simps)
  with rs ts n sender_step_conn [OF g] show ?thesis by (auto simp: reports_ok_def c(2))
qed

interpretation reports: step_invariant "sendall_step e cd fmsg bts num" "reports_ok n rsp conns" for e cd fmsg bts num n rsp conns
  by unfold_locales (rule reports_ok_step)

lemma reports_ok_start: "reports_ok n rsp conns (sendall_start n rsp conns)"
  by (simp add: reports_ok_def sendall_start_def comp_def concat_map_singleton)

section \<open>One after the other\<close>

definition sender_alone ::
    "net_env \<Rightarrow> 'v codec \<Rightarrow> FuncMsg \<Rightarrow> byte list \<Rightarrow> nat \<Rightarrow> sendall_vars \<times> sender \<Rightarrow> sendall_vars \<times> sender \<Rightarrow> bool"
where
  "sender_alone e cd fmsg bts num c c' \<longleftrightarrow> snd c \<noteq> Gone \<and> sender_step e cd fmsg bts num (fst c) (snd c) = c'"

lemma alone_steps:
  assumes "(sender_alone e cd fmsg bts num)\<^sup>*\<^sup>* (s, g) (s', g')" "i < length gs" "gs ! i = g"
  shows "(sendall_step e cd fmsg bts num)\<^sup>*\<^sup>* (s, gs) (s', gs[i := g'])"
  using assms(1)
proof (induction "(s', g')" arbitrary: s' g' rule: rtranclp_induct)
  case base
  with assms(3) show ?case by (metis list_update_id rtranclp.rtrancl_refl)
next
  case (step c)
  obtain s1 g1 where c: "c = (s1, g1)" by fastforce
  with step.hyps(2) have "g1 \<noteq> Gone" "sender_step e cd fmsg bts num s1 g1 = (s', g')" by (simp_all add: sender_alone_def)
  with moves [of i "gs[i := g1]"] assms(2)
  have "sendall_step e cd fmsg bts num (s1, gs[i := g1]) (s', gs[i := g'])" by (metis length_list_update list_update_overwrite nth_list_update_eq)
  with step.hyps(3) [OF c] show ?case by (rule rtranclp.rtrancl_into_rtrancl)
qed

lemma alone_first:
  "g \<noteq> Gone \<Longrightarrow> sender_step e cd fmsg bts num s g = c \<Longrightarrow> (sender_alone e cd fmsg bts num)\<^sup>*\<^sup>* c c' \<Longrightarrow>
    (sender_alone e cd fmsg bts num)\<^sup>*\<^sup>* (s, g) c'"
  by (rule converse_rtranclp_into_rtranclp [of _ _ c]) (simp_all add: sender_alone_def)

text \<open>A loop that is not disturbed is \<^const>\<open>write_rows\<close>.\<close>

lemma alone_writes:
  assumes "write_rows e (sender_sock (sl_node s) p v) rows (sl_node s) = (err, n')" "sr_Success r"
  shows "\<exists>err'. (sender_alone e cd fmsg bts num)\<^sup>*\<^sup>* (s, Writing p r v rows)
    (s\<lparr>sl_node := n', sl_err := err'\<rparr>, after_loop p (r\<lparr>sr_Success := (err = None)\<rparr>) v)"
  using assms(1)
proof (induction rows arbitrary: s)
  case Nil
  have "(s\<lparr>sl_node := sl_node s, sl_err := sl_err s\<rparr>) = s" "r\<lparr>sr_Success := True\<rparr> = r" using assms(2) by simp_all
  with Nil show ?case by (intro exI [of _ "sl_err s"] alone_first) auto
next
  case (Cons row rows)
  obtain w n1 where w: "sock_write e (sender_sock (sl_node s) p v) row (sl_node s) = (w, n1)" by fastforce
  let ?s = "s\<lparr>sl_node := n1, sl_err := w\<rparr>"
  have start: "(sender_alone e cd fmsg bts num)\<^sup>*\<^sup>* (?s, Testing p r v rows) c \<Longrightarrow>
      (sender_alone e cd fmsg bts num)\<^sup>*\<^sup>* (s, Writing p r v (row # rows)) c" for c
    using w by (auto intro!: alone_first)
  show ?case
  proof (cases w)
    case None
    with Cons.prems w sender_sock_cong [OF sock_write_conn [OF w]]
    have "write_rows e (sender_sock (sl_node ?s) p v) rows (sl_node ?s) = (err, n')" by simp
    from Cons.IH [OF this] None show ?thesis by (auto intro!: start alone_first)
  next
    case (Some x)
    with Cons.prems w have "err = Some x" "n' = n1" by auto
    with Some show ?thesis by (intro exI [of _ w] start alone_first) auto
  qed
qed

lemma alone_tcp:
  assumes "r = \<lparr>sr_Uuid = conn_uuid n p, sr_Network = [], sr_Success = False, sr_Message = []\<rparr>" "sl_node s = n"
    and "(if nc_tconn (nd_conn n p) \<noteq> None then
            (case write_rows e (nc_tconn (nd_conn n p)) (MakeReqBody tcpsplit bts num (unat (fmsg_FuncID fmsg))) n of
               (err, n) \<Rightarrow> (r\<lparr>sr_Network := ''TCP'', sr_Success := (err = None)\<rparr>, n))
          else (r, n)) = (r', n')"
  shows "\<exists>err'. (sender_alone e cd fmsg bts num)\<^sup>*\<^sup>* (s, Begin p) (s\<lparr>sl_node := n', sl_err := err'\<rparr>, AfterTcp p r')"
proof (cases "nc_tconn (nd_conn n p) = None")
  case True
  with assms(3) have "r' = r" "n' = n" by simp_all
  moreover have "(s\<lparr>sl_node := n, sl_err := sl_err s\<rparr>) = s" using assms(2) by auto
  ultimately show ?thesis using True assms(1,2) by (intro exI [of _ "sl_err s"] alone_first) auto
next
  case False
  let ?rows = "MakeReqBody tcpsplit bts num (unat (fmsg_FuncID fmsg))"
  obtain err where w: "write_rows e (sender_sock (sl_node s) p ViaTCP) ?rows (sl_node s) = (err, n')"
    and r': "r' = r\<lparr>sr_Network := ''TCP'', sr_Success := (err = None)\<rparr>"
    using assms(2,3) False by (auto simp: sender_sock_def split: prod.splits)
  from alone_writes [where cd = cd and fmsg = fmsg and bts = bts and num = num, OF w, of "r\<lparr>sr_Network := ''TCP'', sr_Success := True\<rparr>"] False assms(1,2) show ?thesis
    by (auto simp: r' after_loop_def intro!: alone_first)
qed

lemma alone_udp:
  assumes "(if \<not> sr_Success r \<and> nc_uconn (nd_conn n p) \<noteq> None then
            (case write_rows e (nc_uconn (nd_conn n p)) u n of
               (err, n) \<Rightarrow> (r\<lparr>sr_Network := ''UDP'', sr_Success := (err = None)\<rparr>, n))
          else (r, n)) = (r', n')" "sl_node s = n"
    and "sl_udpRow s \<in> {[], u}" "u = MakeReqBody udpsplit bts num (unat (fmsg_FuncID fmsg))"
  shows "\<exists>err' rows. (sender_alone e cd fmsg bts num)\<^sup>*\<^sup>* (s, AfterTcp p r)
    (s\<lparr>sl_node := n', sl_err := err', sl_udpRow := rows\<rparr>, AfterUdp p r') \<and> rows \<in> {[], u}"
proof (cases "\<not> sr_Success r \<and> nc_uconn (nd_conn n p) \<noteq> None")
  case False
  with assms(1) have "r' = r" "n' = n" unfolding if_not_P [OF False] by simp_all
  moreover have "(s\<lparr>sl_node := n, sl_err := sl_err s, sl_udpRow := sl_udpRow s\<rparr>) = s" using assms(2) by auto
  ultimately show ?thesis using False assms(2,3)
    by (intro exI [of _ "sl_err s"] exI [of _ "sl_udpRow s"] conjI alone_first) auto
next
  case True
  let ?s = "s\<lparr>sl_udpRow := u\<rparr>"
  obtain err where w: "write_rows e (sender_sock (sl_node ?s) p ViaUDP) u (sl_node ?s) = (err, n')"
    and r': "r' = r\<lparr>sr_Network := ''UDP'', sr_Success := (err = None)\<rparr>"
    using assms(1,2) True by (auto simp: sender_sock_def split: prod.splits)
  have range: "(sender_alone e cd fmsg bts num)\<^sup>*\<^sup>* (?s, RangeUdp p r) c \<Longrightarrow> (sender_alone e cd fmsg bts num)\<^sup>*\<^sup>* (s, AfterTcp p r) c" for c
  proof (cases "sl_udpRow s = []")
    case False
    with assms(3) have "?s = s" by auto
    with False True assms(2)
    show "(sender_alone e cd fmsg bts num)\<^sup>*\<^sup>* (?s, RangeUdp p r) c \<Longrightarrow> ?thesis" by (auto intro!: alone_first)
  qed (use True assms(2,4) in \<open>auto intro!: alone_first\<close>)
  from alone_writes [where cd = cd and fmsg = fmsg and bts = bts and num = num, OF w, of "r\<lparr>sr_Network := ''UDP'', sr_Success := True\<rparr>"] obtain err'
    where "(sender_alone e cd fmsg bts num)\<^sup>*\<^sup>* (?s, Writing p (r\<lparr>sr_Network := ''UDP'', sr_Success := True\<rparr>) ViaUDP u)
      (?s\<lparr>sl_node := n', sl_err := err'\<rparr>, AfterUdp p r')"
    by (auto simp: r' after_loop_def)
  then have "(sender_alone e cd fmsg bts num)\<^sup>*\<^sup>* (s, AfterTcp p r) (?s\<lparr>sl_node := n', sl_err := err'\<rparr>, AfterUdp p r')"
    by (intro range alone_first) auto
  then show ?thesis by (intro exI [of _ err'] exI [of _ u]) (cases s, simp)
qed

lemma alone_http:
  assumes "(if \<not> sr_Success r \<and> ni_Hport (conn_info n p) \<noteq> 0 then
            (case post_http e n of
               (post, n) \<Rightarrow>
                 (case postHttpApi cd (fmsg_Protocal fmsg) None post of
                    (None, None, v) \<Rightarrow> (r\<lparr>sr_Network := ''HTTP'', sr_Success := True\<rparr>, n)
                  | _ \<Rightarrow> (r, n)))
          else (r, n)) = (r', n')" "sl_node s = n"
  shows "(sender_alone e cd fmsg bts num)\<^sup>*\<^sup>* (s, AfterUdp p r) (s\<lparr>sl_node := n', sl_Result := sl_Result s @ [r']\<rparr>, Gone)"
proof -
  have "(s\<lparr>sl_node := n\<rparr>) = s" using assms(2) by auto
  with assms have "sender_step e cd fmsg bts num s (AfterUdp p r) = (s\<lparr>sl_node := n'\<rparr>, Append p r')"
    by (auto split: if_splits prod.splits option.splits)
  then show ?thesis by (rule alone_first [rotated]) (auto intro: alone_first)
qed

lemma alone_send_one:
  assumes "send_one e cd fmsg bts num p (sl_node s) = (r, n')"
    and "sl_udpRow s \<in> {[], u}" and u: "u = MakeReqBody udpsplit bts num (unat (fmsg_FuncID fmsg))"
  shows "\<exists>s'. (sender_alone e cd fmsg bts num)\<^sup>*\<^sup>* (s, Begin p) (s', Gone) \<and> sl_node s' = n' \<and>
    sl_Result s' = sl_Result s @ [r] \<and> sl_udpRow s' \<in> {[], u}"
proof -
  let ?star = "(sender_alone e cd fmsg bts num)\<^sup>*\<^sup>*" and ?n = "sl_node s"
  let ?r = "\<lparr>sr_Uuid = conn_uuid ?n p, sr_Network = [], sr_Success = False, sr_Message = []\<rparr>"
  obtain r1 n1 where tcp: "(if nc_tconn (nd_conn ?n p) \<noteq> None then
           (case write_rows e (nc_tconn (nd_conn ?n p)) (MakeReqBody tcpsplit bts num (unat (fmsg_FuncID fmsg))) ?n of
              (err, n) \<Rightarrow> (?r\<lparr>sr_Network := ''TCP'', sr_Success := (err = None)\<rparr>, n))
         else (?r, ?n)) = (r1, n1)" by fastforce
  obtain r2 n2 where udp: "(if \<not> sr_Success r1 \<and> nc_uconn (nd_conn n1 p) \<noteq> None then
            (case write_rows e (nc_uconn (nd_conn n1 p)) u n1 of
               (err, n) \<Rightarrow> (r1\<lparr>sr_Network := ''UDP'', sr_Success := (err = None)\<rparr>, n))
          else (r1, n1)) = (r2, n2)" by fastforce
  have http: "(if \<not> sr_Success r2 \<and> ni_Hport (conn_info n2 p) \<noteq> 0 then
            (case post_http e n2 of
               (post, n) \<Rightarrow>
                 (case postHttpApi cd (fmsg_Protocal fmsg) None post of
                    (None, None, v) \<Rightarrow> (r2\<lparr>sr_Network := ''HTTP'', sr_Success := True\<rparr>, n)
                  | _ \<Rightarrow> (r2, n)))
          else (r2, n2)) = (r, n')"
    using assms(1) unfolding send_one_def Let_def tcp split_conv u [symmetric] udp .
  obtain a where 1: "?star (s, Begin p) (s\<lparr>sl_node := n1, sl_err := a\<rparr>, AfterTcp p r1)"
    using alone_tcp [OF refl refl tcp] by blast
  obtain b rows where 2: "?star (s\<lparr>sl_node := n1, sl_err := a\<rparr>, AfterTcp p r1)
      (s\<lparr>sl_node := n2, sl_err := b, sl_udpRow := rows\<rparr>, AfterUdp p r2)" and rows: "rows \<in> {[], u}"
    using alone_udp [OF udp, of "s\<lparr>sl_node := n1, sl_err := a\<rparr>" bts num fmsg cd] assms(2,3) by auto
  have 3: "?star (s\<lparr>sl_node := n2, sl_err := b, sl_udpRow := rows\<rparr>, AfterUdp p r2)
      (s\<lparr>sl_node := n', sl_err := b, sl_udpRow := rows, sl_Result := sl_Result s @ [r]\<rparr>, Gone)"
    using alone_http [OF http, of "s\<lparr>sl_node := n2, sl_err := b, sl_udpRow := rows\<rparr>" bts num] by (cases s) simp
  from 1 2 3 have "?star (s, Begin p) (s\<lparr>sl_node := n', sl_err := b, sl_udpRow := rows, sl_Result := sl_Result s @ [r]\<rparr>, Gone)"
    by (blast intro: rtranclp_trans)
  with rows show ?thesis by (intro exI [of _ "s\<lparr>sl_node := n', sl_err := b, sl_udpRow := rows, sl_Result := sl_Result s @ [r]\<rparr>"]) simp
qed

text \<open>The goroutines from the \<open>i\<close>-th on, in their order.\<close>

lemma senders_in_order:
  assumes "send_each e cd fmsg bts num ps (sl_node s) = (rs, n')"
    and "sl_udpRow s \<in> {[], u}" "u = MakeReqBody udpsplit bts num (unat (fmsg_FuncID fmsg))"
  shows "\<exists>s'. (sendall_step e cd fmsg bts num)\<^sup>*\<^sup>* (s, gs @ map Begin ps) (s', gs @ replicate (length ps) Gone) \<and>
    sl_node s' = n' \<and> sl_Result s' = sl_Result s @ rs"
  using assms(1,2)
proof (induction ps arbitrary: s gs rs)
  case Nil
  then show ?case by auto
next
  case (Cons p ps)
  obtain r n1 where 1: "send_one e cd fmsg bts num p (sl_node s) = (r, n1)" by fastforce
  from alone_send_one [OF 1 Cons.prems(2) assms(3)] obtain s1 where s1: "(sender_alone e cd fmsg bts num)\<^sup>*\<^sup>* (s, Begin p) (s1, Gone)"
    "sl_node s1 = n1" "sl_Result s1 = sl_Result s @ [r]" "sl_udpRow s1 \<in> {[], u}" by blast
  have 2: "(sendall_step e cd fmsg bts num)\<^sup>*\<^sup>* (s, gs @ map Begin (p # ps)) (s1, (gs @ [Gone]) @ map Begin ps)"
    using alone_steps [OF s1(1), of "length gs" "gs @ map Begin (p # ps)"] by (simp add: list_update_append)
  obtain rs' where rs: "send_each e cd fmsg bts num ps (sl_node s1) = (rs', n')" "rs = r # rs'"
    using Cons.prems(1) 1 s1(2) by (auto split: prod.splits)
  from Cons.IH [OF rs(1) s1(4), of "gs @ [Gone]"] obtain s' where
    "(sendall_step e cd fmsg bts num)\<^sup>*\<^sup>* (s1, (gs @ [Gone]) @ map Begin ps) (s', (gs @ [Gone]) @ replicate (length ps) Gone)"
    "sl_node s' = n'" "sl_Result s' = sl_Result s1 @ rs'" by blast
  with rtranclp_trans [OF 2] s1(3) rs(2) show ?case by auto
qed

section \<open>When nothing fails\<close>

text \<open>What has been written to a socket.\<close>

definition sent_on :: "nat \<Rightarrow> NodeDetail \<Rightarrow> byte list list" where
  "sent_on k n = map snd (filter (\<lambda>w. fst w = k) (nd_sent n))"

text \<open>The frames that a goroutine still has to write over TCP, and the goroutines that have met no failure.\<close>

fun todo :: "byte list list \<Rightarrow> sender \<Rightarrow> byte list list" where
  "todo frames (Begin p) = frames"
| "todo frames (Writing p r v rows) = rows"
| "todo frames (Wrote p r v rows err) = rows"
| "todo frames (Testing p r v rows) = rows"
| "todo frames g = []"

definition sent_tcp :: "SendRsp \<Rightarrow> bool" where
  "sent_tcp r \<longleftrightarrow> sr_Success r \<and> sr_Network r = ''TCP''"

fun unhurt :: "nat \<Rightarrow> sender \<Rightarrow> bool" where
  "unhurt p (Begin q) = (q = p)"
| "unhurt p (Writing q r v rows) = (q = p \<and> v = ViaTCP \<and> sent_tcp r)"
| "unhurt p (Wrote q r v rows err) = (q = p \<and> v = ViaTCP \<and> sent_tcp r \<and> err = None)"
| "unhurt p (Testing q r v rows) = (q = p \<and> v = ViaTCP \<and> sent_tcp r)"
| "unhurt p (AfterTcp q r) = sent_tcp r"
| "unhurt p (FillUdp q r) = False"
| "unhurt p (RangeUdp q r) = False"
| "unhurt p (AfterUdp q r) = sent_tcp r"
| "unhurt p (Append q r) = sent_tcp r"
| "unhurt p Gone = True"

lemma unhurt_step:
  assumes "sender_step e cd fmsg bts num s g = (s', g')" "unhurt p g" "sl_err s = None" "\<And>k. ne_err e k = None"
    and "nc_tconn (nd_conn (sl_node s) p) = Some k" "frames = MakeReqBody tcpsplit bts num (unat (fmsg_FuncID fmsg))"
  shows "unhurt p g' \<and> sl_err s' = None \<and> (\<exists>rs. sl_Result s' = sl_Result s @ rs \<and> list_all sent_tcp rs) \<and>
    sent_on k (sl_node s') @ todo frames g' = sent_on k (sl_node s) @ todo frames g \<and>
    (\<forall>j. j \<noteq> k \<longrightarrow> sent_on j (sl_node s') = sent_on j (sl_node s))"
proof (cases g)
  case (Writing q r v rows)
  with assms show ?thesis
    by (cases rows) (auto simp: sent_tcp_def after_loop_def sender_sock_def sock_write_def net_op_def sent_on_def)
qed (use assms in \<open>auto simp: sent_tcp_def after_loop_def\<close>)

definition unhurt_ok :: "byte list list \<Rightarrow> NodeDetail \<Rightarrow> SendRsp list \<Rightarrow> nat list \<Rightarrow> sendall_vars \<times> sender list \<Rightarrow> bool" where
  "unhurt_ok frames n rsp conns c \<longleftrightarrow>
     (case c of (s, gs) \<Rightarrow>
        nd_conn (sl_node s) = nd_conn n \<and> sl_err s = None \<and> (\<exists>rs. sl_Result s = rsp @ rs \<and> list_all sent_tcp rs) \<and>
        list_all2 (\<lambda>p g. unhurt p g \<and> (let k = the (nc_tconn (nd_conn n p)) in
          sent_on k (sl_node s) @ todo frames g = sent_on k n @ frames)) conns gs)"

lemma unhurt_ok_step:
  assumes "sendall_step e cd fmsg bts num c c'" "unhurt_ok frames n rsp conns c" "\<And>k. ne_err e k = None"
    and "frames = MakeReqBody tcpsplit bts num (unat (fmsg_FuncID fmsg))"
    and "distinct (map (\<lambda>p. nc_tconn (nd_conn n p)) conns)" "\<forall>p \<in> set conns. nc_tconn (nd_conn n p) \<noteq> None"
  shows "unhurt_ok frames n rsp conns c'"
proof -
  from assms(1) obtain s gs s' i g where c: "c = (s, gs)" "c' = (s', gs[i := g])"
    and i: "i < length gs" and g: "sender_step e cd fmsg bts num s (gs ! i) = (s', g)"
    by (auto elim: sendall_stepE)
  from assms(2) c obtain rs where n: "nd_conn (sl_node s) = nd_conn n" "sl_err s = None"
    and rs: "sl_Result s = rsp @ rs" "list_all sent_tcp rs"
    and all: "length conns = length gs" "\<And>j. j < length gs \<Longrightarrow> unhurt (conns ! j) (gs ! j)"
      "\<And>j. j < length gs \<Longrightarrow> sent_on (the (nc_tconn (nd_conn n (conns ! j)))) (sl_node s) @ todo frames (gs ! j) =
        sent_on (the (nc_tconn (nd_conn n (conns ! j)))) n @ frames"
    by (auto simp: unhurt_ok_def Let_def list_all2_conv_all_nth)
  have some: "nc_tconn (nd_conn n (conns ! j)) = Some (the (nc_tconn (nd_conn n (conns ! j))))" if "j < length gs" for j
    using assms(6) all(1) that by (auto simp: all_set_conv_all_nth)
  note step = unhurt_step [OF g all(2) [OF i] n(2) assms(3) _ assms(4), unfolded n(1), OF some [OF i]]
  have other: "the (nc_tconn (nd_conn n (conns ! j))) \<noteq> the (nc_tconn (nd_conn n (conns ! i)))" if "j < length gs" "j \<noteq> i" for j
    using assms(5) all(1) i that some by (metis length_map nth_eq_iff_index_eq nth_map)
  have "sent_on (the (nc_tconn (nd_conn n (conns ! j)))) (sl_node s') @ todo frames (gs[i := g] ! j) =
      sent_on (the (nc_tconn (nd_conn n (conns ! j)))) n @ frames" if "j < length gs" for j
    using step all(3) [OF that] other [OF that] that i by (cases "j = i") auto
  moreover have "unhurt (conns ! j) (gs[i := g] ! j)" if "j < length gs" for j
    using step all(2) [OF that] that i by (cases "j = i") auto
  moreover obtain ts where "sl_Result s' = sl_Result s @ ts" "list_all sent_tcp ts" using step by blast
  ultimately show ?thesis
    using step n(1) rs all(1) sender_step_conn [OF g]
    by (auto simp: unhurt_ok_def c(2) Let_def list_all2_conv_all_nth)
qed

lemma unhurt_reachable:
  assumes "(sendall_step e cd fmsg bts num)\<^sup>*\<^sup>* (sendall_start n rsp conns) c" "\<And>k. ne_err e k = None"
    and "frames = MakeReqBody tcpsplit bts num (unat (fmsg_FuncID fmsg))"
    and "distinct (map (\<lambda>p. nc_tconn (nd_conn n p)) conns)" "\<forall>p \<in> set conns. nc_tconn (nd_conn n p) \<noteq> None"
  shows "unhurt_ok frames n rsp conns c"
  using assms(1)
proof (induction rule: rtranclp_induct)
  case base
  show ?case by (auto simp: unhurt_ok_def sendall_start_def list_all2_conv_all_nth)
next
  case (step c c')
  from unhurt_ok_step [OF step(2,3) assms(2-5)] show ?case .
qed

section \<open>The whole function\<close>

text \<open>A run of \<open>sendall\<close>: the error or what \<open>rsp.Result\<close> is when all goroutines are done, and the node then.\<close>

inductive sendall_run ::
    "net_env \<Rightarrow> pb_codec \<Rightarrow> 'v codec \<Rightarrow> string \<Rightarrow> 'v \<Rightarrow> NodeDetail \<Rightarrow> SendRsp list \<Rightarrow> error option \<Rightarrow> SendRsp list \<Rightarrow>
     NodeDetail \<Rightarrow> bool"
  for e pc cd name req n rsp
where
  fails: "sendall_prepare e pc cd name req n = Ret (Inl err, n') \<Longrightarrow>
    sendall_run e pc cd name req n rsp (Some err) rsp n'"
| sends: "sendall_prepare e pc cd name req n = Ret (Inr (fmsg, bts, num, conns), n1) \<Longrightarrow>
    (sendall_step e cd fmsg bts num)\<^sup>*\<^sup>* (sendall_start n1 rsp conns) (s, gs) \<Longrightarrow> all_gone gs \<Longrightarrow>
    sendall_run e pc cd name req n rsp None (sl_Result s) (sl_node s)"

lemma in_order_run:
  assumes "send_each e cd fmsg bts num conns n = (results, n')"
  shows "\<exists>s. (sendall_step e cd fmsg bts num)\<^sup>*\<^sup>* (sendall_start n rsp conns) (s, replicate (length conns) Gone) \<and>
    sl_node s = n' \<and> sl_Result s = rsp @ results"
  using senders_in_order [of e cd fmsg bts num conns "\<lparr>sl_node = n, sl_err = None, sl_udpRow = [], sl_Result = rsp\<rparr>" results n' _ "[]"] assms
  by (simp add: sendall_start_def)

text \<open>The sequential model is one of the runs.\<close>

lemma sendall_is_run:
  assumes "sendall e pc cd name req n = Ret ((err, results), n')"
  shows "sendall_run e pc cd name req n rsp err (rsp @ results) n'"
  using assms
proof (cases rule: sendall_cases)
  case (sends fmsg bts num conns n1)
  from in_order_run [OF sends(2)] obtain s where
    "(sendall_step e cd fmsg bts num)\<^sup>*\<^sup>* (sendall_start n1 rsp conns) (s, replicate (length conns) Gone)"
    "sl_node s = n'" "sl_Result s = rsp @ results" by blast
  with sendall_run.sends [OF sends(1) this(1)] sends(3) show ?thesis by (simp add: all_gone_def)
qed (auto intro: sendall_run.fails)

section \<open>A failure that is lost\<close>

text \<open>A goroutine with one frame to write over TCP, up to its look at \<open>err\<close>.\<close>

lemma alone_single_write:
  assumes "nc_tconn (nd_conn (sl_node s) p) = Some k" "MakeReqBody tcpsplit bts num (unat (fmsg_FuncID fmsg)) = [row]"
    and "sock_write e (Some k) row (sl_node s) = (err, n')"
  shows "(sender_alone e cd fmsg bts num)\<^sup>*\<^sup>* (s, Begin p) (s\<lparr>sl_node := n', sl_err := err\<rparr>,
    Testing p \<lparr>sr_Uuid = conn_uuid (sl_node s) p, sr_Network = ''TCP'', sr_Success = True, sr_Message = []\<rparr> ViaTCP [])"
  by (rule alone_first, simp, simp add: assms, rule alone_first, simp, simp add: assms sender_sock_def, rule alone_first, simp, simp)
    simp

lemma lost_failure:
  assumes "nc_tconn (nd_conn n p) = Some k" "nc_tconn (nd_conn n q) = Some j"
    and "MakeReqBody tcpsplit bts num (unat (fmsg_FuncID fmsg)) = [row]"
    and "ne_err e (nd_ops n) = Some err" "ne_err e (Suc (nd_ops n)) = None"
  shows "\<exists>s. (sendall_step e cd fmsg bts num)\<^sup>*\<^sup>* (sendall_start n rsp [p, q]) (s, [Gone, Gone]) \<and>
    nd_sent (sl_node s) = nd_sent n @ [(j, row)] \<and>
    sl_Result s = rsp @ map (\<lambda>c. \<lparr>sr_Uuid = conn_uuid n c, sr_Network = ''TCP'', sr_Success = True, sr_Message = []\<rparr>) [p, q]"
proof -
  let ?star = "(sender_alone e cd fmsg bts num)\<^sup>*\<^sup>*" and ?run = "(sendall_step e cd fmsg bts num)\<^sup>*\<^sup>*"
  let ?r = "\<lambda>c. \<lparr>sr_Uuid = conn_uuid n c, sr_Network = ''TCP'', sr_Success = True, sr_Message = []\<rparr>"
  let ?n1 = "n\<lparr>nd_ops := Suc (nd_ops n)\<rparr>"
  let ?n2 = "n\<lparr>nd_ops := Suc (Suc (nd_ops n)), nd_sent := nd_sent n @ [(j, row)]\<rparr>"
  let ?s = "\<lambda>n err rs. \<lparr>sl_node = n, sl_err = err, sl_udpRow = [], sl_Result = rsp @ rs\<rparr>"
  have 1: "?star (?s n None [], Begin p) (?s ?n1 (Some err) [], Testing p (?r p) ViaTCP [])"
    using alone_single_write [of "?s n None []" p k bts num fmsg row e "Some err" _ cd, OF _ assms(3)] assms by (simp add: sock_write_def net_op_def)
  have 2: "?star (?s ?n1 (Some err) [], Begin q) (?s ?n2 None [], Testing q (?r q) ViaTCP [])"
    using alone_single_write [of "?s ?n1 (Some err) []" q j bts num fmsg row e None _ cd, OF _ assms(3)] assms by (simp add: sock_write_def net_op_def)
  have 3: "?star (?s ?n2 None rs, Testing c (?r c) ViaTCP []) (?s ?n2 None (rs @ [?r c]), Gone)" for c rs
    by ((rule alone_first, simp, simp add: after_loop_def)+) simp
  have r1: "?run (sendall_start n rsp [p, q]) (?s ?n1 (Some err) [], [Testing p (?r p) ViaTCP [], Begin q])"
    using alone_steps [OF 1, of 0 "[Begin p, Begin q]"] by (simp add: sendall_start_def)
  have r2: "?run (?s ?n1 (Some err) [], [Testing p (?r p) ViaTCP [], Begin q]) (?s ?n2 None [], [Testing p (?r p) ViaTCP [], Testing q (?r q) ViaTCP []])"
    using alone_steps [OF 2, of 1 "[Testing p (?r p) ViaTCP [], Begin q]"] by simp
  have r3: "?run (?s ?n2 None [], [Testing p (?r p) ViaTCP [], Testing q (?r q) ViaTCP []]) (?s ?n2 None [?r p], [Gone, Testing q (?r q) ViaTCP []])"
    using alone_steps [OF 3, of 0 "[Testing p (?r p) ViaTCP [], Testing q (?r q) ViaTCP []]" p "[]"] by simp
  have r4: "?run (?s ?n2 None [?r p], [Gone, Testing q (?r q) ViaTCP []]) (?s ?n2 None [?r p, ?r q], [Gone, Gone])"
    using alone_steps [OF 3, of 1 "[Gone, Testing q (?r q) ViaTCP []]" q "[?r p]"] by simp
  from rtranclp_trans [OF rtranclp_trans [OF r1 r2] rtranclp_trans [OF r3 r4]] show ?thesis
    by (intro exI [of _ "?s ?n2 None [?r p, ?r q]"]) simp
qed

text \<open>The other way round: a goroutine that has sent its message takes the failure of another for its own, and goes on to
  send the message again by other means.\<close>

lemma sent_but_reported_failed:
  assumes "nc_tconn (nd_conn n p) = Some k" "nc_tconn (nd_conn n q) = Some j"
    and "MakeReqBody tcpsplit bts num (unat (fmsg_FuncID fmsg)) = [row]"
    and "ne_err e (nd_ops n) = None" "ne_err e (Suc (nd_ops n)) = Some err"
  shows "\<exists>s r g. (sendall_step e cd fmsg bts num)\<^sup>*\<^sup>* (sendall_start n rsp [p, q]) (s, [AfterTcp p r, g]) \<and>
    nd_sent (sl_node s) = nd_sent n @ [(k, row)] \<and> \<not> sr_Success r"
proof -
  let ?star = "(sender_alone e cd fmsg bts num)\<^sup>*\<^sup>*" and ?run = "(sendall_step e cd fmsg bts num)\<^sup>*\<^sup>*"
  let ?r = "\<lambda>c. \<lparr>sr_Uuid = conn_uuid n c, sr_Network = ''TCP'', sr_Success = True, sr_Message = []\<rparr>"
  let ?n1 = "n\<lparr>nd_ops := Suc (nd_ops n), nd_sent := nd_sent n @ [(k, row)]\<rparr>"
  let ?n2 = "n\<lparr>nd_sent := nd_sent n @ [(k, row)], nd_ops := Suc (Suc (nd_ops n))\<rparr>"
  let ?s = "\<lambda>n err. \<lparr>sl_node = n, sl_err = err, sl_udpRow = [], sl_Result = rsp\<rparr>"
  have 1: "?star (?s n None, Begin p) (?s ?n1 None, Testing p (?r p) ViaTCP [])"
    using alone_single_write [of "?s n None" p k bts num fmsg row e None _ cd, OF _ assms(3)] assms by (simp add: sock_write_def net_op_def)
  have 2: "?star (?s ?n1 None, Begin q) (?s ?n2 (Some err), Testing q (?r q) ViaTCP [])"
    using alone_single_write [of "?s ?n1 None" q j bts num fmsg row e "Some err" _ cd, OF _ assms(3)] assms by (simp add: sock_write_def net_op_def)
  have 3: "?star (?s ?n2 (Some err), Testing p (?r p) ViaTCP []) (?s ?n2 (Some err), AfterTcp p ((?r p)\<lparr>sr_Success := False\<rparr>))"
    by (rule alone_first, simp, simp add: after_loop_def) simp
  have r1: "?run (sendall_start n rsp [p, q]) (?s ?n1 None, [Testing p (?r p) ViaTCP [], Begin q])"
    using alone_steps [OF 1, of 0 "[Begin p, Begin q]"] by (simp add: sendall_start_def)
  have r2: "?run (?s ?n1 None, [Testing p (?r p) ViaTCP [], Begin q])
      (?s ?n2 (Some err), [Testing p (?r p) ViaTCP [], Testing q (?r q) ViaTCP []])"
    using alone_steps [OF 2, of 1 "[Testing p (?r p) ViaTCP [], Begin q]"] by simp
  have r3: "?run (?s ?n2 (Some err), [Testing p (?r p) ViaTCP [], Testing q (?r q) ViaTCP []])
      (?s ?n2 (Some err), [AfterTcp p ((?r p)\<lparr>sr_Success := False\<rparr>), Testing q (?r q) ViaTCP []])"
    using alone_steps [OF 3, of 0 "[Testing p (?r p) ViaTCP [], Testing q (?r q) ViaTCP []]"] by simp
  from rtranclp_trans [OF r1 rtranclp_trans [OF r2 r3]] show ?thesis
    by (intro exI [of _ "?s ?n2 (Some err)"] exI [of _ "(?r p)\<lparr>sr_Success := False\<rparr>"] exI [of _ "Testing q (?r q) ViaTCP []"]) simp
qed

section \<open>Two nodes\<close>

text \<open>A client of a watcher that names two nodes, to each of which it has a TCP connection.\<close>

definition pair_pb :: pb_codec where
  "pair_pb = talk_pb\<lparr>pc_dec_GetApiConnRsp :=
     \<lambda>_. Inr \<lparr>ga_Func = None, ga_List = [NodeInfo_zero, NodeInfo_zero\<lparr>ni_Uuid := ''b''\<rparr>]\<rparr>\<rparr>"

definition pair_env :: "(nat \<Rightarrow> error option) \<Rightarrow> net_env" where
  "pair_env fails = talk_env\<lparr>ne_err := fails\<rparr>"

lemma pair_start:
  assumes "\<And>k. k < 9 \<Longrightarrow> fails k = None"
  shows "\<exists>n num n1. sendall_prepare (pair_env fails) pair_pb bytes_codec ''Svc.Rev'' [] n =
      Ret (Inr (func_msg echo_api, [], num, [0, 1]), n1) \<and>
    nc_tconn (nd_conn n1 0) = Some 0 \<and> nc_tconn (nd_conn n1 1) = Some 1 \<and> nd_ops n1 = 9 \<and>
    conn_uuid n1 0 = [] \<and> conn_uuid n1 1 = ''b''"
proof -
  obtain n0 where n0: "newClient mute_env toy_pb (\<lambda>_ _. ''u'') 1 (Inr ''h'') (\<lambda>_. Inr 7) client_config = (Some n0, None)"
    and s: "nd_ser n0 = [[] \<mapsto> 0]" "wt_master (nd_wser n0) = Some 0" "nc_types (nd_conn n0 0) = ConnWithTCP"
      "nc_tconn (nd_conn n0 0) = Some 0" "nc_uconn (nd_conn n0 0) = None"
      "ni_Tport (nc_info (nd_conn n0 0)) = 9" "ni_Hport (nc_info (nd_conn n0 0)) = 0" "nd_ops n0 = 3"
    using client_starts by blast
  have f: "nd_ids n0 0 = None" "nd_str n0 '''' = None" using newClient_ok [OF n0] by (simp_all add: node_ok_def funcs_ok_def)
  have u: "conn_uuid n0 0 = []" using newClient_ok [OF n0] s(1) by (simp add: node_ok_def conns_ok_def)
  let ?n = "n0\<lparr>nd_ser := [[] \<mapsto> 0, ''b'' \<mapsto> 1], nd_conn := (nd_conn n0)(1 :=
    (nd_conn n0 0)\<lparr>nc_tconn := Some 1, nc_info := (nc_info (nd_conn n0 0))\<lparr>ni_Uuid := ''b''\<rparr>\<rparr>)\<rparr>"
  have "\<exists>num n1. sendall_prepare (pair_env fails) pair_pb bytes_codec ''Svc.Rev'' [] ?n =
      Ret (Inr (func_msg echo_api, [], num, [0, 1]), n1) \<and>
    nc_tconn (nd_conn n1 0) = Some 0 \<and> nc_tconn (nd_conn n1 1) = Some 1 \<and> nd_ops n1 = 9 \<and>
    conn_uuid n1 0 = [] \<and> conn_uuid n1 1 = ''b''"
    using s f u assms
    by (simp add: sendall_prepare_def SplitApiName_def QueryFunc_def Query_def wser_GetFuncMsg_def wser_GetApiConn_def pair_pb_def talk_pb_def toy_pb_def MasterCall_def watch_num_def Let_def watch_try_def
        tcp.MakeReqBody_nil sock_write_def net_op_def pair_env_def talk_env_def mute_env_def ProtoWaitRsp_def wait_chan_def
        filled_def upd_conn_def rpc_PutMsg_def store_func_def
        GetRemoteConn_def GetFuncConn_def List.map_filter_def GetNodeConn_def NodeInfo_zero_def TestConn_def TestTcpConn_def
        MarshalInterface_def bytes_codec_def serial_def WATCH_IN_MAX_def conn_info_def)
  then show ?thesis by blast
qed

lemma pair_run:
  "\<exists>n num n1 rs k. sendall_prepare (pair_env (\<lambda>_. None)) pair_pb bytes_codec ''Svc.Rev'' [] n =
      Ret (Inr (func_msg echo_api, [], num, [0, 1]), n1) \<and>
    sendall_run (pair_env (\<lambda>_. None)) pair_pb bytes_codec ''Svc.Rev'' [] n [] None rs k \<and>
    nc_tconn (nd_conn n1 0) = Some 0 \<and> nc_tconn (nd_conn n1 1) = Some 1 \<and> conn_uuid n1 0 = [] \<and> conn_uuid n1 1 = ''b''"
proof -
  obtain n num n1 where p: "sendall_prepare (pair_env (\<lambda>_. None)) pair_pb bytes_codec ''Svc.Rev'' [] n =
      Ret (Inr (func_msg echo_api, [], num, [0, 1]), n1)"
    and u: "nc_tconn (nd_conn n1 0) = Some 0" "nc_tconn (nd_conn n1 1) = Some 1" "conn_uuid n1 0 = []" "conn_uuid n1 1 = ''b''"
    using pair_start [of "\<lambda>_. None"] by blast
  obtain rs k where each: "send_each (pair_env (\<lambda>_. None)) bytes_codec (func_msg echo_api) [] num [0, 1] n1 = (rs, k)" by fastforce
  have "sendall (pair_env (\<lambda>_. None)) pair_pb bytes_codec ''Svc.Rev'' [] n = Ret ((None, rs), k)"
    by (simp only: sendall_def p go_bind.simps prod.case sum.case each Let_def) simp
  from sendall_is_run [OF this, of "[]"] have "sendall_run (pair_env (\<lambda>_. None)) pair_pb bytes_codec ''Svc.Rev'' [] n [] None rs k"
    by simp
  with p u show ?thesis by blast
qed

section \<open>Properties\<close>

text \<open>C9: However its goroutines are scheduled, \<open>sendall\<close> returns: they make a bounded number of steps between them, and
  they only stop when all of them are done.\<close>

theorem sendall_returns:
  assumes "((sendall_step e cd fmsg bts num) ^^ k) (sendall_start n rsp conns) (s, gs)"
  shows "k \<le> length conns * (3 * length (MakeReqBody tcpsplit bts num (unat (fmsg_FuncID fmsg))) +
      3 * length (MakeReqBody udpsplit bts num (unat (fmsg_FuncID fmsg))) + 8) \<and>
    ((\<nexists>c. sendall_step e cd fmsg bts num (s, gs) c) \<longleftrightarrow> all_gone gs)"
  using sendall_bounded [OF assms refl refl] sendall_stuck [of e cd fmsg bts num s gs] by auto

theorem sendall_returns_witness:
  "\<exists>k n s. ((sendall_step (pair_env (\<lambda>_. None)) bytes_codec (func_msg echo_api) [] 1) ^^ k) (sendall_start n [] [0, 1]) (s, [Gone, Gone]) \<and>
    k \<le> 2 * (3 * 1 + 3 * 1 + 8)"
proof -
  fix n :: NodeDetail
  obtain results n' where "send_each (pair_env (\<lambda>_. None)) bytes_codec (func_msg echo_api) [] 1 [0, 1] n = (results, n')" by fastforce
  from in_order_run [OF this, of "[]"] obtain s k where
    k: "((sendall_step (pair_env (\<lambda>_. None)) bytes_codec (func_msg echo_api) [] 1) ^^ k) (sendall_start n [] [0, 1]) (s, [Gone, Gone])"
    by (auto simp: numeral_2_eq_2 dest!: rtranclp_imp_relpowp)
  from sendall_returns [OF k] have "k \<le> 2 * (3 * 1 + 3 * 1 + 8)" by (simp add: tcp.MakeReqBody_nil udp.MakeReqBody_nil)
  with k show ?thesis by blast
qed

text \<open>C8: Whatever the order of its goroutines, a call of \<open>sendall\<close> that gets as far as sending returns no error, changes no
  connection, keeps the results that were there, and adds exactly one for each connection.\<close>

theorem sendall_reports_each:
  assumes "sendall_run e pc cd name req n rsp err results n'"
    and "sendall_prepare e pc cd name req n = Ret (Inr (fmsg, bts, num, conns), n1)"
  shows "err = None \<and> nd_conn n' = nd_conn n1 \<and>
    (\<exists>rs. results = rsp @ rs \<and> mset (map sr_Uuid rs) = mset (map (conn_uuid n1) conns))"
  using assms
proof (cases rule: sendall_run.cases)
  case (sends fmsg' bts' num' conns' n2 s gs)
  with assms(2) reports.reachable [OF sends(5) reports_ok_start] show ?thesis
    by (auto simp: reports_ok_def all_gone_reports)
qed simp

theorem sendall_reports_each_witness:
  "\<exists>n results n'. sendall_run (pair_env (\<lambda>_. None)) pair_pb bytes_codec ''Svc.Rev'' [] n [] None results n' \<and>
    mset (map sr_Uuid results) = {#[], ''b''#}"
proof -
  obtain n num n1 rs k where p: "sendall_prepare (pair_env (\<lambda>_. None)) pair_pb bytes_codec ''Svc.Rev'' [] n =
      Ret (Inr (func_msg echo_api, [], num, [0, 1]), n1)"
    and run: "sendall_run (pair_env (\<lambda>_. None)) pair_pb bytes_codec ''Svc.Rev'' [] n [] None rs k"
    and u: "conn_uuid n1 0 = []" "conn_uuid n1 1 = ''b''"
    using pair_run by blast
  from sendall_reports_each [OF run p] u have "mset (map sr_Uuid rs) = {#[], ''b''#}" by auto
  with run show ?thesis by (intro exI conjI)
qed



text \<open>C7: A failure to send can be lost: with two nodes, when the only write to the first fails, the goroutines can run in
  such an order that nothing is sent to the first node and yet both are reported as reached over TCP, and no error is
  returned. The goroutines share the variable that holds the error.\<close>

theorem sendall_loses_failures:
  assumes "sendall_prepare e pc cd name req n = Ret (Inr (fmsg, bts, num, [p, q]), n1)"
    and "nc_tconn (nd_conn n1 p) = Some k" "nc_tconn (nd_conn n1 q) = Some j"
    and "MakeReqBody tcpsplit bts num (unat (fmsg_FuncID fmsg)) = [row]"
    and "ne_err e (nd_ops n1) = Some failure" "ne_err e (Suc (nd_ops n1)) = None"
  shows "\<exists>results n'. sendall_run e pc cd name req n rsp None (rsp @ results) n' \<and>
    nd_sent n' = nd_sent n1 @ [(j, row)] \<and> map sr_Uuid results = [conn_uuid n1 p, conn_uuid n1 q] \<and>
    list_all sent_tcp results"
proof -
  from lost_failure [OF assms(2-6)] obtain s where s: "(sendall_step e cd fmsg bts num)\<^sup>*\<^sup>* (sendall_start n1 rsp [p, q]) (s, [Gone, Gone])"
    "nd_sent (sl_node s) = nd_sent n1 @ [(j, row)]"
    "sl_Result s = rsp @ map (\<lambda>c. \<lparr>sr_Uuid = conn_uuid n1 c, sr_Network = ''TCP'', sr_Success = True, sr_Message = []\<rparr>) [p, q]"
    by blast
  from sendall_run.sends [OF assms(1) s(1)] have "sendall_run e pc cd name req n rsp None (sl_Result s) (sl_node s)"
    by (simp add: all_gone_def)
  with s(2,3) show ?thesis
    by (intro exI [of _ "drop (length rsp) (sl_Result s)"] exI [of _ "sl_node s"]) (simp add: sent_tcp_def)
qed

theorem sendall_loses_failures_witness:
  "\<exists>n (n1 :: NodeDetail) row results n'.
    sendall_run (pair_env (\<lambda>k. if k = 9 then Some ''broken pipe'' else None)) pair_pb bytes_codec ''Svc.Rev'' [] n [] None results n' \<and>
    nd_sent n' = nd_sent n1 @ [(1, row)] \<and> map sr_Uuid results = [[], ''b''] \<and> list_all sent_tcp results"
proof -
  let ?e = "pair_env (\<lambda>k. if k = 9 then Some ''broken pipe'' else None)"
  from pair_start [of "\<lambda>k. if k = 9 then Some ''broken pipe'' else None"] obtain n num n1 where
    p: "sendall_prepare ?e pair_pb bytes_codec ''Svc.Rev'' [] n = Ret (Inr (func_msg echo_api, [], num, [0, 1]), n1)"
    and u: "nc_tconn (nd_conn n1 0) = Some 0" "nc_tconn (nd_conn n1 1) = Some 1" "nd_ops n1 = 9"
      "conn_uuid n1 0 = []" "conn_uuid n1 1 = ''b''" by auto
  have "ne_err ?e (nd_ops n1) = Some ''broken pipe''" "ne_err ?e (Suc (nd_ops n1)) = None" by (simp_all add: pair_env_def u(3))
  from sendall_loses_failures [OF p u(1,2) tcp.MakeReqBody_nil this, of "[]", unfolded u(4,5) append_Nil] show ?thesis
    by (elim exE conjE) (intro exI conjI)
qed

end
