(* ===== verification/Timer.thy ===== *)
theory Timer
  imports Numerals "HOL-Library.Signed_Division"
begin

text \<open>
  The timer wheel, package timer: the two tables of timers (\<open>TimerData\<close>, cache.go), the functions
  that add timers (timer.go), the ticker with its sweep \<open>checkSave\<close>, \<open>run\<close> and \<open>put\<close> (cache.go), the
  parser of time stamps \<open>checkTime\<close> (timer.go), \<open>SetTimeZone\<close> (time_zone.go), and \<open>TimeSplit\<close>
  (common.go).

  Times of the clock are in nanoseconds, the timers count in milliseconds, as in the code. A call
  that reads the clock several times reads the same time here, except for the loop of \<open>checkTime\<close>,
  which reads a clock that may advance. An \<open>int64\<close> is an \<^typ>\<open>int\<close>; where a product or a sum could leave
  its range, the wrap-around is written out with \<open>int64\<close>. The callbacks are the user's code: a timer
  keeps the number of its callback, and the answer of a boolean callback is an argument.
\<close>

section \<open>Data\<close>

definition int64 :: "int \<Rightarrow> int" where
  "int64 x = signed_take_bit 63 x"

definition SecondTimeUnit :: int where "SecondTimeUnit = 1000"
definition MinuteTimeUnit :: int where "MinuteTimeUnit = 60 * SecondTimeUnit"
definition HourTimeUnit :: int where "HourTimeUnit = 60 * MinuteTimeUnit"
definition DayTimeUnit :: int where "DayTimeUnit = 24 * HourTimeUnit"

lemmas time_units = SecondTimeUnit_def MinuteTimeUnit_def HourTimeUnit_def DayTimeUnit_def

datatype FunctionType = FuncOnly | FuncArg | FuncBool | FuncArgBool

primrec FunctionType_iota :: "FunctionType \<Rightarrow> nat" where
  "FunctionType_iota FuncOnly = 0"
| "FunctionType_iota FuncArg = 1"
| "FunctionType_iota FuncBool = 2"
| "FunctionType_iota FuncArgBool = 3"

lemma FunctionType_iota_inject: "FunctionType_iota x = FunctionType_iota y \<longleftrightarrow> x = y"
  by (cases x; cases y) simp_all

text \<open>The code compares function types with \<open><\<close>: they are ordered by their constants.\<close>

instantiation FunctionType :: linorder
begin

definition less_eq_FunctionType :: "FunctionType \<Rightarrow> FunctionType \<Rightarrow> bool" where
  "less_eq_FunctionType x y \<longleftrightarrow> FunctionType_iota x \<le> FunctionType_iota y"

definition less_FunctionType :: "FunctionType \<Rightarrow> FunctionType \<Rightarrow> bool" where
  "less_FunctionType x y \<longleftrightarrow> FunctionType_iota x < FunctionType_iota y"

instance
  by standard
    (auto simp: less_eq_FunctionType_def less_FunctionType_def FunctionType_iota_inject [symmetric])

end

lemma less_FuncBool [simp]: "FuncOnly < FuncBool" "FuncArg < FuncBool" "\<not> FuncArgBool < FuncBool"
  by (simp_all add: less_FunctionType_def)

record TimerFunc =
  tf_next :: int
  tf_uniq :: uint64
  tf_interval :: int
  tf_times :: int
  tf_type :: FunctionType
  tf_func :: nat
  tf_msg :: nat

record TimerData =
  td_one :: "uint64 \<rightharpoonup> TimerFunc"
  td_two :: "uint64 \<rightharpoonup> TimerFunc"
  td_zone :: int
  td_uniq :: uint64
  td_part :: int
  td_next :: nat

definition GetTimeMill :: "int \<Rightarrow> int" where
  "GetTimeMill now = now sdiv 1000000"

definition GetTimeMillAdd :: "int \<Rightarrow> int \<Rightarrow> int" where
  "GetTimeMillAdd now duration = (now + duration) sdiv 1000000"

text \<open>The fields of \<open>newTimer\<close>; \<open>zone\<close> is the offset of the local zone in seconds.\<close>

definition newTimer :: "int \<Rightarrow> int \<Rightarrow> TimerData" where
  "newTimer duration zone =
     \<lparr>td_one = Map.empty, td_two = Map.empty, td_zone = (if zone \<noteq> 0 then zone else 0), td_uniq = 0,
      td_part = (duration * 5) sdiv 1000000, td_next = 0\<rparr>"

text \<open>The public constructor.\<close>

definition NewTimer :: "int \<Rightarrow> int \<Rightarrow> TimerData" where
  "NewTimer duration zone = newTimer duration zone"

section \<open>Running timers\<close>

definition put :: "int \<Rightarrow> TimerFunc \<Rightarrow> TimerData \<Rightarrow> TimerData" where
  "put now data t =
     (if tf_next data \<le> GetTimeMill now + td_part t
      then t\<lparr>td_one := (td_one t)(tf_uniq data \<mapsto> data)\<rparr>
      else t\<lparr>td_two := (td_two t)(tf_uniq data \<mapsto> data)\<rparr>)"

text \<open>The callback is called; \<open>answer\<close> is what a boolean callback returns.\<close>

definition RunFunc :: "bool \<Rightarrow> TimerFunc \<Rightarrow> bool" where
  "RunFunc answer t =
     (case tf_type t of FuncOnly \<Rightarrow> True | FuncBool \<Rightarrow> answer | FuncArg \<Rightarrow> True | FuncArgBool \<Rightarrow> answer)"

text \<open>\<open>run\<close>, with whether the callback was called.\<close>

definition run :: "int \<Rightarrow> bool \<Rightarrow> TimerFunc \<Rightarrow> TimerData \<Rightarrow> bool \<times> TimerData" where
  "run now answer data t =
     (if tf_type data < FuncBool \<and> tf_times data = 0 then (False, t)
      else if tf_type data < FuncBool \<and> tf_times data = 1 then (True, t)
      else
        let data = (if tf_type data < FuncBool \<and> tf_times data \<noteq> -1
                    then data\<lparr>tf_times := tf_times data - 1\<rparr> else data)
        in if RunFunc answer data then (True, put now (data\<lparr>tf_next := tf_next data + tf_interval data\<rparr>) t)
           else (True, t))"

definition checkSave :: "int \<Rightarrow> TimerData \<Rightarrow> TimerData" where
  "checkSave now t =
     (let nxt = GetTimeMill now + td_part t;
          moved = (\<lambda>k. case td_two t k of Some v \<Rightarrow> tf_next v \<le> nxt | None \<Rightarrow> False)
      in t\<lparr>td_one := (\<lambda>k. if moved k then td_two t k else td_one t k),
           td_two := (\<lambda>k. if moved k then None else td_two t k)\<rparr>)"

text \<open>The sweep over the table \<open>one\<close> in the order \<open>ks\<close> of its keys: what is due is handed to a goroutine.\<close>

definition is_due :: "int \<Rightarrow> TimerData \<Rightarrow> uint64 \<Rightarrow> bool" where
  "is_due now t k = (case td_one t k of Some v \<Rightarrow> tf_next v \<le> GetTimeMill now | None \<Rightarrow> False)"

definition sweep_one :: "int \<Rightarrow> uint64 list \<Rightarrow> TimerData \<Rightarrow> TimerFunc list \<times> TimerData" where
  "sweep_one now ks t =
     (List.map_filter (\<lambda>k. if is_due now t k then td_one t k else None) ks,
      t\<lparr>td_one := (\<lambda>k. if k \<in> set ks \<and> is_due now t k then None else td_one t k)\<rparr>)"

text \<open>
  One round of the ticker. On every fourth round \<open>checkSave\<close> runs in a goroutine: before the sweep
  or after it, as \<open>early\<close> says.
\<close>

definition tick :: "bool \<Rightarrow> int \<Rightarrow> uint64 list \<Rightarrow> TimerData \<Rightarrow> TimerFunc list \<times> TimerData" where
  "tick early now ks t =
     (let count = td_next t + 1
      in if count \<ge> 4 then
           let t = t\<lparr>td_next := 0\<rparr>
           in if early then sweep_one now ks (checkSave now t)
              else (let (gs, t) = sweep_one now ks t in (gs, checkSave now t))
         else sweep_one now ks (t\<lparr>td_next := count\<rparr>))"

section \<open>Adding timers\<close>

definition arm :: "int \<Rightarrow> TimerFunc \<Rightarrow> TimerData \<Rightarrow> uint64 \<times> TimerData" where
  "arm now data t =
     (let uniq = td_uniq t + 1 in (uniq, put now (data\<lparr>tf_uniq := uniq\<rparr>) (t\<lparr>td_uniq := uniq\<rparr>)))"

text \<open>A callback or an argument that may be nil is an option.\<close>

definition AddDurationArgument ::
    "int \<Rightarrow> int \<Rightarrow> int \<Rightarrow> nat option \<Rightarrow> nat option \<Rightarrow> TimerData \<Rightarrow> uint64 \<times> TimerData" where
  "AddDurationArgument now duration ntimes arg function t =
     (if ntimes = 0 then (0, t)
      else
        let ntimes = (if ntimes < 0 then -1 else ntimes)
        in case (function, arg) of
             (Some fn, Some a) \<Rightarrow>
               arm now \<lparr>tf_next = GetTimeMillAdd now duration, tf_uniq = 0,
                        tf_interval = duration sdiv 1000000, tf_times = ntimes,
                        tf_type = FuncArg, tf_func = fn, tf_msg = a\<rparr> t
           | _ \<Rightarrow> (0, t))"

definition AddDurationFunction ::
    "int \<Rightarrow> int \<Rightarrow> int \<Rightarrow> nat option \<Rightarrow> TimerData \<Rightarrow> uint64 \<times> TimerData" where
  "AddDurationFunction now duration ntimes function t =
     (if ntimes = 0 then (0, t)
      else
        let ntimes = (if ntimes < 0 then -1 else ntimes)
        in case function of
             Some fn \<Rightarrow>
               arm now \<lparr>tf_next = GetTimeMillAdd now duration, tf_uniq = 0,
                        tf_interval = duration sdiv 1000000, tf_times = ntimes,
                        tf_type = FuncOnly, tf_func = fn, tf_msg = 0\<rparr> t
           | None \<Rightarrow> (0, t))"

definition AddDurationBoolean :: "int \<Rightarrow> int \<Rightarrow> nat \<Rightarrow> TimerData \<Rightarrow> uint64 \<times> TimerData" where
  "AddDurationBoolean now duration function t =
     arm now \<lparr>tf_next = GetTimeMillAdd now duration, tf_uniq = 0,
              tf_interval = duration sdiv 1000000, tf_times = 0,
              tf_type = FuncBool, tf_func = function, tf_msg = 0\<rparr> t"

definition AddDurationArgBool :: "int \<Rightarrow> int \<Rightarrow> nat \<Rightarrow> nat \<Rightarrow> TimerData \<Rightarrow> uint64 \<times> TimerData" where
  "AddDurationArgBool now duration arg function t =
     arm now \<lparr>tf_next = GetTimeMillAdd now duration, tf_uniq = 0,
              tf_interval = duration sdiv 1000000, tf_times = 0,
              tf_type = FuncArgBool, tf_func = function, tf_msg = arg\<rparr> t"

section \<open>Time stamps\<close>

text \<open>
  What \<open>time.ParseInLocation\<close> makes of the end of a time in the layout \<open>15:04:05\<close>: the second, the
  minute and second, or the hour, minute and second that replace those of the current time.
\<close>

definition two_digits :: "nat \<Rightarrow> string \<Rightarrow> nat option" where
  "two_digits bound s =
     (case parse_digits s of
        Some n \<Rightarrow> if length s = 2 \<and> n < bound then Some n else None
      | None \<Rightarrow> None)"

definition parse_second :: "string \<Rightarrow> nat option" where
  "parse_second s = two_digits 60 s"

definition parse_minute :: "string \<Rightarrow> nat option" where
  "parse_minute s =
     (case (two_digits 60 (take 2 s), s ! 2 = CHR '':'', parse_second (drop 3 s)) of
        (Some m, True, Some sec) \<Rightarrow> Some (m * 60 + sec)
      | _ \<Rightarrow> None)"

definition parse_hour :: "string \<Rightarrow> nat option" where
  "parse_hour s =
     (case (two_digits 24 (take 2 s), s ! 2 = CHR '':'', parse_minute (drop 3 s)) of
        (Some h, True, Some sec) \<Rightarrow> Some (h * 3600 + sec)
      | _ \<Rightarrow> None)"

partial_function (option) catch_up :: "(nat \<Rightarrow> int) \<Rightarrow> int \<Rightarrow> nat \<Rightarrow> int \<Rightarrow> int option" where
  "catch_up clock interval k next =
     (if next \<le> GetTimeMill (clock k) then catch_up clock interval (Suc k) (int64 (next + interval))
      else Some next)"

text \<open>
  \<open>checkTime\<close> on a nonempty stamp; its caller refuses the empty one. \<open>wall\<close> is the local wall-clock
  time in seconds, read as if it were UTC, which is what formatting the time and parsing it again as
  UTC gives; \<open>clock k\<close> is the \<open>k\<close>-th reading of the clock. With an error only the error counts: a number out
  of range leaves the limit of its type in the code and 0 here.
\<close>

definition unit_stamp :: "(string \<Rightarrow> error) \<Rightarrow> string \<Rightarrow> int \<Rightarrow> int \<times> error option" where
  "unit_stamp perr stamp unit =
     (case Atoi perr (butlast stamp) of
        Inr temp \<Rightarrow> (int64 (temp * unit), None)
      | Inl e \<Rightarrow> (0, Some e))"

text \<open>The Unix time of Go's zero time, which a failed parse returns.\<close>

definition zero_time :: int where "zero_time = - 62135596800"

definition clock_stamp ::
    "(string \<Rightarrow> error) \<Rightarrow> int \<Rightarrow> int \<Rightarrow> int \<Rightarrow> string \<Rightarrow> int \<times> int \<times> error option" where
  "clock_stamp terr now wall zone stamp =
     (if length stamp = 2 then
        (case parse_second stamp of
           Some s \<Rightarrow> ((wall - wall mod 60 + int s - zone) sdiv 60 * 60000, MinuteTimeUnit, None)
         | None \<Rightarrow> ((zero_time - zone) sdiv 60 * 60000, MinuteTimeUnit, Some (terr stamp)))
      else if length stamp = 5 then
        (case parse_minute stamp of
           Some s \<Rightarrow> ((wall - wall mod 3600 + int s - zone) sdiv 3600 * 3600000, HourTimeUnit, None)
         | None \<Rightarrow> ((zero_time - zone) sdiv 3600 * 3600000, HourTimeUnit, Some (terr stamp)))
      else if length stamp = 8 then
        (case parse_hour stamp of
           Some s \<Rightarrow> ((wall - wall mod 86400 + int s - zone) sdiv 86400 * 86400000, DayTimeUnit, None)
         | None \<Rightarrow> ((zero_time - zone) sdiv 86400 * 86400000, DayTimeUnit, Some (terr stamp)))
      else (now, 0, Some ''can't parst time, please check it''))"

definition read_stamp ::
    "(string \<Rightarrow> error) \<Rightarrow> int \<Rightarrow> int \<Rightarrow> int \<Rightarrow> string \<Rightarrow> int \<times> int \<times> error option" where
  "read_stamp perr now wall zone stamp =
     (let c = last stamp in
      if c = CHR ''s'' \<or> c = CHR ''S'' then (now, unit_stamp perr stamp SecondTimeUnit)
      else if c = CHR ''m'' \<or> c = CHR ''M'' then (now, unit_stamp perr stamp MinuteTimeUnit)
      else if c = CHR ''h'' \<or> c = CHR ''H'' then (now, unit_stamp perr stamp HourTimeUnit)
      else if c = CHR ''d'' \<or> c = CHR ''D'' then (now, unit_stamp perr stamp DayTimeUnit)
      else if is_digit c then clock_stamp perr now wall zone stamp
      else (now, 0, Some ''can't parst stamp value, please check it''))"

definition checkTime ::
    "(string \<Rightarrow> error) \<Rightarrow> (nat \<Rightarrow> int) \<Rightarrow> int \<Rightarrow> string \<Rightarrow> TimerData \<Rightarrow> (int \<times> int \<times> error option) option"
where
  "checkTime perr clock wall stamp t =
     (case read_stamp perr (GetTimeMill (clock 0)) wall (td_zone t) stamp of
        (nxt, interval, err) \<Rightarrow>
          if err = None \<and> interval > 0 then
            map_option (\<lambda>nxt. (nxt, interval, err)) (catch_up clock interval 1 nxt)
          else Some (nxt, interval, err))"

text \<open>
  \<open>AddTimerRun\<close>: the results are whether the callback is called at once, the error, the id and the
  new tables; \<open>now\<close> is the time at which the timer is put.
\<close>

definition AddTimerRun ::
    "(string \<Rightarrow> error) \<Rightarrow> (nat \<Rightarrow> int) \<Rightarrow> int \<Rightarrow> int \<Rightarrow> string \<Rightarrow> int \<Rightarrow> bool \<Rightarrow> nat \<Rightarrow> nat option
     \<Rightarrow> TimerData \<Rightarrow> (bool \<times> error option \<times> uint64 \<times> TimerData) option"
where
  "AddTimerRun perr clock wall now stamp n runs msg function t =
     (case function of
        None \<Rightarrow> Some (False, Some ''time stamp or function wrong'', 0, t)
      | Some fn \<Rightarrow>
          if stamp = '''' then Some (False, Some ''time stamp or function wrong'', 0, t)
          else
            (case checkTime perr clock wall stamp t of
               None \<Rightarrow> None
             | Some (nxt, interval, Some err) \<Rightarrow> Some (False, Some err, 0, t)
             | Some (nxt, interval, None) \<Rightarrow>
                 let n = (if n < 0 then -1 else n)
                 in if n = 0 then Some (False, Some ''ticker run times can not be zero'', 0, t)
                    else if runs \<and> n = 1 then Some (True, None, 0, t)
                    else
                      let n = (if runs \<and> n \<noteq> -1 then n - 1 else n);
                          (uniq, t) = arm now \<lparr>tf_next = nxt, tf_uniq = 0, tf_interval = interval,
                             tf_times = n, tf_type = FuncArg, tf_func = fn, tf_msg = msg\<rparr> t
                      in Some (runs, None, uniq, t)))"

section \<open>Time zones and splitting\<close>

definition SetTimeZone :: "(string \<Rightarrow> error) \<Rightarrow> string \<Rightarrow> TimerData \<Rightarrow> error option \<times> TimerData" where
  "SetTimeZone perr v t =
     (if v = '''' then (Some ''time zone string is null'', t)
      else if of_char (hd v) \<noteq> (43 :: nat) \<and> of_char (hd v) \<noteq> (45 :: nat) then
        (Some ''time zone string first byte not ['-' or '+']'', t)
      else if v = ''+00:00'' then (None, t\<lparr>td_zone := 0\<rparr>)
      else
        let ts = split_on CHR '':'' (tl v)
        in if length ts \<noteq> 2 then (Some ''time zone string format wrong'', t)
           else
             (case ParseUint perr (ts ! 0) of
                Inl e \<Rightarrow> (Some (''parse time zone hour error: '' @ e), t)
              | Inr h \<Rightarrow>
                  if h > 23 then (Some ''time zone hour more than 23'', t)
                  else
                    (case ParseUint perr (ts ! 1) of
                       Inl e \<Rightarrow> (Some (''parse time Zone minter error: '' @ e), t)
                     | Inr m \<Rightarrow>
                         if m > 59 then (Some ''time zone minter more than 59'', t)
                         else if of_char (hd v) = (43 :: nat)
                         then (None, t\<lparr>td_zone := int (h * 3600 + m * 60)\<rparr>)
                         else (None, t\<lparr>td_zone := - int (h * 3600 + m * 60)\<rparr>))))"

text \<open>\<open>sort.Sort\<close> with the order of \<open>ByNext\<close> is a parameter: it is not a stable sort.\<close>

fun split_at_later :: "int \<Rightarrow> TimerFunc list \<Rightarrow> TimerFunc list \<times> TimerFunc list" where
  "split_at_later stamp [] = ([], [])"
| "split_at_later stamp (r # rs) =
     (if tf_next r > stamp then ([], r # rs)
      else (let (before, after) = split_at_later stamp rs in (r # before, after)))"

definition ByNext_Less :: "TimerFunc \<Rightarrow> TimerFunc \<Rightarrow> bool" where
  "ByNext_Less x y = (tf_next x < tf_next y)"

definition TimeSplit ::
    "((TimerFunc \<Rightarrow> TimerFunc \<Rightarrow> bool) \<Rightarrow> TimerFunc list \<Rightarrow> TimerFunc list)
     \<Rightarrow> TimerFunc list \<Rightarrow> int \<Rightarrow> TimerFunc list \<times> TimerFunc list" where
  "TimeSplit sorter rows stamp =
     (if rows = [] then ([], []) else split_at_later stamp (sorter ByNext_Less rows))"

section \<open>The timer at work\<close>

text \<open>
  The ticker, the sweep \<open>checkSave\<close>, the goroutines that run timers and the callers that add timers
  interleave in any order, each step undisturbed. \<open>ts_go\<close> are the goroutines that were started and
  have not run yet; \<open>ts_log\<close> has the calls made, with the time, the due time and the id.
\<close>

record timer_sys =
  ts_td :: TimerData
  ts_go :: "TimerFunc list"
  ts_now :: int
  ts_log :: "(int \<times> int \<times> uint64) list"

inductive timer_step :: "timer_sys \<Rightarrow> timer_sys \<Rightarrow> bool" where
  time_passes: "ts_now s \<le> now \<Longrightarrow> timer_step s (s\<lparr>ts_now := now\<rparr>)"
| ticks: "tick early (ts_now s) ks (ts_td s) = (gs, t) \<Longrightarrow> distinct ks \<Longrightarrow>
     timer_step s (s\<lparr>ts_td := t, ts_go := ts_go s @ gs\<rparr>)"
| saves: "timer_step s (s\<lparr>ts_td := checkSave (ts_now s) (ts_td s)\<rparr>)"
| runs: "ts_go s = xs @ v # ys \<Longrightarrow> run (ts_now s) answer v (ts_td s) = (called, t) \<Longrightarrow>
     timer_step s (s\<lparr>ts_td := t, ts_go := xs @ ys,
       ts_log := ts_log s @ (if called then [(GetTimeMill (ts_now s), tf_next v, tf_uniq v)] else [])\<rparr>)"
| adds: "td_uniq (ts_td s) < 2 ^ 64 - 1 \<Longrightarrow> arm (ts_now s) data (ts_td s) = (uniq, t) \<Longrightarrow>
     timer_step s (s\<lparr>ts_td := t\<rparr>)"

abbreviation timer_reachable :: "timer_sys \<Rightarrow> timer_sys \<Rightarrow> bool" where
  "timer_reachable \<equiv> timer_step\<^sup>*\<^sup>*"

text \<open>Where the timer with a given id is: in one of the tables, or with a goroutine.\<close>

definition copies :: "uint64 \<Rightarrow> timer_sys \<Rightarrow> TimerFunc list" where
  "copies u s =
     (case td_one (ts_td s) u of Some v \<Rightarrow> [v] | None \<Rightarrow> []) @
     (case td_two (ts_td s) u of Some v \<Rightarrow> [v] | None \<Rightarrow> []) @
     filter (\<lambda>v. tf_uniq v = u) (ts_go s)"

definition calls :: "uint64 \<Rightarrow> timer_sys \<Rightarrow> int list" where
  "calls u s = map (\<lambda>(now, due, k). due) (filter (\<lambda>(now, due, k). k = u) (ts_log s))"

text \<open>Timers are filed under their ids, ids were given out, and nothing was called before it was due.\<close>

definition timer_ok :: "timer_sys \<Rightarrow> bool" where
  "timer_ok s \<longleftrightarrow>
     (\<forall>k v. td_one (ts_td s) k = Some v \<longrightarrow> tf_uniq v = k \<and> k \<le> td_uniq (ts_td s)) \<and>
     (\<forall>k v. td_two (ts_td s) k = Some v \<longrightarrow> tf_uniq v = k \<and> k \<le> td_uniq (ts_td s)) \<and>
     (\<forall>v \<in> set (ts_go s). tf_uniq v \<le> td_uniq (ts_td s) \<and> tf_next v \<le> GetTimeMill (ts_now s)) \<and>
     (\<forall>(now, due, k) \<in> set (ts_log s). due \<le> now \<and> k \<le> td_uniq (ts_td s))"

lemma timer_okD:
  assumes "timer_ok s"
  shows "td_one (ts_td s) k = Some v \<Longrightarrow> tf_uniq v = k \<and> k \<le> td_uniq (ts_td s)"
    and "td_two (ts_td s) k = Some v \<Longrightarrow> tf_uniq v = k \<and> k \<le> td_uniq (ts_td s)"
    and "v \<in> set (ts_go s) \<Longrightarrow> tf_uniq v \<le> td_uniq (ts_td s) \<and> tf_next v \<le> GetTimeMill (ts_now s)"
    and "(now, due, w) \<in> set (ts_log s) \<Longrightarrow> due \<le> now \<and> w \<le> td_uniq (ts_td s)"
  using assms by (auto simp: timer_ok_def)

lemma GetTimeMill_mono: "a \<le> b \<Longrightarrow> GetTimeMill a \<le> GetTimeMill b"
  using zdiv_mono1 [of a b 1000000] zdiv_mono1 [of "- b" "- a" 1000000]
    pos_imp_zdiv_nonneg_iff [of 1000000 b] pos_imp_zdiv_nonneg_iff [of 1000000 "- a"]
  by (auto simp: GetTimeMill_def signed_divide_int_def sgn_if)

text \<open>The parts of a round: \<open>tick\<close> is a sweep and perhaps a \<open>checkSave\<close>, apart from the counter.\<close>

lemma put_uniq [simp]: "td_uniq (put now v t) = td_uniq t"
  by (simp add: put_def)

lemma put_one: "td_one (put now v t) k = Some w \<Longrightarrow> td_one t k = Some w \<or> k = tf_uniq v \<and> w = v"
  by (auto simp: put_def split: if_splits)

lemma put_two: "td_two (put now v t) k = Some w \<Longrightarrow> td_two t k = Some w \<or> k = tf_uniq v \<and> w = v"
  by (auto simp: put_def split: if_splits)

lemma put_ok: "timer_ok s \<Longrightarrow> tf_uniq v \<le> td_uniq (ts_td s) \<Longrightarrow>
    timer_ok (s\<lparr>ts_td := put now v (ts_td s)\<rparr>)"
  by (auto simp: timer_ok_def dest!: put_one put_two)

lemma checkSave_ok: "timer_ok s \<Longrightarrow> timer_ok (s\<lparr>ts_td := checkSave now (ts_td s)\<rparr>)"
  by (auto simp: timer_ok_def checkSave_def Let_def split: option.splits if_splits)

lemma sweep_one_started:
  "fst (sweep_one now ks t) = gs \<Longrightarrow> v \<in> set gs \<longleftrightarrow>
     (\<exists>k \<in> set ks. td_one t k = Some v \<and> tf_next v \<le> GetTimeMill now)"
proof -
  have "(if is_due now t k then td_one t k else None) = Some v \<longleftrightarrow>
      td_one t k = Some v \<and> tf_next v \<le> GetTimeMill now" for k
    by (cases "td_one t k") (auto simp: is_due_def)
  then show "fst (sweep_one now ks t) = gs \<Longrightarrow> ?thesis"
    by (auto simp: sweep_one_def in_map_filter)
qed

lemma sweep_one_ok:
  assumes ok: "timer_ok s" and run: "sweep_one (ts_now s) ks (ts_td s) = (gs, t)"
  shows "timer_ok (s\<lparr>ts_td := t, ts_go := ts_go s @ gs\<rparr>)"
proof -
  have gs: "tf_uniq v \<le> td_uniq (ts_td s) \<and> tf_next v \<le> GetTimeMill (ts_now s)" if "v \<in> set gs" for v
    using that sweep_one_started [of "ts_now s" ks "ts_td s" gs v] run timer_okD(1) [OF ok] by auto
  have t: "td_two t = td_two (ts_td s)" "td_uniq t = td_uniq (ts_td s)"
    "td_one t k = Some v \<Longrightarrow> td_one (ts_td s) k = Some v" for k v
    using run by (auto simp: sweep_one_def split: if_splits)
  show ?thesis
    using ok gs t(3) unfolding timer_ok_def by (auto simp: t(1,2))
qed

lemma copies_next: "copies u (s\<lparr>ts_td := ts_td s\<lparr>td_next := c\<rparr>\<rparr>) = copies u s"
  by (simp add: copies_def)

lemma timer_ok_next: "timer_ok (s\<lparr>ts_td := ts_td s\<lparr>td_next := c\<rparr>\<rparr>) = timer_ok s"
  by (simp add: timer_ok_def)

lemma checkSave_copies:
  "copies u s = [v] \<or> copies u s = [] \<Longrightarrow> copies u (s\<lparr>ts_td := checkSave now (ts_td s)\<rparr>) = copies u s"
  by (auto simp: copies_def checkSave_def Let_def split: option.splits if_splits)

lemma sweep_one_filter:
  assumes own: "\<And>k v. td_one t k = Some v \<Longrightarrow> tf_uniq v = k" and dist: "distinct ks"
  shows "filter (\<lambda>v. tf_uniq v = u) (fst (sweep_one now ks t)) =
    (if u \<in> set ks \<and> is_due now t u then [the (td_one t u)] else [])"
  using dist
proof (induction ks)
  case (Cons k ks)
  then have IH: "filter (\<lambda>v. tf_uniq v = u)
      (List.map_filter (\<lambda>k. if is_due now t k then td_one t k else None) ks) =
      (if u \<in> set ks \<and> is_due now t u then [the (td_one t u)] else [])"
    by (simp add: sweep_one_def)
  show ?case
  proof (cases "is_due now t k")
    case True
    then obtain v where "td_one t k = Some v" "tf_uniq v = k"
      using own by (auto simp: is_due_def split: option.splits)
    with IH True Cons.prems show ?thesis
      by (auto simp: sweep_one_def List.map_filter_simps)
  next
    case False
    with IH show ?thesis by (auto simp: sweep_one_def List.map_filter_simps)
  qed
qed (simp add: sweep_one_def List.map_filter_simps)

lemma sweep_one_copies:
  assumes ok: "timer_ok s" and dist: "distinct ks"
    and run: "sweep_one (ts_now s) ks (ts_td s) = (gs, t)"
    and one: "copies u s = [v] \<or> copies u s = []"
  shows "copies u (s\<lparr>ts_td := t, ts_go := ts_go s @ gs\<rparr>) = copies u s"
proof -
  have gs: "filter (\<lambda>v. tf_uniq v = u) gs =
      (if u \<in> set ks \<and> is_due (ts_now s) (ts_td s) u then [the (td_one (ts_td s) u)] else [])"
    using sweep_one_filter [of "ts_td s" ks u "ts_now s"] timer_okD(1) [OF ok] dist run by auto
  have t: "td_two t = td_two (ts_td s)"
    "td_one t u = (if u \<in> set ks \<and> is_due (ts_now s) (ts_td s) u then None else td_one (ts_td s) u)"
    using run by (auto simp: sweep_one_def)
  show ?thesis
    using one gs t by (auto simp: copies_def is_due_def split: option.splits if_splits)
qed

text \<open>A round of the ticker in these terms.\<close>

lemma tick_cases:
  assumes "tick early now ks t = (gs, t')"
  obtains c where "sweep_one now ks (t\<lparr>td_next := c\<rparr>) = (gs, t')"
  | "sweep_one now ks (checkSave now (t\<lparr>td_next := 0\<rparr>)) = (gs, t')"
  | t1 where "sweep_one now ks (t\<lparr>td_next := 0\<rparr>) = (gs, t1)" and "t' = checkSave now t1"
  using assms by (auto simp: tick_def Let_def split: if_splits prod.splits)

lemma timer_sys_swap: "s\<lparr>ts_go := g, ts_td := t\<rparr> = s\<lparr>ts_td := t, ts_go := g\<rparr>"
  by (cases s) simp

lemma tick_ok_copies:
  assumes ok: "timer_ok s" and dist: "distinct ks"
    and run: "tick early (ts_now s) ks (ts_td s) = (gs, t)"
    and one: "copies u s = [v] \<or> copies u s = []"
  shows "timer_ok (s\<lparr>ts_td := t, ts_go := ts_go s @ gs\<rparr>) \<and>
    copies u (s\<lparr>ts_td := t, ts_go := ts_go s @ gs\<rparr>) = copies u s"
proof -
  define s1 where "s1 c = s\<lparr>ts_td := (ts_td s)\<lparr>td_next := c\<rparr>\<rparr>" for c
  have s1: "timer_ok (s1 c)" "copies u (s1 c) = copies u s" "ts_now (s1 c) = ts_now s"
    "ts_go (s1 c) = ts_go s" for c
    using ok copies_next [where u = u and s = s and c = c] timer_ok_next [where s = s and c = c] by (simp_all add: s1_def)
  define s2 where "s2 = (s1 0)\<lparr>ts_td := checkSave (ts_now s) (ts_td (s1 0))\<rparr>"
  have s2: "timer_ok s2" "copies u s2 = copies u s" "ts_now s2 = ts_now s" "ts_go s2 = ts_go s"
    using checkSave_ok [OF s1(1) [of 0], of "ts_now s"] checkSave_copies [of u "s1 0" v "ts_now s"] s1 one
    by (simp_all add: s2_def)
  from run show ?thesis
  proof (cases rule: tick_cases)
    case (1 c)
    then have "sweep_one (ts_now (s1 c)) ks (ts_td (s1 c)) = (gs, t)" by (simp add: s1_def)
    from sweep_one_ok [OF s1(1) this] sweep_one_copies [OF s1(1) dist this, of u v] one s1
    show ?thesis by (simp add: s1_def)
  next
    case 2
    then have "sweep_one (ts_now s2) ks (ts_td s2) = (gs, t)" by (simp add: s2_def s1_def)
    from sweep_one_ok [OF s2(1) this] sweep_one_copies [OF s2(1) dist this, of u v] one s2
    show ?thesis by (simp add: s1_def s2_def)
  next
    case (3 t1)
    define s3 where "s3 = (s1 0)\<lparr>ts_td := t1, ts_go := ts_go s @ gs\<rparr>"
    from 3(1) have "sweep_one (ts_now (s1 0)) ks (ts_td (s1 0)) = (gs, t1)" by (simp add: s1_def)
    from sweep_one_ok [OF s1(1) this] sweep_one_copies [OF s1(1) dist this, of u v] one s1
    have "timer_ok s3" "copies u s3 = copies u s" by (simp_all add: s3_def)
    with checkSave_ok [of s3 "ts_now s"] checkSave_copies [of u s3 v "ts_now s"] one 3(2)
    show ?thesis by (simp add: s3_def s1_def timer_sys_swap)
  qed
qed

section \<open>A periodic timer keeps its schedule\<close>

text \<open>
  After \<open>c\<close> calls the timer \<open>u\<close>, first due at \<open>d\<close> with interval \<open>iv\<close> and \<open>n\<close> runs asked for (\<open>-1\<close>: for
  ever), is in one place with the \<open>c\<close>-th due time, or has run \<open>n\<close> times and is gone.
\<close>

definition on_schedule :: "uint64 \<Rightarrow> int \<Rightarrow> int \<Rightarrow> int \<Rightarrow> timer_sys \<Rightarrow> bool" where
  "on_schedule u d iv n s \<longleftrightarrow>
     (let c = int (length (calls u s)) in
       calls u s = map (\<lambda>i. d + int i * iv) [0..<length (calls u s)] \<and>
       (copies u s = [] \<and> 0 < n \<and> c = n \<or>
        (\<exists>v. copies u s = [v] \<and> tf_uniq v = u \<and> tf_next v = d + c * iv \<and> tf_interval v = iv \<and>
             tf_type v < FuncBool \<and>
             (if n = -1 then tf_times v = -1 else c < n \<and> tf_times v = n - c))))"

definition timer_inv :: "uint64 \<Rightarrow> int \<Rightarrow> int \<Rightarrow> int \<Rightarrow> timer_sys \<Rightarrow> bool" where
  "timer_inv u d iv n s \<longleftrightarrow> timer_ok s \<and> u \<le> td_uniq (ts_td s) \<and> on_schedule u d iv n s"

lemma on_schedule_same:
  "copies u s' = copies u s \<Longrightarrow> calls u s' = calls u s \<Longrightarrow> on_schedule u d iv n s \<Longrightarrow> on_schedule u d iv n s'"
  by (simp add: on_schedule_def)

lemma on_schedule_copies: "on_schedule u d iv n s \<Longrightarrow> copies u s = [] \<or> (\<exists>v. copies u s = [v])"
  by (auto simp: on_schedule_def Let_def)

lemma run_table:
  assumes "run now answer v t = (called, t')"
  shows "t' = t \<or> (\<exists>w. tf_uniq w = tf_uniq v \<and> t' = put now w t)"
proof -
  let ?v = "if tf_type v < FuncBool \<and> tf_times v \<noteq> -1 then v\<lparr>tf_times := tf_times v - 1\<rparr> else v"
  let ?w = "?v\<lparr>tf_next := tf_next v + tf_interval v\<rparr>"
  have "t' = t \<or> t' = put now ?w t"
    using assms by (auto simp: run_def Let_def split: if_splits)
  moreover have "tf_uniq ?w = tf_uniq v" by simp
  ultimately show ?thesis by blast
qed

lemma run_ok:
  assumes ok: "timer_ok s" and go: "ts_go s = xs @ v # ys"
    and run: "run (ts_now s) answer v (ts_td s) = (called, t)"
  shows "timer_ok (s\<lparr>ts_td := t, ts_go := xs @ ys,
      ts_log := ts_log s @ (if called then [(GetTimeMill (ts_now s), tf_next v, tf_uniq v)] else [])\<rparr>)"
proof -
  have v: "tf_uniq v \<le> td_uniq (ts_td s)" "tf_next v \<le> GetTimeMill (ts_now s)"
    using timer_okD(3) [OF ok, of v] go by simp_all
  have "t = ts_td s \<or> (\<exists>w. tf_uniq w = tf_uniq v \<and> t = put (ts_now s) w (ts_td s))"
    using run by (rule run_table)
  then have "timer_ok (s\<lparr>ts_td := t\<rparr>)" and "td_uniq t = td_uniq (ts_td s)"
    using ok put_ok [OF ok] v(1) by auto
  then show ?thesis
    using go v unfolding timer_ok_def by auto
qed

lemma put_copies_other: "tf_uniq w \<noteq> u \<Longrightarrow> copies u (s\<lparr>ts_td := put now w (ts_td s)\<rparr>) = copies u s"
  by (auto simp: copies_def put_def)

lemma put_copies_own: "tf_uniq w = u \<Longrightarrow> copies u s = [] \<Longrightarrow>
    copies u (s\<lparr>ts_td := put now w (ts_td s)\<rparr>) = [w]"
  by (auto simp: copies_def put_def split: option.splits)

lemma copies_log [simp]: "copies u (s\<lparr>ts_log := l\<rparr>) = copies u s"
  by (simp add: copies_def)

lemma calls_td_go [simp]: "calls u (s\<lparr>ts_td := t, ts_go := g, ts_log := l\<rparr>) = calls u (s\<lparr>ts_log := l\<rparr>)"
  by (simp add: calls_def)

lemma calls_append: "calls u (s\<lparr>ts_log := ts_log s @ l\<rparr>) =
    calls u s @ map (\<lambda>(now, due, k). due) (filter (\<lambda>(now, due, k). k = u) l)"
  by (simp add: calls_def)

text \<open>The run of another timer leaves \<open>u\<close> alone; the run of \<open>u\<close> itself is the next of its schedule.\<close>

lemma run_schedule:
  assumes sched: "on_schedule u d iv n s" and go: "ts_go s = xs @ v # ys"
    and run: "run (ts_now s) answer v (ts_td s) = (called, t)"
  shows "on_schedule u d iv n (s\<lparr>ts_td := t, ts_go := xs @ ys,
      ts_log := ts_log s @ (if called then [(GetTimeMill (ts_now s), tf_next v, tf_uniq v)] else [])\<rparr>)"
    (is "on_schedule u d iv n ?s")
proof (cases "tf_uniq v = u")
  case False
  have "t = ts_td s \<or> (\<exists>w. tf_uniq w = tf_uniq v \<and> t = put (ts_now s) w (ts_td s))"
    using run by (rule run_table)
  then have "copies u (s\<lparr>ts_td := t\<rparr>) = copies u s"
    using put_copies_other False by auto
  then have "copies u ?s = copies u s" using go False by (simp add: copies_def)
  moreover have "calls u ?s = calls u s" using False by (simp add: calls_append)
  ultimately show ?thesis using sched by (rule on_schedule_same)
next
  case True
  let ?c = "length (calls u s)"
  have grid: "calls u s = map (\<lambda>i. d + int i * iv) [0..<?c]"
    using sched by (simp add: on_schedule_def Let_def)
  have "v \<in> set (copies u s)" using go True by (simp add: copies_def)
  then have v: "copies u s = [v]" "tf_next v = d + int ?c * iv" "tf_interval v = iv" "tf_type v < FuncBool"
    and left: "if n = -1 then tf_times v = -1 else int ?c < n \<and> tf_times v = n - int ?c"
    using sched by (auto simp: on_schedule_def Let_def)
  have gone: "copies u (s\<lparr>ts_go := xs @ ys\<rparr>) = []"
    using v(1) go True by (auto simp: copies_def append_Cons_single split: option.splits)
  have answer: "RunFunc answer w" if "tf_type w = tf_type v" for w
    using v(4) that by (cases "tf_type v") (simp_all add: RunFunc_def)
  let ?w = "(if tf_times v = -1 then v else v\<lparr>tf_times := tf_times v - 1\<rparr>)\<lparr>tf_next := tf_next v + iv\<rparr>"
  have called: "called" and t: "t = (if tf_times v = 1 then ts_td s else put (ts_now s) ?w (ts_td s))"
    using run left v(3,4) answer by (auto simp: run_def Let_def split: if_splits)
  have calls: "calls u ?s = map (\<lambda>i. d + int i * iv) [0..<Suc ?c]"
    using called True grid v(2) by (simp add: calls_append)
  then have count: "length (calls u ?s) = Suc ?c" by simp
  have copies: "copies u ?s = (if tf_times v = 1 then [] else [?w])"
  proof -
    have "copies u ?s = copies u ((s\<lparr>ts_go := xs @ ys\<rparr>)\<lparr>ts_td := t\<rparr>)"
      by (simp add: copies_def)
    also have "\<dots> = (if tf_times v = 1 then [] else [?w])"
      using gone put_copies_own [of ?w u "s\<lparr>ts_go := xs @ ys\<rparr>" "ts_now s"] True t
      by (auto simp: copies_def)
    finally show ?thesis .
  qed
  show ?thesis
    using calls copies count left v True
    by (auto simp: on_schedule_def Let_def algebra_simps split: if_splits)
qed

lemma timer_ok_uniq:
  assumes ok: "timer_ok s" and le: "td_uniq (ts_td s) \<le> q"
  shows "timer_ok (s\<lparr>ts_td := (ts_td s)\<lparr>td_uniq := q\<rparr>\<rparr>)"
proof -
  have up: "w \<le> td_uniq (ts_td s) \<Longrightarrow> w \<le> q" for w using le by (rule order.trans [rotated])
  show ?thesis
    unfolding timer_ok_def using timer_okD [OF ok] up by auto
qed

lemma timer_invD:
  assumes "timer_inv u d iv n s"
  shows "timer_ok s" and "on_schedule u d iv n s" and "u \<le> td_uniq (ts_td s)"
  using assms by (simp_all add: timer_inv_def)

lemma tick_inv:
  assumes "tick early (ts_now s) ks (ts_td s) = (gs, t)" and "distinct ks"
    and inv: "timer_inv u d iv n s"
  shows "timer_inv u d iv n (s\<lparr>ts_td := t, ts_go := ts_go s @ gs\<rparr>)"
proof -
  note ok = timer_invD [OF inv]
  obtain v where "copies u s = [v] \<or> copies u s = []" using on_schedule_copies [OF ok(2)] by blast
  note step = tick_ok_copies [OF ok(1) assms(2,1) this]
  have "on_schedule u d iv n (s\<lparr>ts_td := t, ts_go := ts_go s @ gs\<rparr>)"
    by (rule on_schedule_same [of u _ s]) (use step ok(2) in \<open>simp_all add: calls_def\<close>)
  moreover have "td_uniq t = td_uniq (ts_td s)"
    using assms(1) by (auto simp: tick_def sweep_one_def checkSave_def Let_def split: if_splits)
  ultimately show ?thesis using step inv by (simp add: timer_inv_def)
qed

lemma arm_step_inv:
  assumes "td_uniq (ts_td s) < 2 ^ 64 - 1" and arm: "arm (ts_now s) data (ts_td s) = (uniq, t)"
    and inv: "timer_inv u d iv n s"
  shows "timer_inv u d iv n (s\<lparr>ts_td := t\<rparr>)"
proof -
  let ?q = "td_uniq (ts_td s) + 1"
  note ok = timer_invD [OF inv]
  have new: "w < ?q" if "w \<le> td_uniq (ts_td s)" for w
    using assms(1) that by (rule word64_succ_above)
  let ?s = "s\<lparr>ts_td := (ts_td s)\<lparr>td_uniq := ?q\<rparr>\<rparr>"
  have t: "s\<lparr>ts_td := t\<rparr> = ?s\<lparr>ts_td := put (ts_now s) (data\<lparr>tf_uniq := ?q\<rparr>) (ts_td ?s)\<rparr>"
    using arm by (auto simp: arm_def Let_def)
  have "timer_ok ?s"
    using timer_ok_uniq [OF ok(1)] new [OF order.refl] by (simp add: less_imp_le)
  then have "timer_ok (s\<lparr>ts_td := t\<rparr>)"
    unfolding t by (rule put_ok) simp
  moreover have "u \<noteq> ?q" using new [OF ok(3)] by simp
  then have "copies u (s\<lparr>ts_td := t\<rparr>) = copies u ?s"
    unfolding t by (intro put_copies_other) simp
  then have "copies u (s\<lparr>ts_td := t\<rparr>) = copies u s" by (simp add: copies_def)
  then have "on_schedule u d iv n (s\<lparr>ts_td := t\<rparr>)"
    by (rule on_schedule_same) (use ok(2) in \<open>simp_all add: calls_def\<close>)
  moreover have "td_uniq t = ?q" using arm by (auto simp: arm_def Let_def)
  ultimately show ?thesis using new [OF ok(3)] by (simp add: timer_inv_def)
qed

lemma timer_step_inv: "timer_step s s' \<Longrightarrow> timer_inv u d iv n s \<Longrightarrow> timer_inv u d iv n s'"
proof (induction rule: timer_step.induct)
  case (time_passes s now)
  have "timer_ok (s\<lparr>ts_now := now\<rparr>)"
    using time_passes GetTimeMill_mono [of "ts_now s" now]
    by (force simp: timer_inv_def timer_ok_def)
  moreover have "on_schedule u d iv n (s\<lparr>ts_now := now\<rparr>)"
    by (rule on_schedule_same [of u _ s]) (use time_passes in \<open>simp_all add: timer_inv_def copies_def calls_def\<close>)
  ultimately show ?case using time_passes by (simp add: timer_inv_def)
next
  case (ticks early s ks gs t)
  then show ?case by (intro tick_inv)
next
  case (saves s)
  note ok = timer_invD [OF saves]
  have "copies u (s\<lparr>ts_td := checkSave (ts_now s) (ts_td s)\<rparr>) = copies u s"
    using on_schedule_copies [OF ok(2)] checkSave_copies by blast
  then have "on_schedule u d iv n (s\<lparr>ts_td := checkSave (ts_now s) (ts_td s)\<rparr>)"
    by (rule on_schedule_same) (use ok(2) in \<open>simp_all add: calls_def\<close>)
  then show ?case
    using checkSave_ok [OF ok(1)] saves by (simp add: timer_inv_def checkSave_def Let_def)
next
  case (runs s xs v ys answer called t)
  note ok = timer_invD [OF runs.prems]
  have "td_uniq t = td_uniq (ts_td s)" using run_table [OF runs.hyps(2)] by auto
  then show ?case
    using run_ok [OF ok(1) runs.hyps] run_schedule [OF ok(2) runs.hyps] runs.prems
    by (simp add: timer_inv_def)
next
  case (adds s data uniq t)
  then show ?case by (intro arm_step_inv)
qed

interpretation schedule: step_invariant timer_step "timer_inv u d iv n" for u d iv n
  by unfold_locales (rule timer_step_inv)

text \<open>A timer that has just been added is on schedule.\<close>

lemma arm_inv:
  assumes ok: "timer_ok s" and room: "td_uniq (ts_td s) < 2 ^ 64 - 1"
    and data: "tf_type data < FuncBool" "0 < tf_times data \<or> tf_times data = -1"
    and arm: "arm (ts_now s) data (ts_td s) = (u, t)"
  shows "timer_inv u (tf_next data) (tf_interval data) (tf_times data) (s\<lparr>ts_td := t\<rparr>)"
proof -
  have new: "w < u" if "w \<le> td_uniq (ts_td s)" for w
    using word64_succ_above [OF room that] arm by (simp add: arm_def Let_def)
  let ?s = "s\<lparr>ts_td := (ts_td s)\<lparr>td_uniq := u\<rparr>\<rparr>" and ?w = "data\<lparr>tf_uniq := u\<rparr>"
  have t: "s\<lparr>ts_td := t\<rparr> = ?s\<lparr>ts_td := put (ts_now s) ?w (ts_td ?s)\<rparr>"
    using arm by (auto simp: arm_def Let_def)
  have ok': "timer_ok ?s"
    using timer_ok_uniq [OF ok] new [OF order.refl] by (simp add: less_imp_le)
  then have "timer_ok (s\<lparr>ts_td := t\<rparr>)"
    unfolding t by (rule put_ok) simp
  moreover have new': "w \<noteq> u" if "w \<le> td_uniq (ts_td s)" for w using new [OF that] by simp
  have none: "td_one (ts_td s) u = None" "td_two (ts_td s) u = None"
    using timer_okD(1,2) [OF ok, of u] new' by (metis option.exhaust)+
  moreover have fresh: "\<forall>v \<in> set (ts_go s). tf_uniq v \<noteq> u" "\<forall>(now, due, k) \<in> set (ts_log s). k \<noteq> u"
    using timer_okD(3,4) [OF ok] new' by blast+
  ultimately have "timer_ok (s\<lparr>ts_td := t\<rparr>)" "copies u ?s = []" by (simp_all add: copies_def filter_empty_conv)
  moreover from this(2) have "copies u (s\<lparr>ts_td := t\<rparr>) = [?w]" unfolding t by (intro put_copies_own) simp_all
  moreover have "calls u (s\<lparr>ts_td := t\<rparr>) = []"
    using fresh(2) by (force simp: calls_def filter_empty_conv)
  moreover have "td_uniq t = u" using arm by (auto simp: arm_def Let_def)
  ultimately show ?thesis
    using data by (auto simp: timer_inv_def on_schedule_def Let_def)
qed

section \<open>No timer is late\<close>

text \<open>
  The rounds of a ticker and the timers put between them, in the order in which they happen. A run is
  punctual when each round comes at most \<open>g\<close> milliseconds after the previous one and looks at all keys.
\<close>

datatype wheel_event = Round bool int "uint64 list" | Put int TimerFunc

fun wheel_do :: "wheel_event \<Rightarrow> TimerData \<Rightarrow> TimerData" where
  "wheel_do (Round early now ks) t = snd (tick early now ks t)"
| "wheel_do (Put now v) t = put now v t"

fun punctual :: "int \<Rightarrow> int \<Rightarrow> wheel_event list \<Rightarrow> TimerData \<Rightarrow> bool" where
  "punctual g prev [] t = True"
| "punctual g prev (Round early now ks # es) t =
     (prev \<le> GetTimeMill now \<and> GetTimeMill now \<le> prev + g \<and>
      dom (td_one t) \<union> dom (td_two t) \<subseteq> set ks \<and>
      punctual g (GetTimeMill now) es (wheel_do (Round early now ks) t))"
| "punctual g prev (Put now v # es) t =
     (prev \<le> GetTimeMill now \<and> punctual g prev es (wheel_do (Put now v) t))"

definition none_due :: "int \<Rightarrow> TimerData \<Rightarrow> bool" where
  "none_due now t \<longleftrightarrow>
     (\<forall>k v. td_one t k = Some v \<or> td_two t k = Some v \<longrightarrow> GetTimeMill now < tf_next v)"

text \<open>Nothing in the second table is due within \<open>part\<close> of the last \<open>checkSave\<close>, at time \<open>c\<close>.\<close>

definition far_away :: "int \<Rightarrow> TimerData \<Rightarrow> bool" where
  "far_away c t \<longleftrightarrow> (\<forall>k v. td_two t k = Some v \<longrightarrow> c + td_part t < tf_next v)"

definition wheel_inv :: "int \<Rightarrow> int \<Rightarrow> TimerData \<Rightarrow> bool" where
  "wheel_inv g prev t \<longleftrightarrow> 0 \<le> g \<and> 4 * g \<le> td_part t \<and> td_next t \<le> 3 \<and>
     (\<exists>c. c \<le> prev \<and> prev \<le> c + int (td_next t) * g \<and> far_away c t)"

lemma checkSave_far: "far_away (GetTimeMill now) (checkSave now t)"
  by (auto simp: far_away_def checkSave_def Let_def split: if_splits option.splits)

lemma checkSave_part [simp]: "td_part (checkSave now t) = td_part t" "td_next (checkSave now t) = td_next t"
  by (simp_all add: checkSave_def Let_def)

lemma sweep_fields [simp]: "td_part (snd (sweep_one now ks t)) = td_part t"
  "td_next (snd (sweep_one now ks t)) = td_next t" "td_two (snd (sweep_one now ks t)) = td_two t"
  by (simp_all add: sweep_one_def)

lemma sweep_none_due:
  assumes "dom (td_one t) \<subseteq> set ks" and "\<And>k v. td_two t k = Some v \<Longrightarrow> GetTimeMill now < tf_next v"
  shows "none_due now (snd (sweep_one now ks t))"
  unfolding none_due_def
proof (intro allI impI)
  fix k v
  assume "td_one (snd (sweep_one now ks t)) k = Some v \<or> td_two (snd (sweep_one now ks t)) k = Some v"
  then consider "td_one t k = Some v" "\<not> (k \<in> set ks \<and> is_due now t k)" | "td_two t k = Some v"
    by (auto simp: sweep_one_def split: if_splits)
  then show "GetTimeMill now < tf_next v"
  proof cases
    case 1
    then have "k \<in> set ks" using assms(1) by auto
    with 1 show ?thesis by (simp add: is_due_def)
  next
    case 2
    then show ?thesis by (rule assms(2))
  qed
qed

lemma checkSave_none_due:
  assumes "none_due now t" shows "none_due now (checkSave now t)"
  unfolding none_due_def
proof (intro allI impI)
  fix k v
  assume "td_one (checkSave now t) k = Some v \<or> td_two (checkSave now t) k = Some v"
  then have "td_one t k = Some v \<or> td_two t k = Some v"
    by (auto simp: checkSave_def Let_def split: if_splits)
  with assms show "GetTimeMill now < tf_next v" unfolding none_due_def by blast
qed

lemma wheel_far:
  assumes "wheel_inv g prev t" and "prev \<le> GetTimeMill now" and "GetTimeMill now \<le> prev + g" and "td_two t k = Some v"
  shows "GetTimeMill now < tf_next v"
proof -
  obtain c where c: "prev \<le> c + int (td_next t) * g" "far_away c t"
    and g: "0 \<le> g" "4 * g \<le> td_part t" "td_next t \<le> 3"
    using assms(1) by (auto simp: wheel_inv_def)
  have "int (td_next t) * g \<le> 3 * g" using g(1,3) by (intro mult_right_mono) simp_all
  then have "GetTimeMill now \<le> c + td_part t" using c(1) assms(3) g(2) by linarith
  with c(2) assms(4) show ?thesis by (fastforce simp: far_away_def)
qed

text \<open>A round that only sweeps the near table, and one that also moves timers into it.\<close>

lemma sweep_round:
  assumes inv: "wheel_inv g prev t" and time: "prev \<le> GetTimeMill now" "GetTimeMill now \<le> prev + g"
    and keys: "dom (td_one t) \<union> dom (td_two t) \<subseteq> set ks" and "td_next t \<noteq> 3"
  shows "none_due now (snd (tick early now ks t)) \<and> wheel_inv g (GetTimeMill now) (snd (tick early now ks t))"
proof -
  let ?t = "t\<lparr>td_next := td_next t + 1\<rparr>"
  obtain c where c: "c \<le> prev" "prev \<le> c + int (td_next t) * g" "far_away c t"
    and g: "0 \<le> g" "4 * g \<le> td_part t" "td_next t \<le> 3"
    using inv by (auto simp: wheel_inv_def)
  have tick: "snd (tick early now ks t) = snd (sweep_one now ks ?t)"
    using assms(5) g(3) by (simp add: tick_def Let_def)
  have "none_due now (snd (sweep_one now ks ?t))"
    using keys wheel_far [OF inv time] by (intro sweep_none_due) auto
  moreover have "far_away c (snd (sweep_one now ks ?t))" using c(3) by (simp add: far_away_def)
  then have "wheel_inv g (GetTimeMill now) (snd (sweep_one now ks ?t))"
    using c g assms(5) time by (auto simp: wheel_inv_def algebra_simps intro!: exI [of _ c])
  ultimately show ?thesis unfolding tick ..
qed

lemma saving_round:
  assumes inv: "wheel_inv g prev t" and time: "prev \<le> GetTimeMill now" "GetTimeMill now \<le> prev + g"
    and keys: "dom (td_one t) \<union> dom (td_two t) \<subseteq> set ks" and "td_next t = 3"
  shows "none_due now (snd (tick early now ks t)) \<and> wheel_inv g (GetTimeMill now) (snd (tick early now ks t))"
proof -
  let ?M = "GetTimeMill now" and ?t = "t\<lparr>td_next := 0\<rparr>"
  note far = wheel_far [OF inv time]
  have inv': "wheel_inv g ?M t'" if "far_away ?M t'" "td_part t' = td_part t" "td_next t' = 0" for t'
    using that inv by (auto simp: wheel_inv_def)
  show ?thesis
  proof (cases early)
    case e: True
    have tick: "snd (tick early now ks t) = snd (sweep_one now ks (checkSave now ?t))"
      using assms(5) e by (simp add: tick_def Let_def)
    have "far_away ?M (checkSave now ?t)" by (rule checkSave_far)
    moreover have "dom (td_one (checkSave now ?t)) \<subseteq> set ks"
      using keys by (fastforce simp: checkSave_def Let_def split: if_splits)
    moreover have "td_two (checkSave now ?t) k = Some v \<Longrightarrow> ?M < tf_next v" for k v
      using far by (auto simp: checkSave_def Let_def split: if_splits)
    ultimately show ?thesis
      unfolding tick by (intro conjI sweep_none_due inv') (auto simp: far_away_def)
  next
    case e: False
    have tick: "snd (tick early now ks t) = checkSave now (snd (sweep_one now ks ?t))"
      using assms(5) e by (simp add: tick_def Let_def case_prod_unfold)
    have "none_due now (snd (sweep_one now ks ?t))"
      using keys far by (intro sweep_none_due) auto
    then show ?thesis
      unfolding tick by (intro conjI checkSave_none_due inv' checkSave_far) simp_all
  qed
qed

lemma round_none_due:
  assumes "wheel_inv g prev t" and "prev \<le> GetTimeMill now" and "GetTimeMill now \<le> prev + g"
    and "dom (td_one t) \<union> dom (td_two t) \<subseteq> set ks"
  shows "none_due now (snd (tick early now ks t)) \<and>
    wheel_inv g (GetTimeMill now) (snd (tick early now ks t))"
  using sweep_round [OF assms] saving_round [OF assms] by blast

lemma put_wheel_inv: "wheel_inv g prev t \<Longrightarrow> prev \<le> GetTimeMill now \<Longrightarrow> wheel_inv g prev (put now v t)"
  by (fastforce simp: wheel_inv_def far_away_def put_def)

lemma wheel_none_due:
  "wheel_inv g prev t \<Longrightarrow> punctual g prev (es @ [Round early now ks]) t \<Longrightarrow>
     none_due now (fold wheel_do (es @ [Round early now ks]) t)"
proof (induction es arbitrary: prev t)
  case Nil
  then show ?case using round_none_due [of g prev t now ks early] by simp
next
  case (Cons e es)
  show ?case
  proof (cases e)
    case (Round early' now' ks')
    with Cons.prems have "wheel_inv g (GetTimeMill now') (wheel_do e t)"
      and "punctual g (GetTimeMill now') (es @ [Round early now ks]) (wheel_do e t)"
      using round_none_due [of g prev t now' ks' early'] by auto
    from Cons.IH [OF this] show ?thesis by simp
  next
    case (Put now' v)
    with Cons show ?thesis using put_wheel_inv [of g prev t now' v] by simp
  qed
qed

section \<open>The next time of a stamp\<close>

lemma int64_id: "- (2 ^ 63) \<le> x \<Longrightarrow> x < 2 ^ 63 \<Longrightarrow> int64 x = x"
  by (simp add: int64_def signed_take_bit_int_eq_self)

lemma catch_up_fixed:
  assumes "0 < iv" and "GetTimeMill now + iv < 2 ^ 63" and "- (2 ^ 63) \<le> next0"
  shows "catch_up (\<lambda>_. now) iv k next0 = Some (if next0 \<le> GetTimeMill now
    then next0 + ((GetTimeMill now - next0) div iv + 1) * iv else next0)"
  using assms(3)
proof (induction "nat (GetTimeMill now + 1 - next0)" arbitrary: k next0 rule: less_induct)
  case less
  let ?M = "GetTimeMill now"
  show ?case
  proof (cases "next0 \<le> ?M")
    case True
    then have step: "int64 (next0 + iv) = next0 + iv"
      using assms(1,2) less.prems by (intro int64_id) linarith+
    have IH: "catch_up (\<lambda>_. now) iv (Suc k) (next0 + iv) = Some (if next0 + iv \<le> ?M
        then next0 + iv + ((?M - (next0 + iv)) div iv + 1) * iv else next0 + iv)"
      by (rule less.hyps) (use True assms(1) less.prems in linarith)+
    have "catch_up (\<lambda>_. now) iv k next0 = catch_up (\<lambda>_. now) iv (Suc k) (next0 + iv)"
      using True step by (subst catch_up.simps) simp
    moreover have "(?M - next0) div iv = (?M - (next0 + iv)) div iv + 1"
    proof -
      have "?M - next0 = (?M - (next0 + iv)) + iv" by simp
      moreover have "((?M - (next0 + iv)) + iv) div iv = (?M - (next0 + iv)) div iv + 1"
        by (rule div_add_self2) (use assms(1) in simp)
      ultimately show ?thesis by (simp only:)
    qed
    moreover have "(?M - next0) div iv = 0" if "\<not> next0 + iv \<le> ?M"
      using that True by (intro div_pos_pos_trivial) linarith+
    ultimately show ?thesis
    proof (cases "next0 + iv \<le> ?M")
      case again: True
      define D where "D = (?M - (next0 + iv)) div iv"
      have "(?M - next0) div iv = D + 1" using \<open>(?M - next0) div iv = _\<close> by (simp only: D_def)
      moreover have "catch_up (\<lambda>_. now) iv k next0 = Some (next0 + iv + (D + 1) * iv)"
        using \<open>catch_up (\<lambda>_. now) iv k next0 = _\<close> IH again by (simp only: D_def if_True)
      ultimately show ?thesis using True by (simp add: algebra_simps)
    next
      case False
      then show ?thesis using \<open>catch_up (\<lambda>_. now) iv k next0 = _\<close> IH True
          \<open>\<not> next0 + iv \<le> ?M \<Longrightarrow> (?M - next0) div iv = 0\<close> by (simp only: if_True if_False simp_thms add_0 mult_1_left)
    qed
  next
    case False
    then show ?thesis by (subst catch_up.simps) simp
  qed
qed

text \<open>The first multiple of the unit after now, whatever second of the unit the stamp names.\<close>

lemma clock_next:
  fixes q U M zone wall :: int
  assumes q: "0 < q" "q \<le> U" and s: "0 \<le> s" "s < q" and wall: "wall = U + zone" and M: "M div 1000 = U"
  defines "x \<equiv> (wall - wall mod q + s - zone) sdiv q * (q * 1000)"
  shows "(if x \<le> M then x + ((M - x) div (q * 1000) + 1) * (q * 1000) else x) =
    (M div (q * 1000) + 1) * (q * 1000)"
proof -
  let ?y = "wall - wall mod q + s - zone" and ?b = "(M div (q * 1000) + 1) * (q * 1000)"
  have "0 \<le> wall mod q" "wall mod q < q" using q by simp_all
  then have y: "0 \<le> ?y" "?y < U + q" using s wall q by linarith+
  then have sd: "?y sdiv q = ?y div q"
    using q by (simp add: signed_divide_int_def sgn_if)
  then have x: "x = (?y div q) * (q * 1000)" by (simp add: x_def)
  have Uq: "M div (q * 1000) = U div q"
    using M zdiv_zmult2_eq [of q M 1000] q by (simp add: mult.commute)
  have "?y div q \<le> (U + q) div q" using y q by (intro zdiv_mono1) linarith+
  also have "\<dots> = U div q + 1" by (rule div_add_self2) (use q in simp)
  finally have top: "?y div q \<le> M div (q * 1000) + 1" by (simp add: Uq)
  show ?thesis
  proof (cases "x \<le> M")
    case True
    have "M - x = M + (- (?y div q)) * (q * 1000)" by (simp only: x)
    then have "(M - x) div (q * 1000) = - (?y div q) + M div (q * 1000)"
      by (simp only:) (rule div_mult_self1, use q in simp)
    moreover have "a * b + (- a + m + 1) * b = (m + 1) * b" for a b m :: int
      by (simp add: algebra_simps)
    ultimately have "x + ((M - x) div (q * 1000) + 1) * (q * 1000) = ?b"
      by (simp only: x)
    then show ?thesis using True by (simp only: if_True)
  next
    case False
    have "M div (q * 1000) + 1 \<le> ?y div q"
    proof (rule ccontr)
      assume "\<not> M div (q * 1000) + 1 \<le> ?y div q"
      then have "(?y div q) * (q * 1000) \<le> M div (q * 1000) * (q * 1000)"
        using q by (intro mult_right_mono) simp_all
      also have "\<dots> \<le> M" using q by (simp add: pos_mod_sign minus_mod_eq_div_mult [symmetric])
      finally show False using False x by simp
    qed
    with top False show ?thesis by (simp add: x)
  qed
qed

lemma parse_digits_last: "parse_digits s = Some n \<Longrightarrow> is_digit (last s)"
  by (auto simp: parse_digits_def list_all_iff split: if_splits)

lemma parse_second_some: "parse_second s = Some n \<Longrightarrow> length s = 2 \<and> n < 60 \<and> is_digit (last s)"
  by (auto simp: parse_second_def two_digits_def parse_digits_last split: option.splits if_splits)

lemma parse_minute_some:
  assumes "parse_minute s = Some n" and "length s = 5"
  shows "n < 3600 \<and> is_digit (last s)"
proof -
  from assms(1) obtain m sec where m: "two_digits 60 (take 2 s) = Some m" and
    sec: "parse_second (drop 3 s) = Some sec" and n: "n = m * 60 + sec"
    by (auto simp: parse_minute_def split: option.splits bool.splits)
  have "m < 60" using m by (auto simp: two_digits_def split: option.splits if_splits)
  with parse_second_some [OF sec] n assms(2) show ?thesis by (simp add: last_drop)
qed

lemma parse_hour_some:
  assumes "parse_hour s = Some n" and "length s = 8"
  shows "n < 86400 \<and> is_digit (last s)"
proof -
  from assms(1) obtain h sec where h: "two_digits 24 (take 2 s) = Some h" and
    sec: "parse_minute (drop 3 s) = Some sec" and n: "n = h * 3600 + sec"
    by (auto simp: parse_hour_def split: option.splits bool.splits)
  have "h < 24" using h by (auto simp: two_digits_def split: option.splits if_splits)
  with parse_minute_some [OF sec] n assms(2) show ?thesis by (simp add: last_drop)
qed

text \<open>The unit, in milliseconds, of a well-formed stamp of the kinds \<open>SS\<close>, \<open>MM:SS\<close> and \<open>HH:MM:SS\<close>.\<close>

definition clock_unit :: "string \<Rightarrow> int option" where
  "clock_unit stamp =
     (if length stamp = 2 \<and> parse_second stamp \<noteq> None then Some MinuteTimeUnit
      else if length stamp = 5 \<and> parse_minute stamp \<noteq> None then Some HourTimeUnit
      else if length stamp = 8 \<and> parse_hour stamp \<noteq> None then Some DayTimeUnit
      else None)"

lemma digit_not_unit: "is_digit c \<Longrightarrow> c \<notin> {CHR ''s'', CHR ''S'', CHR ''m'', CHR ''M'', CHR ''h'', CHR ''H'',
    CHR ''d'', CHR ''D''}"
  by (auto simp: is_digit_def Let_def)

text \<open>What a well-formed stamp is read as.\<close>

lemma read_clock_stamp:
  assumes "clock_unit stamp = Some unit"
  obtains q s where "unit = q * 1000" and "0 < q" and "q \<le> 86400" and "0 \<le> s" and "s < q"
    and "\<And>now wall zone. read_stamp perr now wall zone stamp =
           ((wall - wall mod q + s - zone) sdiv q * (q * 1000), q * 1000, None)"
proof -
  have kind: "read_stamp perr now wall zone stamp = clock_stamp perr now wall zone stamp"
    if "is_digit (last stamp)" for now wall zone
    using that digit_not_unit [OF that] by (simp add: read_stamp_def Let_def)
  from assms consider s where "length stamp = 2" "parse_second stamp = Some s" "unit = MinuteTimeUnit"
    | s where "length stamp = 5" "parse_minute stamp = Some s" "unit = HourTimeUnit"
    | s where "length stamp = 8" "parse_hour stamp = Some s" "unit = DayTimeUnit"
    by (auto simp: clock_unit_def split: if_splits)
  then show thesis
  proof cases
    case (1 s)
    with parse_second_some [OF 1(2)] kind that [of 60 "int s"] show thesis
      by (simp add: clock_stamp_def time_units)
  next
    case (2 s)
    with parse_minute_some [OF 2(2,1)] kind that [of 3600 "int s"] show thesis
      by (simp add: clock_stamp_def time_units)
  next
    case (3 s)
    with parse_hour_some [OF 3(2,1)] kind that [of 86400 "int s"] show thesis
      by (simp add: clock_stamp_def time_units)
  qed
qed

lemma TimeSplit_parts:
  assumes "mset (sorter ByNext_Less rows) = mset rows"
    and "sorted (map tf_next (sorter ByNext_Less rows))"
    and "TimeSplit sorter rows stamp = (before, after)"
  shows "mset before + mset after = mset rows \<and> (\<forall>r \<in> set before. tf_next r \<le> stamp) \<and>
    (\<forall>r \<in> set after. stamp < tf_next r)"
proof -
  have split: "before @ after = rs \<and> (\<forall>r \<in> set before. tf_next r \<le> stamp) \<and>
      (sorted (map tf_next rs) \<longrightarrow> (\<forall>r \<in> set after. stamp < tf_next r))"
    if "split_at_later stamp rs = (before, after)" for rs before after
    using that
    by (induction rs arbitrary: before)
      (auto split: if_splits prod.splits intro: order.strict_trans2)
  show ?thesis
  proof (cases "rows = []")
    case False
    with assms(3) have "split_at_later stamp (sorter ByNext_Less rows) = (before, after)"
      by (simp add: TimeSplit_def)
    from split [OF this] assms(1,2) show ?thesis by (metis mset_append)
  qed (use assms(3) in \<open>simp add: TimeSplit_def\<close>)
qed

section \<open>Starting a timer and deleting its entry\<close>

text \<open>
  The sweep starts the goroutine that runs a due timer and then deletes the key. The two happen in
  either order: \<open>late_delete\<close> says that the goroutine runs first.
\<close>

definition delete_one :: "uint64 \<Rightarrow> TimerData \<Rightarrow> TimerData" where
  "delete_one k t = t\<lparr>td_one := (td_one t)(k := None)\<rparr>"

definition spawn_delete :: "bool \<Rightarrow> int \<Rightarrow> bool \<Rightarrow> uint64 \<Rightarrow> TimerFunc \<Rightarrow> TimerData \<Rightarrow> bool \<times> TimerData" where
  "spawn_delete late_delete now answer k v t =
     (if late_delete then (let (called, t) = run now answer v t in (called, delete_one k t))
      else run now answer v (delete_one k t))"

section \<open>Properties\<close>


definition idle_wheel :: timer_sys where
  "idle_wheel = \<lparr>ts_td = newTimer 200000000 0, ts_go = [], ts_now = 0, ts_log = []\<rparr>"

lemma idle_wheel_ok: "timer_ok idle_wheel"
  by (simp add: timer_ok_def idle_wheel_def newTimer_def)




text \<open>The units that a stamp may end with, in milliseconds.\<close>

definition unit_mark :: "char \<Rightarrow> int option" where
  "unit_mark c =
     (if c = CHR ''s'' \<or> c = CHR ''S'' then Some 1000
      else if c = CHR ''m'' \<or> c = CHR ''M'' then Some (60 * 1000)
      else if c = CHR ''h'' \<or> c = CHR ''H'' then Some (60 * 60 * 1000)
      else if c = CHR ''d'' \<or> c = CHR ''D'' then Some (24 * 60 * 60 * 1000)
      else None)"

lemma unit_mark_stamp:
  assumes "unit_mark c = Some u" and "int k * u < 2 ^ 62"
  shows "read_stamp perr now wall zone (show_nat k @ [c]) = (now, int k * u, None)"
proof -
  have "1 \<le> u" using assms(1) by (auto simp: unit_mark_def split: if_splits)
  then have "int k * 1 \<le> int k * u" by (intro mult_left_mono) simp_all
  then have "int k < 2 ^ 63" using assms(2) by simp
  then have "Atoi perr (show_nat k) = Inr (int k)" by (intro Atoi_show) simp
  moreover have "int64 (int k * u) = int k * u"
    using assms(2) \<open>1 \<le> u\<close> by (intro int64_id) (simp_all add: order.trans [of _ 0])
  ultimately have "unit_stamp perr (show_nat k @ [c]) u = (int k * u, None)"
    by (simp add: unit_stamp_def)
  with assms(1) show ?thesis
    by (auto simp: read_stamp_def unit_mark_def time_units Let_def split: if_splits)
qed

text \<open>A stamp of a number and a unit, such as \<open>3m\<close>, arms a timer for that much later and every so often
  after, for the number of runs given less the one that is made at once, if one is; a single run that is made at
  once arms nothing. The clock may advance while the stamp is read, by less than the duration.\<close>

lemma duration_stamp_arms:
  assumes "unit_mark c = Some u" and "0 < k" and "int k * u < 2 ^ 62" and "n \<noteq> 0"
    and "0 \<le> GetTimeMill (clock 0)" and "GetTimeMill (clock 0) < 2 ^ 62"
    and "GetTimeMill (clock 0) \<le> GetTimeMill (clock 1)" and "GetTimeMill (clock 2) < GetTimeMill (clock 0) + int k * u"
  shows "AddTimerRun perr clock wall now (show_nat k @ [c]) n runs msg (Some f) t =
    Some (if runs \<and> n = 1 then (True, None, 0, t)
      else
        let q = td_uniq t + 1;
            d = \<lparr>tf_next = GetTimeMill (clock 0) + int k * u, tf_uniq = q, tf_interval = int k * u,
                 tf_times = (if n < 0 then -1 else if runs then n - 1 else n),
                 tf_type = FuncArg, tf_func = f, tf_msg = msg\<rparr>
        in (runs, None, q, put now d (t\<lparr>td_uniq := q\<rparr>)))"
proof -
  let ?M = "GetTimeMill (clock 0)" and ?i = "int k * u"
  have u: "1 \<le> u" using assms(1) by (auto simp: unit_mark_def split: if_splits)
  then have i: "0 < ?i" using assms(2) by simp
  have sum: "int64 (?M + ?i) = ?M + ?i" using assms(3,5,6) i by (intro int64_id) simp_all
  have "catch_up clock ?i 1 ?M = Some (?M + ?i)"
    using assms(7,8) sum by (subst catch_up.simps, subst catch_up.simps) (simp add: numeral_2_eq_2)
  then have "checkTime perr clock wall (show_nat k @ [c]) t = Some (?M + ?i, ?i, None)"
    using i by (simp add: checkTime_def unit_mark_stamp [OF assms(1,3)])
  then show ?thesis
    using assms(4) by (auto simp: AddTimerRun_def arm_def Let_def)
qed

lemma duration_stamp_arms_witness:
  "AddTimerRun (\<lambda>_. ''bad'') (\<lambda>k. 5000000000 + int k) 0 5000000000 (show_nat 3 @ ''m'') 2 True 9 (Some 7) (newTimer 200000000 0) =
   Some (True, None, 1, put 5000000000 \<lparr>tf_next = 185000, tf_uniq = 1, tf_interval = 180000, tf_times = 1,
     tf_type = FuncArg, tf_func = 7, tf_msg = 9\<rparr> ((newTimer 200000000 0)\<lparr>td_uniq := 1\<rparr>))"
  using duration_stamp_arms [of "CHR ''m''" 60000 3 2 "\<lambda>k. 5000000000 + int k" "\<lambda>_. ''bad''" 0 5000000000 True 9 7
    "newTimer 200000000 0"]
  by (simp add: unit_mark_def GetTimeMill_def newTimer_def)
text \<open>The zone of a timer.\<close>

definition sign_of :: "char \<Rightarrow> int" where
  "sign_of c = (if c = CHR ''+'' then 1 else -1)"

lemma zone_sign: "(of_char c :: nat) = 43 \<longleftrightarrow> c = CHR ''+''" "(of_char c :: nat) = 45 \<longleftrightarrow> c = CHR ''-''"
proof -
  have "of_char (CHR ''+'') = (43 :: nat)" "of_char (CHR ''-'') = (45 :: nat)" by simp_all
  then show "(of_char c :: nat) = 43 \<longleftrightarrow> c = CHR ''+''" "(of_char c :: nat) = 45 \<longleftrightarrow> c = CHR ''-''"
    by (metis of_char_eq_iff)+
qed

lemma zero_zone: "parse_digits ''00'' = Some 0"
  by (simp add: parse_digits_def is_digit_def digit_value_def)

text \<open>The special case of the code is the general one.\<close>

lemma SetTimeZone_fields:
  assumes "c \<in> {CHR ''+'', CHR ''-''}" and "split_on (CHR '':'') rest = [hs, ms]"
    and "parse_digits hs = Some h" and "parse_digits ms = Some m" and "h \<le> 23" and "m \<le> 59"
  shows "SetTimeZone perr (c # rest) t = (None, t\<lparr>td_zone := sign_of c * int (h * 3600 + m * 60)\<rparr>)"
proof (cases "c # rest = ''+00:00''")
  case True
  then have "hs = ''00''" "ms = ''00''" using assms(2) by auto
  with True assms(3,4) zero_zone show ?thesis by (simp add: SetTimeZone_def sign_of_def)
next
  case False
  have "ParseUint perr hs = Inr h" "ParseUint perr ms = Inr m"
    using assms(3-6) by (simp_all add: ParseUint_Inr)
  with False assms show ?thesis by (auto simp: SetTimeZone_def sign_of_def zone_sign)
qed

text \<open>\<open>SetTimeZone\<close> accepts exactly a sign, hours up to 23, a colon and minutes up to 59, each in any number of digits,
  and then sets the offset in seconds that they name.\<close>

lemma zone_exact:
  "SetTimeZone perr v t = (None, t') \<longleftrightarrow>
     (\<exists>c hs ms h m. v = c # hs @ CHR '':'' # ms \<and> c \<in> {CHR ''+'', CHR ''-''} \<and>
        parse_digits hs = Some h \<and> parse_digits ms = Some m \<and> h \<le> 23 \<and> m \<le> 59 \<and>
        t' = t\<lparr>td_zone := sign_of c * int (h * 3600 + m * 60)\<rparr>)" (is "_ \<longleftrightarrow> ?accepted")
proof
  assume set: "SetTimeZone perr v t = (None, t')"
  then obtain c rest where v: "v = c # rest" and c: "c \<in> {CHR ''+'', CHR ''-''}"
    by (cases v) (auto simp: SetTimeZone_def zone_sign split: if_splits)
  have "\<exists>hs ms h m. split_on (CHR '':'') rest = [hs, ms] \<and> parse_digits hs = Some h \<and>
      parse_digits ms = Some m \<and> h \<le> 23 \<and> m \<le> 59"
  proof (cases "v = ''+00:00''")
    case True
    then have "split_on (CHR '':'') rest = [''00'', ''00'']" using v by simp
    with zero_zone show ?thesis by blast
  next
    case False
    from set v c False have "length (split_on (CHR '':'') rest) = 2"
      by (auto simp: SetTimeZone_def Let_def split: if_splits)
    then obtain hs ms where ts: "split_on (CHR '':'') rest = [hs, ms]"
      by (auto simp: numeral_2_eq_2 length_Suc_conv)
    from set v c False ts obtain h m where "ParseUint perr hs = Inr h" "ParseUint perr ms = Inr m" "h \<le> 23" "m \<le> 59"
      by (auto simp: SetTimeZone_def Let_def split: if_splits sum.splits)
    with ts show ?thesis by (auto simp: ParseUint_Inr)
  qed
  then obtain hs ms h m where ts: "split_on (CHR '':'') rest = [hs, ms]"
    and hm: "parse_digits hs = Some h" "parse_digits ms = Some m" "h \<le> 23" "m \<le> 59" by blast
  have "t' = t\<lparr>td_zone := sign_of c * int (h * 3600 + m * 60)\<rparr>"
    using SetTimeZone_fields [OF c ts hm, of perr t] set v by simp
  with ts hm v c show ?accepted by (auto simp: two_fields)
next
  assume ?accepted
  then obtain c hs ms h m where v: "v = c # hs @ CHR '':'' # ms" and c: "c \<in> {CHR ''+'', CHR ''-''}"
    and hm: "parse_digits hs = Some h" "parse_digits ms = Some m" "h \<le> 23" "m \<le> 59"
    and t': "t' = t\<lparr>td_zone := sign_of c * int (h * 3600 + m * 60)\<rparr>" by blast
  have "split_on (CHR '':'') (hs @ CHR '':'' # ms) = [hs, ms]"
    using hm(1,2)[THEN digits_no_colon] by (simp add: two_fields)
  from SetTimeZone_fields [OF c this hm] show "SetTimeZone perr v t = (None, t')"
    by (simp add: v t')
qed
text \<open>A well-formed clock stamp means nothing but its unit: if the zone of the timer is the local zone, the
  first run of \<open>SS\<close>, \<open>MM:SS\<close> or \<open>HH:MM:SS\<close> is the next full minute, hour or day of UTC, whatever
  second, minute or hour the stamp names.\<close>

lemma clock_stamp_ignores_its_time:
  assumes "clock_unit stamp = Some unit"
    and "wall = now div 1000000000 + td_zone t" and "86400000000000 \<le> now" and "now < 2 ^ 62"
  shows "checkTime perr (\<lambda>_. now) wall stamp t =
    Some ((GetTimeMill now div unit + 1) * unit, unit, None)"
proof -
  obtain q s where q: "unit = q * 1000" "0 < q" "q \<le> 86400" "0 \<le> s" "s < q"
    and read: "\<And>now wall zone. read_stamp perr now wall zone stamp =
        ((wall - wall mod q + s - zone) sdiv q * (q * 1000), q * 1000, None)"
    using read_clock_stamp [OF assms(1), of perr] by metis
  let ?M = "GetTimeMill now" and ?x = "(wall - wall mod q + s - td_zone t) sdiv q * (q * 1000)"
  have M: "?M = now div 1000000"
    using assms(3) by (simp add: GetTimeMill_def signed_divide_int_def sgn_if)
  then have sec: "?M div 1000 = now div 1000000000"
    using zdiv_zmult2_eq [of 1000 now 1000000] by simp
  have day: "86400 \<le> now div 1000000000"
    using zdiv_mono1 [OF assms(3), of 1000000000] by simp
  have small: "?M + q * 1000 < 2 ^ 63"
  proof -
    have "?M \<le> now" using zdiv_mono2 [of now 1 1000000] assms(3) M by simp
    with assms(4) q(3) show ?thesis by simp
  qed
  have "0 \<le> wall - wall mod q + s - td_zone t"
  proof -
    have "wall mod q < q" using q by simp
    with q assms(2) day show ?thesis by linarith
  qed
  then have "0 \<le> ?x" using q by (simp add: signed_divide_int_def sgn_if pos_imp_zdiv_nonneg_iff)
  then have "catch_up (\<lambda>_. now) (q * 1000) 1 ?x = Some (if ?x \<le> ?M
      then ?x + ((?M - ?x) div (q * 1000) + 1) * (q * 1000) else ?x)"
    by (intro catch_up_fixed small) (use q in simp_all)
  also have "\<dots> = Some ((?M div (q * 1000) + 1) * (q * 1000))"
    using clock_next [OF q(2) _ q(4,5) assms(2) sec] q(3) day by simp
  finally show ?thesis using q(1,2) by (simp add: checkTime_def read)
qed

lemma clock_stamp_ignores_its_time_witness:
  "checkTime (\<lambda>x. x) (\<lambda>_. 259205000000000) 259205 ''30'' (newTimer 200000000 0) =
     Some (259260000, 60000, None) \<and>
   checkTime (\<lambda>x. x) (\<lambda>_. 259205000000000) 259205 ''07'' (newTimer 200000000 0) =
     Some (259260000, 60000, None)"
proof -
  have unit: "clock_unit ''30'' = Some 60000" "clock_unit ''07'' = Some 60000"
    by (simp_all add: clock_unit_def parse_second_def two_digits_def parse_digits_def is_digit_def
        digit_value_def time_units)
  show ?thesis
    using clock_stamp_ignores_its_time [OF unit(1), of 259205 259205000000000 "newTimer 200000000 0" "\<lambda>x. x"]
      clock_stamp_ignores_its_time [OF unit(2), of 259205 259205000000000 "newTimer 200000000 0" "\<lambda>x. x"]
    by (simp add: newTimer_def GetTimeMill_def signed_divide_int_def)
qed

text \<open>C34: The sweep starts a periodic timer before it deletes the timer's key. If the goroutine is quick, the
  timer is lost exactly when its next run falls within the look-ahead; in the other order it never is.\<close>

theorem late_delete_loses_timer:
  assumes "td_two t k = None" and "tf_uniq v = k" and "tf_type v < FuncBool" and "tf_times v = -1"
  shows "(case spawn_delete True now answer k v t of (called, t') \<Rightarrow> called \<and>
      ((td_one t' k = None \<and> td_two t' k = None) \<longleftrightarrow>
        tf_next v + tf_interval v \<le> GetTimeMill now + td_part t)) \<and>
    (case spawn_delete False now answer k v t of (called, t') \<Rightarrow> called \<and>
      \<not> (td_one t' k = None \<and> td_two t' k = None))"
proof -
  have "RunFunc answer v" using assms(3) by (cases "tf_type v") (simp_all add: RunFunc_def)
  with assms show ?thesis
    by (simp add: spawn_delete_def run_def delete_one_def put_def)
qed

definition quick_timer :: TimerFunc where
  "quick_timer = \<lparr>tf_next = 0, tf_uniq = 1, tf_interval = 500, tf_times = -1, tf_type = FuncOnly,
     tf_func = 0, tf_msg = 0\<rparr>"

theorem late_delete_loses_timer_witness:
  "case spawn_delete True 0 True 1 quick_timer (newTimer 200000000 0) of (called, t') \<Rightarrow>
     called \<and> td_one t' 1 = None \<and> td_two t' 1 = None"
  using late_delete_loses_timer [of "newTimer 200000000 0" 1 quick_timer 0 True]
  by (simp add: newTimer_def quick_timer_def GetTimeMill_def signed_divide_int_def split: prod.splits)

section \<open>Closing the ticker\<close>

text \<open>
  \<open>CloseAndExit\<close> sends to the channel \<open>done\<close>, which holds one value, and blocks while it is full; the ticker receives
  it and returns. The tables stay, and goroutines that were started go on.
\<close>

record closing =
  cl_sys :: timer_sys
  cl_done :: bool
  cl_off :: bool

definition CloseAndExit :: "closing \<Rightarrow> closing option" where
  "CloseAndExit s = (if cl_done s then None else Some (s\<lparr>cl_done := True\<rparr>))"

text \<open>The steps of a timer without those of its ticker.\<close>

inductive idle_step :: "timer_sys \<Rightarrow> timer_sys \<Rightarrow> bool" where
  time_passes: "ts_now s \<le> now \<Longrightarrow> idle_step s (s\<lparr>ts_now := now\<rparr>)"
| saves: "idle_step s (s\<lparr>ts_td := checkSave (ts_now s) (ts_td s)\<rparr>)"
| runs: "ts_go s = xs @ v # ys \<Longrightarrow> run (ts_now s) answer v (ts_td s) = (called, t) \<Longrightarrow>
     idle_step s (s\<lparr>ts_td := t, ts_go := xs @ ys,
       ts_log := ts_log s @ (if called then [(GetTimeMill (ts_now s), tf_next v, tf_uniq v)] else [])\<rparr>)"
| adds: "td_uniq (ts_td s) < 2 ^ 64 - 1 \<Longrightarrow> arm (ts_now s) data (ts_td s) = (uniq, t) \<Longrightarrow>
     idle_step s (s\<lparr>ts_td := t\<rparr>)"

inductive close_step :: "closing \<Rightarrow> closing \<Rightarrow> bool" where
  works: "\<not> cl_off s \<Longrightarrow> timer_step (cl_sys s) t \<Longrightarrow> close_step s (s\<lparr>cl_sys := t\<rparr>)"
| lingers: "cl_off s \<Longrightarrow> idle_step (cl_sys s) t \<Longrightarrow> close_step s (s\<lparr>cl_sys := t\<rparr>)"
| closes: "CloseAndExit s = Some s' \<Longrightarrow> close_step s s'"
| ends: "cl_done s \<Longrightarrow> \<not> cl_off s \<Longrightarrow> close_step s (s\<lparr>cl_done := False, cl_off := True\<rparr>)"

lemma idle_timer_step: "idle_step s s' \<Longrightarrow> timer_step s s'"
  by (induction rule: idle_step.induct) (blast intro: timer_step.intros)+

lemma idle_counts: "idle_step s s' \<Longrightarrow> length (ts_log s') + length (ts_go s') \<le> length (ts_log s) + length (ts_go s)"
  by (induction rule: idle_step.induct) auto

text \<open>A timer that is closed keeps its invariants; once its ticker has ended it calls no more functions than it has
  goroutines that were started before, whatever is added to it.\<close>

lemma close_timer_step: "close_step s s' \<Longrightarrow> timer_step\<^sup>=\<^sup>= (cl_sys s) (cl_sys s')"
  by (induction rule: close_step.induct) (auto simp: CloseAndExit_def dest: idle_timer_step split: if_splits)

interpretation closed: step_decreasing close_step cl_off "\<lambda>s. length (ts_log (cl_sys s)) + length (ts_go (cl_sys s))"
proof
  show "cl_off s'" if "close_step s s'" "cl_off s" for s s'
    using that by (cases rule: close_step.cases) (auto simp: CloseAndExit_def split: if_splits)
  show "length (ts_log (cl_sys s')) + length (ts_go (cl_sys s')) \<le> length (ts_log (cl_sys s)) + length (ts_go (cl_sys s))"
    if "close_step s s'" "cl_off s" for s s'
    using that by (cases rule: close_step.cases) (auto simp: CloseAndExit_def dest: idle_counts split: if_splits)
qed

lemma closed_counts:
  assumes "close_step\<^sup>*\<^sup>* s s'" and "cl_off s"
  shows "length (ts_log (cl_sys s')) \<le> length (ts_log (cl_sys s)) + length (ts_go (cl_sys s))"
  using closed.bounded [OF assms] by simp

text \<open>A second call before the ticker has received the first blocks.\<close>

lemma second_close_blocks: "CloseAndExit s = Some s' \<Longrightarrow> CloseAndExit s' = None"
  by (auto simp: CloseAndExit_def split: if_splits)

section \<open>What sorting does to the rows\<close>

definition ByNext_Len :: "TimerFunc list \<Rightarrow> nat" where
  "ByNext_Len t = length t"

definition ByNext_Swap :: "TimerFunc list \<Rightarrow> nat \<Rightarrow> nat \<Rightarrow> TimerFunc list" where
  "ByNext_Swap t i j = t[i := t ! j, j := t ! i]"

lemma ByNext_Swap_mset: "i < ByNext_Len t \<Longrightarrow> j < ByNext_Len t \<Longrightarrow> mset (ByNext_Swap t i j) = mset t"
  by (simp add: ByNext_Swap_def ByNext_Len_def mset_swap)

end
