(* ===== verification/Logs.thy ===== *)
theory Logs
  imports Prelude
begin

text \<open>
  Package logs: the settings (struct.go), the functions that write records (api.go), and what becomes of a
  record (log.go): the check for a new file, the cache, the writes and their repetition. Every record is
  written by a goroutine of its own, and so the program is a list of goroutines over the shared
  \<open>LogData\<close>; a step runs one goroutine up to its next wait.

  The file system, the clock, the layouts of times and the JSON library are the environment. The mutex \<open>mu\<close>
  is a flag that says whether it is held; \<open>flock\<close> guards single file operations, which are atomic here.
  Pauses (\<open>time.Sleep\<close>) and the second closing of an old file have no effect.
\<close>

section \<open>Settings\<close>

definition LevelDebug :: int where "LevelDebug = 1"
definition LevelInfo :: int where "LevelInfo = 2"
definition LevelWarn :: int where "LevelWarn = 3"
definition LevelError :: int where "LevelError = 4"

definition DataTypeJson :: int where "DataTypeJson = 1"
definition DataTypeByte :: int where "DataTypeByte = 2"

definition TimeMonth :: string where "TimeMonth = ''200601''"
definition TimeDaily :: string where "TimeDaily = ''20060102''"
definition TimeHour :: string where "TimeHour = ''2006010215''"
definition TimeMinute :: string where "TimeMinute = ''200601021504''"

definition TimeUnitMinute :: int where "TimeUnitMinute = 1 * 60"
definition TimeUnitHour :: int where "TimeUnitHour = 60 * TimeUnitMinute"
definition TimeUnitDay :: int where "TimeUnitDay = 24 * TimeUnitHour"

lemmas time_defs = TimeMonth_def TimeDaily_def TimeHour_def TimeMinute_def TimeUnitDay_def TimeUnitHour_def TimeUnitMinute_def

text \<open>Of \<open>ErrFunc\<close> only whether it is set.\<close>

record LogStruct =
  lc_Cache :: bool
  lc_CacheSize :: int
  lc_TimeFormat :: string
  lc_FileName :: string
  lc_FilePath :: string
  lc_Level :: int
  lc_FileTime :: string
  lc_Dir :: bool
  lc_DataType :: int
  lc_ErrFunc :: bool

text \<open>
  \<open>file\<close> is the number of the open file, the position of its name in \<open>names\<close>; \<open>out\<close> is what has been
  written to which file, and \<open>ops\<close> counts the operations of the file system.
\<close>

record LogData =
  ld_cache :: bool
  ld_size :: int
  ld_format :: string
  ld_name :: string
  ld_path :: string
  ld_level :: int
  ld_time :: string
  ld_dir :: bool
  ld_buf :: "string option"
  ld_file :: "nat option"
  ld_stamp :: int
  ld_mu :: bool
  ld_types :: int
  ld_function :: bool
  ld_names :: "string list"
  ld_out :: "(nat \<times> string) list"
  ld_ops :: nat

definition checkStruct :: "LogStruct option \<Rightarrow> LogData" where
  "checkStruct l =
     (let d = \<lparr>ld_cache = True, ld_size = 1024 * 1024, ld_format = ''2006-01-02 15:04:05'', ld_name = ''log'',
              ld_path = ''./'', ld_level = LevelError, ld_time = TimeDaily, ld_dir = False, ld_buf = None,
              ld_file = None, ld_stamp = 0, ld_mu = False, ld_types = DataTypeJson, ld_function = False,
              ld_names = [], ld_out = [], ld_ops = 0\<rparr>
      in case l of
           None \<Rightarrow> d
         | Some l \<Rightarrow>
             let d = (if lc_FileName l \<noteq> '''' then d\<lparr>ld_name := lc_FileName l\<rparr> else d);
                 d = (if lc_FileTime l \<noteq> '''' then d\<lparr>ld_time := lc_FileTime l\<rparr> else d);
                 d = (if lc_Level l \<noteq> 0 then d\<lparr>ld_level := lc_Level l\<rparr> else d);
                 d = (if lc_TimeFormat l \<noteq> '''' then d\<lparr>ld_format := lc_TimeFormat l\<rparr> else d);
                 d = (if lc_CacheSize l = 0 \<and> \<not> lc_Cache l then d\<lparr>ld_cache := False\<rparr>
                      else (if lc_CacheSize l \<noteq> 0 then d\<lparr>ld_size := lc_CacheSize l\<rparr> else d)\<lparr>ld_buf := Some []\<rparr>);
                 d = (if lc_Dir l then d\<lparr>ld_dir := True\<rparr> else d);
                 d = (if lc_FilePath l \<noteq> '''' then d\<lparr>ld_path := lc_FilePath l\<rparr> else d)
             in if lc_DataType l = DataTypeByte then d\<lparr>ld_types := DataTypeByte\<rparr> else d)"

section \<open>Files\<close>

datatype stat_result = Exists | Missing | StatFails

record log_env =
  le_format :: "int \<Rightarrow> string \<Rightarrow> string"
  le_start :: "int \<Rightarrow> string \<Rightarrow> int option"
  le_month :: "int \<Rightarrow> int"
  le_join :: "string list \<Rightarrow> string"
  le_json :: "string \<Rightarrow> string \<Rightarrow> string \<Rightarrow> string"
  le_stat :: "nat \<Rightarrow> stat_result"
  le_mkdir :: "nat \<Rightarrow> bool"
  le_open :: "nat \<Rightarrow> bool"
  le_write :: "nat \<Rightarrow> bool"

definition create :: "log_env \<Rightarrow> string \<Rightarrow> LogData \<Rightarrow> LogData go" where
  "create e path d =
     (let k = ld_ops d; d = d\<lparr>ld_ops := Suc k\<rparr>
      in case le_stat e k of
           Missing \<Rightarrow> if le_mkdir e k then Ret d else Panic ExplicitPanic
         | _ \<Rightarrow> Ret d)"

definition createDir :: "log_env \<Rightarrow> int \<Rightarrow> LogData \<Rightarrow> (string \<times> LogData) go" where
  "createDir e now d =
     (let fmt = le_format e now in
      go_bind (create e (le_join e [ld_path d, fmt ''2006'']) d) (\<lambda>d.
        if ld_time d = TimeMonth then Ret (fmt ''2006/'', d) else
      go_bind (create e (le_join e [ld_path d, fmt ''2006/01'']) d) (\<lambda>d.
        if ld_time d = TimeDaily then Ret (fmt ''2006/01/'', d) else
      go_bind (create e (le_join e [ld_path d, fmt ''2006/01/02'']) d) (\<lambda>d.
        if ld_time d = TimeHour then Ret (fmt ''2006/01/02/'', d) else
      go_bind (create e (le_join e [ld_path d, fmt ''2006/01/02/15'']) d) (\<lambda>d.
        Ret (fmt ''2006/01/02/15/'', d))))))"

definition open_log :: "log_env \<Rightarrow> int \<Rightarrow> LogData \<Rightarrow> LogData go" where
  "open_log e now d =
     (let base = ld_name d @ ''.'' @ le_format e now (ld_time d) in
      go_bind (if ld_dir d
               then go_bind (createDir e now d) (\<lambda>(dir, d). Ret (le_join e [ld_path d, dir, base], d))
               else Ret (le_join e [ld_path d, base], d)) (\<lambda>(name, d).
        let k = ld_ops d; d = d\<lparr>ld_ops := Suc k\<rparr>
        in if le_open e k
           then Ret (d\<lparr>ld_file := Some (length (ld_names d)), ld_names := ld_names d @ [name]\<rparr>)
           else Panic ExplicitPanic))"

definition upStamp :: "log_env \<Rightarrow> LogData \<Rightarrow> LogData" where
  "upStamp e d =
     (if ld_time d = TimeMonth then d\<lparr>ld_stamp := le_month e (ld_stamp d)\<rparr>
      else if ld_time d = TimeDaily then d\<lparr>ld_stamp := ld_stamp d + TimeUnitDay\<rparr>
      else if ld_time d = TimeHour then d\<lparr>ld_stamp := ld_stamp d + TimeUnitHour\<rparr>
      else if ld_time d = TimeMinute then d\<lparr>ld_stamp := ld_stamp d + TimeUnitMinute\<rparr>
      else d)"

text \<open>The time of the start cut down to the unit of the file, which \<open>le_start\<close> gives.\<close>

definition initStamp :: "log_env \<Rightarrow> int \<Rightarrow> LogData \<Rightarrow> LogData go" where
  "initStamp e now d =
     (case le_start e now (ld_time d) of
        None \<Rightarrow> Panic ExplicitPanic
      | Some t \<Rightarrow> Ret (upStamp e (d\<lparr>ld_stamp := t\<rparr>)))"

definition NewLogs :: "log_env \<Rightarrow> int \<Rightarrow> LogStruct option \<Rightarrow> LogData go" where
  "NewLogs e now l = go_bind (open_log e now (checkStruct l)) (initStamp e now)"

section \<open>Goroutines\<close>

text \<open>\<open>strings.Replace(s, old, new, -1)\<close> for a nonempty \<open>old\<close>.\<close>

function replace_all :: "string \<Rightarrow> string \<Rightarrow> string \<Rightarrow> string" where
  "replace_all old new s =
     (if old = [] \<or> s = [] then s
      else if take (length old) s = old then new @ replace_all old new (drop (length old) s)
      else hd s # replace_all old new (tl s))"
  by pat_completeness auto
termination
  by (relation "measure (\<lambda>(old, new, s). length s)") auto

declare replace_all.simps [simp del]

text \<open>The escapes of the JSON library for the characters of markup are undone.\<close>

definition unescape :: "string \<Rightarrow> string" where
  "unescape s =
     replace_all (CHR 0x5C # ''u0026'') ''&''
       (replace_all (CHR 0x5C # ''u003e'') ''>'' (replace_all (CHR 0x5C # ''u003c'') ''<'' s))"

text \<open>
  Where a goroutine is: before the check of its record; in the check, about to lock; in \<open>sendCache\<close>, about to
  lock; in \<open>sendChann\<close>; in the \<open>k\<close>-th \<open>reset\<close>; in \<open>exit\<close>. The last three know what their callers do next: the
  outer \<open>sendCache\<close> of a recursive call, the rest of a check, the end of \<open>exit\<close>.
\<close>

datatype cont = Outer | RestOfCheck string | CloseFile

datatype thread =
  Logging int string
| AtLock int string
| Caching string "cont list"
| Sending string "cont list"
| Resetting string nat "cont list"
| Exiting
| ThenExit thread

text \<open>What \<open>putByte\<close> and \<open>putString\<close> do after the check.\<close>

definition hand_over :: "string \<Rightarrow> LogData \<Rightarrow> thread" where
  "hand_over line d =
     (if ld_cache d then Caching (line @ ''\<newline>'') [] else Sending (line @ ''\<newline>'') [])"

text \<open>\<open>mu.Unlock()\<close>, which is fatal when nobody holds the mutex.\<close>

definition unlock :: "LogData \<Rightarrow> LogData go" where
  "unlock d = (if ld_mu d then Ret (d\<lparr>ld_mu := False\<rparr>) else Panic ExplicitPanic)"

definition buf_text :: "LogData \<Rightarrow> string" where
  "buf_text d = (case ld_buf d of None \<Rightarrow> ''<nil>'' | Some b \<Rightarrow> b)"

definition buf_reset :: "LogData \<Rightarrow> LogData go" where
  "buf_reset d = (case ld_buf d of None \<Rightarrow> Panic NilDereference | Some _ \<Rightarrow> Ret (d\<lparr>ld_buf := Some []\<rparr>))"

fun return_to :: "log_env \<Rightarrow> int \<Rightarrow> cont list \<Rightarrow> LogData \<Rightarrow> (thread list \<times> LogData) go" where
  "return_to e now [] d = Ret ([], d)"
| "return_to e now (Outer # ks) d = go_bind (buf_reset d) (\<lambda>d. go_bind (unlock d) (return_to e now ks))"
| "return_to e now (RestOfCheck line # ks) d =
     go_bind (buf_reset d) (\<lambda>d. go_bind (open_log e now d) (\<lambda>d.
       go_bind (unlock (upStamp e d)) (\<lambda>d. Ret ([hand_over line d], d))))"
| "return_to e now (CloseFile # ks) d =
     go_bind (if ld_cache d then unlock d else Ret d) (\<lambda>d. Ret ([], d\<lparr>ld_file := None\<rparr>))"

text \<open>\<open>file.WriteString\<close>, which fails without a file.\<close>

definition write_line :: "log_env \<Rightarrow> string \<Rightarrow> LogData \<Rightarrow> bool \<times> LogData" where
  "write_line e s d =
     (let k = ld_ops d; d = d\<lparr>ld_ops := Suc k\<rparr>
      in case ld_file d of
           None \<Rightarrow> (False, d)
         | Some f \<Rightarrow> if le_write e k then (True, d\<lparr>ld_out := ld_out d @ [(f, s)]\<rparr>) else (False, d))"

text \<open>A caller that exits after its record has been handed over: it goes on with the check, or leaves the record to
  the new goroutine and exits.\<close>

definition after_put :: "thread \<Rightarrow> thread list" where
  "after_put t =
     (case t of
        AtLock ts line \<Rightarrow> [ThenExit t]
      | Caching line ks \<Rightarrow> (if ks = [] then [t, Exiting] else [ThenExit t])
      | _ \<Rightarrow> [t, Exiting])"

text \<open>One step of a goroutine: \<^const>\<open>None\<close> while it waits for the mutex, else what it is replaced by.\<close>

fun run_thread :: "log_env \<Rightarrow> int \<Rightarrow> thread \<Rightarrow> LogData \<Rightarrow> (thread list \<times> LogData) go option" where
  "run_thread e now (Logging ts line) d =
     Some (Ret ([if ld_stamp d \<le> ts then AtLock ts line else hand_over line d], d))"
| "run_thread e now (AtLock ts line) d =
     (if ld_mu d then None
      else
        let d = d\<lparr>ld_mu := True\<rparr>
        in if ld_stamp d > ts then Some (Ret ([hand_over line d], d))
           else if ld_cache d then Some (Ret ([Caching (buf_text d) [RestOfCheck line]], d))
           else
             Some (go_bind (open_log e now d) (\<lambda>d.
               go_bind (unlock (upStamp e d)) (\<lambda>d. Ret ([hand_over line d], d)))))"
| "run_thread e now (Caching s ks) d =
     (if ld_mu d then None
      else
        (case ld_buf d of
           None \<Rightarrow> Some (Panic NilDereference)
         | Some b \<Rightarrow>
             let d = d\<lparr>ld_buf := Some (b @ s)\<rparr>
             in if int (length (b @ s)) \<ge> ld_size d
                then Some (Ret ([Caching (b @ s) (Outer # ks)], d\<lparr>ld_mu := True\<rparr>))
                else Some (return_to e now ks d)))"
| "run_thread e now (Sending data ks) d =
     (case write_line e (unescape data) d of
        (True, d) \<Rightarrow> Some (return_to e now ks d)
      | (False, d) \<Rightarrow> Some (Ret ([Resetting (unescape data) 1 ks], d)))"
| "run_thread e now (Resetting data num ks) d =
     Some (go_bind (open_log e now d) (\<lambda>d.
       case write_line e data d of
         (True, d) \<Rightarrow> return_to e now ks d
       | (False, d) \<Rightarrow>
           if num \<ge> 4 \<and> \<not> ld_function d then Panic NilDereference
           else Ret ([Resetting data (num + 1) ks], d)))"
| "run_thread e now Exiting d =
     (if ld_cache d then
        if ld_mu d then None
        else Some (Ret ([Sending (buf_text d) [CloseFile]], d\<lparr>ld_mu := True\<rparr>))
      else Some (return_to e now [CloseFile] d))"
| "run_thread e now (ThenExit t) d =
     map_option (\<lambda>r. go_bind r (\<lambda>(ts, d). Ret (concat (map after_put ts), d))) (run_thread e now t d)"

section \<open>Writing records\<close>

text \<open>The line of a record, whose arguments \<open>fmt\<close> has made a string of.\<close>

definition log_line :: "log_env \<Rightarrow> int \<Rightarrow> string \<Rightarrow> string \<Rightarrow> LogData \<Rightarrow> string" where
  "log_line e now level body d =
     (if ld_types d = DataTypeJson then le_json e (le_format e now (ld_format d)) level body
      else le_format e now (ld_format d) @ [CHR 0x09] @ level @ [CHR 0x09] @ body)"

text \<open>A record that is written is a new goroutine here: its caller, up to the check, and then the one it starts.\<close>

definition put_log :: "log_env \<Rightarrow> int \<Rightarrow> string \<Rightarrow> string \<Rightarrow> LogData \<Rightarrow> thread" where
  "put_log e now level body d = Logging now (log_line e now level body d)"

definition putf :: "log_env \<Rightarrow> int \<Rightarrow> string \<Rightarrow> string \<Rightarrow> LogData \<Rightarrow> thread" where
  "putf e now level body d = Logging now (log_line e now level body d)"

definition WriteDebug :: "log_env \<Rightarrow> int \<Rightarrow> string \<Rightarrow> LogData \<Rightarrow> thread list" where
  "WriteDebug e now body d = (if ld_level d = LevelDebug then [put_log e now ''DEBUG'' body d] else [])"

definition WriteInfo :: "log_env \<Rightarrow> int \<Rightarrow> string \<Rightarrow> LogData \<Rightarrow> thread list" where
  "WriteInfo e now body d = (if ld_level d \<le> LevelInfo then [put_log e now ''INFO'' body d] else [])"

definition WriteWarn :: "log_env \<Rightarrow> int \<Rightarrow> string \<Rightarrow> LogData \<Rightarrow> thread list" where
  "WriteWarn e now body d = (if ld_level d \<le> LevelWarn then [put_log e now ''WARN'' body d] else [])"

definition WriteError :: "log_env \<Rightarrow> int \<Rightarrow> string \<Rightarrow> LogData \<Rightarrow> thread list" where
  "WriteError e now body d = [put_log e now ''ERROR'' body d]"

definition WriteFatal :: "log_env \<Rightarrow> int \<Rightarrow> string \<Rightarrow> LogData \<Rightarrow> thread list" where
  "WriteFatal e now body d = [put_log e now ''FATAL'' body d]"

definition WriteDebugf :: "log_env \<Rightarrow> int \<Rightarrow> string \<Rightarrow> LogData \<Rightarrow> thread list" where
  "WriteDebugf e now body d = (if ld_level d = LevelDebug then [putf e now ''DEBUG'' body d] else [])"

definition WriteInfof :: "log_env \<Rightarrow> int \<Rightarrow> string \<Rightarrow> LogData \<Rightarrow> thread list" where
  "WriteInfof e now body d = (if ld_level d \<le> LevelInfo then [putf e now ''INFO'' body d] else [])"

definition WriteWarnf :: "log_env \<Rightarrow> int \<Rightarrow> string \<Rightarrow> LogData \<Rightarrow> thread list" where
  "WriteWarnf e now body d = (if ld_level d \<le> LevelWarn then [putf e now ''WARN'' body d] else [])"

definition WriteErrorf :: "log_env \<Rightarrow> int \<Rightarrow> string \<Rightarrow> LogData \<Rightarrow> thread list" where
  "WriteErrorf e now body d = [putf e now ''ERROR'' body d]"

definition WriteFatalf :: "log_env \<Rightarrow> int \<Rightarrow> string \<Rightarrow> LogData \<Rightarrow> thread list" where
  "WriteFatalf e now body d = [putf e now ''FATAL'' body d]"

text \<open>Without a prefix; \<open>bts\<close> are the bytes, or the JSON text of a value.\<close>

definition WriteBytes :: "int \<Rightarrow> string \<Rightarrow> thread list" where
  "WriteBytes now bts = [Logging now bts]"

definition WriteJson :: "int \<Rightarrow> error + string \<Rightarrow> error option \<times> thread list" where
  "WriteJson now json = (case json of Inl err \<Rightarrow> (Some err, []) | Inr bts \<Rightarrow> (None, [Logging now bts]))"

definition ChangeErrLevel :: "int \<Rightarrow> LogData \<Rightarrow> LogData" where
  "ChangeErrLevel level d = d\<lparr>ld_level := level\<rparr>"

text \<open>The error is not used; despite their names nothing panics.\<close>

definition WritePanic :: "log_env \<Rightarrow> int \<Rightarrow> error option \<Rightarrow> string \<Rightarrow> LogData \<Rightarrow> thread list" where
  "WritePanic e now err body d = [ThenExit (put_log e now ''FATAL'' body d)]"

definition WritePanicf :: "log_env \<Rightarrow> int \<Rightarrow> error option \<Rightarrow> string \<Rightarrow> LogData \<Rightarrow> thread list" where
  "WritePanicf e now err body d = [ThenExit (putf e now ''PANIC'' body d)]"

definition SignalKill :: "thread list" where
  "SignalKill = [Exiting]"

definition SaveAndExit :: "thread list" where
  "SaveAndExit = [Exiting]"

section \<open>Steps\<close>

text \<open>
  The lines that were handed in are kept beside the program, \<open>lines\<close>; a panic of any goroutine ends the
  program. The steps without \<open>exit\<close> are the program at work.
\<close>

record LogSys =
  ls_data :: LogData
  ls_threads :: "thread list"
  ls_crash :: "go_panic option"
  ls_lines :: "string list"

definition step_thread :: "log_env \<Rightarrow> int \<Rightarrow> nat \<Rightarrow> LogSys \<Rightarrow> LogSys option" where
  "step_thread e now i s =
     (if ls_crash s \<noteq> None \<or> length (ls_threads s) \<le> i then None
      else
        (case run_thread e now (ls_threads s ! i) (ls_data s) of
           None \<Rightarrow> None
         | Some (Panic p) \<Rightarrow> Some (s\<lparr>ls_crash := Some p\<rparr>)
         | Some (Ret (ts, d)) \<Rightarrow>
             Some (s\<lparr>ls_data := d, ls_threads := take i (ls_threads s) @ ts @ drop (Suc i) (ls_threads s)\<rparr>)))"

inductive log_step :: "log_env \<Rightarrow> LogSys \<Rightarrow> LogSys \<Rightarrow> bool" for e where
  writes: "ls_crash s = None \<Longrightarrow>
    log_step e s (s\<lparr>ls_threads := ls_threads s @ [Logging ts line], ls_lines := ls_lines s @ [line]\<rparr>)"
| changes_level: "ls_crash s = None \<Longrightarrow> log_step e s (s\<lparr>ls_data := ChangeErrLevel l (ls_data s)\<rparr>)"
| runs: "step_thread e now i s = Some s' \<Longrightarrow> log_step e s s'"

definition new_logs :: "LogData \<Rightarrow> LogSys" where
  "new_logs d = \<lparr>ls_data = d, ls_threads = [], ls_crash = None, ls_lines = []\<rparr>"

text \<open>What has been written, in the order in which it was.\<close>

definition written :: "LogSys \<Rightarrow> string list" where
  "written s = map snd (ld_out (ls_data s))"

lemma step_threadE:
  assumes "step_thread e now i s = Some s'"
  obtains (panic) p where "run_thread e now (ls_threads s ! i) (ls_data s) = Some (Panic p)" "s' = s\<lparr>ls_crash := Some p\<rparr>"
      "ls_crash s = None"
  | (step) pre t post ts d where "ls_threads s = pre @ t # post" "run_thread e now t (ls_data s) = Some (Ret (ts, d))"
      "s' = s\<lparr>ls_data := d, ls_threads := pre @ ts @ post\<rparr>" "ls_crash s = None"
proof -
  from assms have i: "i < length (ls_threads s)" "ls_crash s = None" by (auto simp: step_thread_def split: if_splits)
  then obtain r where r: "run_thread e now (ls_threads s ! i) (ls_data s) = Some r"
    using assms by (auto simp: step_thread_def split: option.splits)
  show thesis
  proof (cases r)
    case (Panic p)
    with panic r i assms show ?thesis by (simp add: step_thread_def)
  next
    case (Ret x)
    then obtain ts d where "r = Ret (ts, d)" by (cases x) auto
    with step [OF id_take_nth_drop [OF i(1)]] r i assms show ?thesis by (simp add: step_thread_def)
  qed
qed

section \<open>Without a cache\<close>

text \<open>A goroutine of a program without a cache, and the line it stands for.\<close>

fun plain :: "thread \<Rightarrow> bool" where
  "plain (Logging ts line) = True"
| "plain (AtLock ts line) = True"
| "plain (Caching s ks) = False"
| "plain (Sending s ks) = (ks = [])"
| "plain (Resetting s k ks) = (ks = [])"
| "plain Exiting = False"
| "plain (ThenExit t) = False"

fun line_of :: "thread \<Rightarrow> string" where
  "line_of (Logging ts line) = unescape (line @ ''\<newline>'')"
| "line_of (AtLock ts line) = unescape (line @ ''\<newline>'')"
| "line_of (Sending s ks) = unescape s"
| "line_of (Resetting s k ks) = s"
| "line_of t = []"

text \<open>Opening a file touches nothing but the file.\<close>

definition same_log :: "LogData \<Rightarrow> LogData \<Rightarrow> bool" where
  "same_log d d' \<longleftrightarrow> ld_cache d' = ld_cache d \<and> ld_out d' = ld_out d \<and> ld_buf d' = ld_buf d \<and> ld_mu d' = ld_mu d \<and>
     ld_function d' = ld_function d \<and> ld_size d' = ld_size d"

lemma same_log_refl [simp]: "same_log d d"
  by (simp add: same_log_def)

lemma same_log_trans: "same_log d d' \<Longrightarrow> same_log d' d'' \<Longrightarrow> same_log d d''"
  by (simp add: same_log_def)

lemma create_same: "create e p d = Ret d' \<Longrightarrow> same_log d d'"
  by (auto simp: create_def Let_def same_log_def split: stat_result.splits if_splits)

lemma createDir_same: "createDir e now d = Ret (dir, d') \<Longrightarrow> same_log d d'"
  by (auto simp: createDir_def Let_def go_bind_Ret_iff split: if_splits
      dest!: create_same intro: same_log_trans)

lemma open_log_same:
  assumes "open_log e now d = Ret d'"
  shows "same_log d d' \<and> ld_file d' \<noteq> None"
proof -
  have bump: "same_log d k \<Longrightarrow> same_log d (k\<lparr>ld_ops := a, ld_file := f, ld_names := ns\<rparr>)" for k a f ns
    by (simp add: same_log_def)
  from assms show ?thesis
    by (auto simp: open_log_def Let_def go_bind_Ret_iff split: if_splits prod.splits
        dest!: createDir_same intro: bump)
qed

lemma upStamp_same: "same_log d (upStamp e d)"
  by (simp add: upStamp_def same_log_def)

lemma write_line_out:
  "write_line e s d = (ok, d') \<Longrightarrow>
    same_log (d\<lparr>ld_out := ld_out d'\<rparr>) d' \<and>
      image_mset snd (mset (ld_out d')) = image_mset snd (mset (ld_out d)) + (if ok then {#s#} else {#})"
  by (auto simp: write_line_def Let_def same_log_def split: option.splits if_splits)

lemma Resetting_step:
  assumes "run_thread e now (Resetting s k []) d = Some (Ret (ts, d'))"
  obtains (writes) "ts = []" "same_log (d\<lparr>ld_out := ld_out d'\<rparr>) d'"
      "image_mset snd (mset (ld_out d')) = image_mset snd (mset (ld_out d)) + {#s#}"
  | (repeats) "ts = [Resetting s (Suc k) []]" "same_log (d\<lparr>ld_out := ld_out d'\<rparr>) d'"
      "image_mset snd (mset (ld_out d')) = image_mset snd (mset (ld_out d))"
proof -
  from assms obtain d1 where 1: "open_log e now d = Ret d1"
    and w: "(case write_line e s d1 of (True, d) \<Rightarrow> return_to e now [] d
      | (False, d) \<Rightarrow> if k \<ge> 4 \<and> \<not> ld_function d then Panic NilDereference
                     else Ret ([Resetting s (k + 1) []], d)) = Ret (ts, d')"
    by (auto simp only: run_thread.simps go_bind_Ret_iff option.inject)
  obtain ok d2 where 2: "write_line e s d1 = (ok, d2)" by fastforce
  with w open_log_same [OF 1] write_line_out [OF 2] that show thesis
    by (cases ok) (auto simp: same_log_def split: if_splits)
qed

lemma run_plain:
  assumes "run_thread e now t d = Some (Ret (ts, d'))" "plain t" "\<not> ld_cache d"
  shows "\<not> ld_cache d' \<and> list_all plain ts \<and>
    mset (map snd (ld_out d')) + mset (map line_of ts) = mset (map snd (ld_out d)) + {#line_of t#}"
proof (cases t)
  case (Logging ts line)
  with assms show ?thesis by (auto simp: hand_over_def)
next
  case (AtLock ts line)
  have up: "open_log e now k = Ret k1 \<Longrightarrow> same_log k (upStamp e k1)" for k k1
    using open_log_same same_log_trans upStamp_same by blast
  show ?thesis
    using assms AtLock
    by (auto simp: hand_over_def Let_def unlock_def go_bind_Ret_iff same_log_def split: if_splits dest!: up)
next
  case (Sending s ks)
  then show ?thesis
    using assms write_line_out [of e "unescape s" d]
    by (auto simp: same_log_def split: prod.splits bool.splits)
next
  case (Resetting s k ks)
  with assms(2) have "ks = []" by simp
  with assms(1) Resetting have "run_thread e now (Resetting s k []) d = Some (Ret (ts, d'))" by simp
  then show ?thesis
    by (cases rule: Resetting_step) (use assms Resetting \<open>ks = []\<close> in \<open>auto simp: same_log_def\<close>)
qed (use assms in simp_all)

definition plain_ok :: "LogSys \<Rightarrow> bool" where
  "plain_ok s \<longleftrightarrow> \<not> ld_cache (ls_data s) \<and> list_all plain (ls_threads s) \<and>
     mset (map (\<lambda>l. unescape (l @ ''\<newline>'')) (ls_lines s)) =
       mset (written s) + mset (map line_of (ls_threads s))"

lemma plain_ok_step: "log_step e s s' \<Longrightarrow> plain_ok s \<Longrightarrow> plain_ok s'"
proof (induction rule: log_step.induct)
  case (runs now i s s')
  from runs(1) show ?case
  proof (cases rule: step_threadE)
    case (step pre t post ts d)
    with runs(2) have "plain t" "\<not> ld_cache (ls_data s)" by (simp_all add: plain_ok_def)
    from run_plain [OF step(2) this] runs(2) step show ?thesis
      by (auto simp: plain_ok_def written_def ac_simps)
  qed (use runs(2) in \<open>auto simp: plain_ok_def written_def\<close>)
qed (auto simp: plain_ok_def written_def ChangeErrLevel_def ac_simps)

interpretation plain_logs: step_invariant "log_step e" plain_ok for e
  by unfold_locales (rule plain_ok_step)

lemma NewLogs_same: "NewLogs e now l = Ret d \<Longrightarrow> same_log (checkStruct l) d"
  by (auto simp: NewLogs_def initStamp_def go_bind_Ret_iff split: option.splits
      dest!: open_log_same intro!: same_log_trans [OF _ upStamp_same]) (simp add: same_log_def)

lemma NewLogs_start:
  assumes "NewLogs e now l = Ret d"
  shows "ld_out d = []" "\<not> ld_mu d" "\<not> ld_function d"
    "ld_cache d \<longleftrightarrow> (\<forall>s. l = Some s \<longrightarrow> lc_Cache s \<or> lc_CacheSize s \<noteq> 0)"
  using NewLogs_same [OF assms] by (auto simp: same_log_def checkStruct_def Let_def split: option.splits)

section \<open>The mutex\<close>

text \<open>Goroutines of a program that nobody has told to exit.\<close>

fun at_work :: "thread \<Rightarrow> bool" where
  "at_work (Logging ts line) = True"
| "at_work (AtLock ts line) = True"
| "at_work (Caching s ks) = (CloseFile \<notin> set ks)"
| "at_work (Sending s ks) = (ks = [])"
| "at_work (Resetting s k ks) = (ks = [])"
| "at_work Exiting = False"
| "at_work (ThenExit t) = False"

text \<open>A goroutine that has to return through an \<open>Unlock\<close> finds the mutex free only by a fatal error.\<close>

lemma return_to_free:
  "return_to e now ks d = Ret r \<Longrightarrow> \<not> ld_mu d \<Longrightarrow> CloseFile \<notin> set ks \<Longrightarrow> ks = [] \<and> r = ([], d)"
proof (induction e now ks d rule: return_to.induct)
  case (3 e now line ks d)
  then show ?case
    using open_log_same upStamp_same
    by (auto simp: buf_reset_def unlock_def go_bind_Ret_iff same_log_def split: option.splits if_splits)
qed (auto simp: buf_reset_def unlock_def go_bind_Ret_iff split: option.splits if_splits)

lemma run_at_work:
  assumes "run_thread e now t d = Some (Ret (ts, d'))" "at_work t"
  shows "list_all at_work ts \<and> ld_cache d' = ld_cache d \<and> (ld_mu d \<longrightarrow> ld_mu d' \<and> ld_buf d' = ld_buf d) \<and>
    (ld_cache d \<longrightarrow> (\<forall>ts line. t = AtLock ts line \<longrightarrow> ld_mu d'))"
proof (cases t)
  case (Logging ts line)
  with assms show ?thesis by (auto simp: hand_over_def)
next
  case (AtLock ts line)
  have up: "open_log e now k = Ret k1 \<Longrightarrow> same_log k (upStamp e k1)" for k k1
    using open_log_same same_log_trans upStamp_same by blast
  show ?thesis
    using assms AtLock
    by (auto simp: hand_over_def Let_def unlock_def go_bind_Ret_iff same_log_def split: if_splits dest!: up)
next
  case (Caching s ks)
  show ?thesis
  proof (cases "ld_mu d \<or> ld_buf d = None")
    case False
    then obtain b where b: "ld_buf d = Some b" "\<not> ld_mu d" by auto
    with assms Caching return_to_free [of e now ks "d\<lparr>ld_buf := Some (b @ s)\<rparr>"] show ?thesis
      by (auto simp: Let_def split: if_splits)
  qed (use assms Caching in \<open>auto split: if_splits\<close>)
next
  case (Sending s ks)
  then show ?thesis
    using assms write_line_out [of e "unescape s" d]
    by (auto simp: same_log_def split: prod.splits bool.splits)
next
  case (Resetting s k ks)
  with assms(2) have "ks = []" by simp
  with assms(1) Resetting have "run_thread e now (Resetting s k []) d = Some (Ret (ts, d'))" by simp
  then show ?thesis
    by (cases rule: Resetting_step) (use assms Resetting \<open>ks = []\<close> in \<open>auto simp: same_log_def\<close>)
qed (use assms in simp_all)

text \<open>In a program with a cache that is at work nothing reaches the file.\<close>

fun cache_thread :: "thread \<Rightarrow> bool" where
  "cache_thread (Sending s ks) = False"
| "cache_thread (Resetting s k ks) = False"
| "cache_thread t = at_work t"

lemma cache_thread_work: "cache_thread t \<Longrightarrow> at_work t"
  by (cases t) auto

lemma run_cached:
  assumes "run_thread e now t d = Some (Ret (ts, d'))" "cache_thread t" "ld_cache d"
  shows "list_all cache_thread ts \<and> ld_cache d' \<and> ld_out d' = ld_out d"
proof (cases t)
  case (Caching s ks)
  show ?thesis
  proof (cases "ld_mu d \<or> ld_buf d = None")
    case False
    then obtain b where b: "ld_buf d = Some b" "\<not> ld_mu d" by auto
    with assms Caching return_to_free [of e now ks "d\<lparr>ld_buf := Some (b @ s)\<rparr>"] show ?thesis
      by (auto simp: Let_def split: if_splits)
  qed (use assms Caching in \<open>auto split: if_splits\<close>)
qed (use assms in \<open>auto simp: hand_over_def Let_def split: if_splits\<close>)

definition cached_ok :: "LogSys \<Rightarrow> bool" where
  "cached_ok s \<longleftrightarrow> ld_cache (ls_data s) \<and> list_all cache_thread (ls_threads s) \<and> written s = []"

lemma cached_ok_step: "log_step e s s' \<Longrightarrow> cached_ok s \<Longrightarrow> cached_ok s'"
proof (induction rule: log_step.induct)
  case (runs now i s s')
  from runs(1) show ?case
  proof (cases rule: step_threadE)
    case (step pre t post ts d)
    with runs(2) have "cache_thread t" "ld_cache (ls_data s)" by (simp_all add: cached_ok_def)
    from run_cached [OF step(2) this] runs(2) step show ?thesis
      by (auto simp: cached_ok_def written_def)
  qed (use runs(2) in \<open>auto simp: cached_ok_def written_def\<close>)
qed (auto simp: cached_ok_def written_def ChangeErrLevel_def)

interpretation cached_logs: step_invariant "log_step e" cached_ok for e
  by unfold_locales (rule cached_ok_step)

text \<open>Once it is held between two steps, the mutex is held for good.\<close>

definition held_ok :: "string option \<Rightarrow> LogSys \<Rightarrow> bool" where
  "held_ok b s \<longleftrightarrow> list_all at_work (ls_threads s) \<and> ld_mu (ls_data s) \<and> ld_buf (ls_data s) = b"

lemma held_ok_step: "log_step e s s' \<Longrightarrow> held_ok b s \<Longrightarrow> held_ok b s'"
proof (induction rule: log_step.induct)
  case (runs now i s s')
  from runs(1) show ?case
  proof (cases rule: step_threadE)
    case (step pre t post ts d)
    with runs(2) have "at_work t" by (simp add: held_ok_def)
    from run_at_work [OF step(2) this] runs(2) step show ?thesis
      by (auto simp: held_ok_def)
  qed (use runs(2) in \<open>auto simp: held_ok_def\<close>)
qed (auto simp: held_ok_def ChangeErrLevel_def)

interpretation held_logs: step_invariant "log_step e" "held_ok b" for e b
  by unfold_locales (rule held_ok_step)

section \<open>Properties\<close>

text \<open>C37: Without a cache no record is lost or doubled: whatever goroutines run in whatever order, and whatever
  fails in the file system short of a crash, the lines handed in are the lines written, each once, and those
  that some goroutine still has in hand.\<close>

theorem records_never_lost:
  assumes "NewLogs e now (Some l) = Ret d" and "\<not> lc_Cache l" and "lc_CacheSize l = 0"
    and "(log_step e)\<^sup>*\<^sup>* (new_logs d) s"
  shows "mset (map (\<lambda>line. unescape (line @ ''\<newline>'')) (ls_lines s)) =
    mset (written s) + mset (map line_of (ls_threads s))"
proof -
  have "plain_ok (new_logs d)"
    using NewLogs_start [OF assms(1)] assms(2,3) by (simp add: plain_ok_def new_logs_def written_def)
  from plain_logs.reachable [OF assms(4) this] show ?thesis by (simp add: plain_ok_def)
qed

text \<open>The goroutines that take the mutex and do not give it back.\<close>

definition takes_mutex :: "LogData \<Rightarrow> thread \<Rightarrow> bool" where
  "takes_mutex d t =
     (case t of
        AtLock ts line \<Rightarrow> True
      | Caching line ks \<Rightarrow> int (length (buf_text d @ line)) \<ge> ld_size d
      | _ \<Rightarrow> False)"

text \<open>C38: With a cache no record ever reaches the file while the program is at work; the first record of a new
  file's time takes the mutex for good, and so does the record that fills the cache, and from then on the
  cache stays as it is and every later record is lost.\<close>

theorem cached_records_lost:
  assumes "NewLogs e now l = Ret d" and "\<forall>s. l = Some s \<longrightarrow> lc_Cache s \<or> lc_CacheSize s \<noteq> 0"
    and "(log_step e)\<^sup>*\<^sup>* (new_logs d) s"
  shows "written s = [] \<and>
    (\<forall>i k s'. step_thread e k i s = Some s' \<and> ls_crash s' = None \<and> takes_mutex (ls_data s) (ls_threads s ! i) \<longrightarrow>
       ld_mu (ls_data s')) \<and>
    (ld_mu (ls_data s) \<longrightarrow>
       (\<forall>s'. (log_step e)\<^sup>*\<^sup>* s s' \<longrightarrow> ld_mu (ls_data s') \<and> ld_buf (ls_data s') = ld_buf (ls_data s)))"
proof (intro conjI allI impI)
  have "cached_ok (new_logs d)"
    using NewLogs_start [OF assms(1)] assms(2) by (simp add: cached_ok_def new_logs_def written_def)
  then have ok: "cached_ok s" by (rule cached_logs.reachable [OF assms(3)])
  then show "written s = []" by (simp add: cached_ok_def)
  from ok have work: "list_all at_work (ls_threads s)" "ld_cache (ls_data s)"
    by (auto simp: cached_ok_def list_all_iff cache_thread_work)
  show "ld_mu (ls_data s')"
    if st: "step_thread e k i s = Some s' \<and> ls_crash s' = None \<and> takes_mutex (ls_data s) (ls_threads s ! i)" for i k s'
  proof -
    from st obtain ts d' where r: "run_thread e k (ls_threads s ! i) (ls_data s) = Some (Ret (ts, d'))"
      and s': "ls_data s' = d'" and i: "i < length (ls_threads s)"
      by (auto simp: step_thread_def split: if_splits option.splits go.splits)
    have "at_work (ls_threads s ! i)" using work(1) i by (simp add: list_all_length)
    from st run_at_work [OF r this] r work(2) have "ld_mu d'"
      by (auto simp: Let_def takes_mutex_def buf_text_def split: if_splits thread.splits option.splits)
    with s' show ?thesis by simp
  qed
  show "ld_mu (ls_data s')" "ld_buf (ls_data s') = ld_buf (ls_data s)"
    if "ld_mu (ls_data s)" "(log_step e)\<^sup>*\<^sup>* s s'" for s'
    using held_logs.reachable [OF that(2), of "ld_buf (ls_data s)"] that(1) work(1) by (simp_all add: held_ok_def)
qed

text \<open>A file system on which everything works, and two configurations.\<close>

definition easy_env :: log_env where
  "easy_env = \<lparr>le_format = (\<lambda>t f. f), le_start = (\<lambda>t f. Some 0), le_month = (\<lambda>t. t + 30 * TimeUnitDay), le_join = concat,
     le_json = (\<lambda>t l b. b), le_stat = (\<lambda>_. Exists), le_mkdir = (\<lambda>_. True), le_open = (\<lambda>_. True), le_write = (\<lambda>_. True)\<rparr>"

definition log_config :: "bool \<Rightarrow> int \<Rightarrow> LogStruct" where
  "log_config cache limit = \<lparr>lc_Cache = cache, lc_CacheSize = limit, lc_TimeFormat = [], lc_FileName = [], lc_FilePath = [],
     lc_Level = 0, lc_FileTime = [], lc_Dir = False, lc_DataType = DataTypeByte, lc_ErrFunc = True\<rparr>"

lemma easy_start:
  "\<exists>d. NewLogs e 0 (Some (log_config c z)) = Ret d \<and> ld_stamp d = TimeUnitDay \<and> ld_file d \<noteq> None \<and> ld_time d = TimeDaily \<and>
     \<not> ld_dir d \<and> (z \<noteq> 0 \<longrightarrow> ld_size d = z \<and> ld_buf d = Some [])"
  if "le_open e 0" "le_start e = le_start easy_env"
  using that
  by (simp add: NewLogs_def open_log_def checkStruct_def log_config_def initStamp_def easy_env_def upStamp_def Let_def
      time_defs)

lemma easy_ops: "le_open easy_env k" "le_write easy_env k"
  by (simp_all add: easy_env_def)

text \<open>The first record of a program without a cache, up to its goroutine.\<close>

lemma first_record:
  assumes "NewLogs e 0 (Some (log_config False 0)) = Ret d" "ld_stamp d = TimeUnitDay"
  shows "\<exists>s. (log_step e)\<^sup>*\<^sup>* (new_logs d) s \<and> ls_threads s = [Sending (''a'' @ ''\<newline>'') []] \<and>
    ls_lines s = [''a''] \<and> ls_crash s = None \<and> ls_data s = d"
proof -
  have c: "\<not> ld_cache d" using NewLogs_start [OF assms(1)] by (simp add: log_config_def)
  define s1 where "s1 = (new_logs d)\<lparr>ls_threads := [Logging 0 ''a''], ls_lines := [''a'']\<rparr>"
  define s2 where "s2 = s1\<lparr>ls_threads := [Sending (''a'' @ ''\<newline>'') []]\<rparr>"
  have 1: "log_step e (new_logs d) s1"
    using writes [where s = "new_logs d" and e = e and ts = 0 and line = "''a''"] by (simp add: new_logs_def s1_def)
  have 2: "log_step e s1 s2"
    by (rule runs [of _ 0 0]) (simp add: step_thread_def s1_def s2_def new_logs_def hand_over_def c assms(2) time_defs)
  from 1 2 have "(log_step e)\<^sup>*\<^sup>* (new_logs d) s2"
    by (meson converse_rtranclp_into_rtranclp rtranclp.rtrancl_refl)
  then show ?thesis by (intro exI [of _ s2]) (simp add: s2_def s1_def new_logs_def)
qed

theorem records_never_lost_witness:
  "\<exists>d s. (log_step easy_env)\<^sup>*\<^sup>* (new_logs d) s \<and> ls_lines s = [''a''] \<and> ls_threads s = [] \<and>
    mset (written s) = {#unescape (''a'' @ ''\<newline>'')#}"
proof -
  obtain d where d: "NewLogs easy_env 0 (Some (log_config False 0)) = Ret d" "ld_stamp d = TimeUnitDay" "ld_file d \<noteq> None"
    using easy_start [OF easy_ops(1) refl] by blast
  obtain s where s: "(log_step easy_env)\<^sup>*\<^sup>* (new_logs d) s" "ls_threads s = [Sending (''a'' @ ''\<newline>'') []]"
    "ls_lines s = [''a'']" "ls_crash s = None" "ls_data s = d"
    using first_record [OF d(1,2)] by blast
  have "\<exists>s'. step_thread easy_env 0 0 s = Some s' \<and> ls_threads s' = [] \<and> ls_lines s' = [''a'']"
    using s(2-5) d(3) by (auto simp: step_thread_def write_line_def Let_def easy_ops(2))
  then obtain s' where s': "step_thread easy_env 0 0 s = Some s'" "ls_threads s' = []" "ls_lines s' = [''a'']" by blast
  have run: "(log_step easy_env)\<^sup>*\<^sup>* (new_logs d) s'" by (rule rtranclp.rtrancl_into_rtrancl [OF s(1) runs [OF s'(1)]])
  have "mset (map (\<lambda>line. unescape (line @ ''\<newline>'')) (ls_lines s')) = mset (written s') + mset (map line_of (ls_threads s'))"
    by (rule records_never_lost [OF d(1) _ _ run]) (simp_all add: log_config_def)
  with run s'(2,3) show ?thesis by (intro exI [of _ d] exI [of _ s']) simp
qed

theorem cached_records_lost_witness:
  "\<exists>d s. (log_step easy_env)\<^sup>*\<^sup>* (new_logs d) s \<and> ls_lines s = [''a''] \<and> ld_buf (ls_data s) = Some (''a'' @ ''\<newline>'') \<and>
    written s = [] \<and> (\<forall>s'. (log_step easy_env)\<^sup>*\<^sup>* s s' \<longrightarrow> ld_mu (ls_data s') \<and> ld_buf (ls_data s') = ld_buf (ls_data s))"
proof -
  obtain d where d: "NewLogs easy_env 0 (Some (log_config True 1)) = Ret d" "ld_stamp d = TimeUnitDay" "ld_size d = 1" "ld_buf d = Some []"
    using easy_start [OF easy_ops(1) refl, of True 1] by auto
  have c: "ld_cache d" "\<not> ld_mu d" using NewLogs_start [OF d(1)] by (simp_all add: log_config_def)
  define s1 where "s1 = (new_logs d)\<lparr>ls_threads := [Logging 0 ''a''], ls_lines := [''a'']\<rparr>"
  define s2 where "s2 = s1\<lparr>ls_threads := [Caching (''a'' @ ''\<newline>'') []]\<rparr>"
  define s3 where "s3 = s2\<lparr>ls_data := d\<lparr>ld_buf := Some (''a'' @ ''\<newline>''), ld_mu := True\<rparr>,
    ls_threads := [Caching (''a'' @ ''\<newline>'') [Outer]]\<rparr>"
  have 1: "log_step easy_env (new_logs d) s1"
    using writes [where s = "new_logs d" and e = easy_env and ts = 0 and line = "''a''"] by (simp add: new_logs_def s1_def)
  have 2: "log_step easy_env s1 s2"
    by (rule runs [of _ 0 0])
      (simp add: step_thread_def s1_def s2_def new_logs_def hand_over_def c d(2) TimeUnitDay_def TimeUnitHour_def TimeUnitMinute_def)
  have 3: "log_step easy_env s2 s3"
    by (rule runs [of _ 0 0]) (simp add: step_thread_def s1_def s2_def s3_def new_logs_def c d(3,4) Let_def)
  from 1 2 3 have run: "(log_step easy_env)\<^sup>*\<^sup>* (new_logs d) s3" by (meson converse_rtranclp_into_rtranclp rtranclp.rtrancl_refl)
  have mu: "ld_mu (ls_data s3)" "ls_lines s3 = [''a'']" "ld_buf (ls_data s3) = Some (''a'' @ ''\<newline>'')"
    by (simp_all add: s3_def s2_def s1_def)
  have "\<forall>s. Some (log_config True 1) = Some s \<longrightarrow> lc_Cache s \<or> lc_CacheSize s \<noteq> 0" by (simp add: log_config_def)
  from cached_records_lost [OF d(1) this run] run mu show ?thesis by blast
qed


text \<open>Two goroutines that write the first records of a new day at the same time: the first opens the new file and
  gives the mutex back, the second sees that there is nothing to do and returns without giving it back. From
  then on no goroutine that finds the next day begun can ever go on.\<close>

lemma rotation_race:
  assumes "ls_threads s = AtLock t1 line1 # AtLock t2 line2 # rest" and "list_all at_work rest"
    and "ls_crash s = None" and "\<not> ld_mu (ls_data s)" and "\<not> ld_cache (ls_data s)" and "\<not> ld_dir (ls_data s)"
    and "ld_time (ls_data s) = TimeDaily" and "ld_stamp (ls_data s) \<le> t1" and "t2 < ld_stamp (ls_data s) + TimeUnitDay"
    and "le_open e (ld_ops (ls_data s))"
  shows "\<exists>s1 s2. step_thread e k1 0 s = Some s1 \<and> step_thread e k2 1 s1 = Some s2 \<and> ls_crash s2 = None \<and>
    (\<forall>s3. (log_step e)\<^sup>*\<^sup>* s2 s3 \<longrightarrow> ld_mu (ls_data s3) \<and>
       (\<forall>i k ts line. i < length (ls_threads s3) \<and> ls_threads s3 ! i = AtLock ts line \<longrightarrow> step_thread e k i s3 = None))"
proof -
  obtain s1 where 1: "step_thread e k1 0 s = Some s1" "ls_crash s1 = None" "\<not> ld_mu (ls_data s1)" "\<not> ld_cache (ls_data s1)"
    "ld_stamp (ls_data s1) = ld_stamp (ls_data s) + TimeUnitDay"
    "ls_threads s1 = Sending (line1 @ ''\<newline>'') [] # AtLock t2 line2 # rest"
    using assms
    by (simp add: step_thread_def Let_def open_log_def unlock_def upStamp_def time_defs hand_over_def)
  obtain s2 where 2: "step_thread e k2 1 s1 = Some s2" "ls_crash s2 = None" "ld_mu (ls_data s2)"
    "ls_threads s2 = Sending (line1 @ ''\<newline>'') [] # Sending (line2 @ ''\<newline>'') [] # rest"
    using 1 assms(9) by (simp add: step_thread_def Let_def hand_over_def)
  have "held_ok (ld_buf (ls_data s2)) s2"
    using 2 assms(2) by (simp add: held_ok_def)
  then have "(log_step e)\<^sup>*\<^sup>* s2 s3 \<Longrightarrow> ld_mu (ls_data s3)" for s3
    using held_logs.reachable by (simp add: held_ok_def)
  then show ?thesis using 1(1) 2(1,2) by (auto simp: step_thread_def)
qed

lemma rotation_race_witness:
  "\<exists>s s1 s2. ls_threads s = [AtLock (25 * 60 * 60) ''a'', AtLock (25 * 60 * 60) ''b''] \<and>
    step_thread easy_env 0 0 s = Some s1 \<and> step_thread easy_env 0 1 s1 = Some s2 \<and> ls_crash s2 = None \<and>
    (\<forall>s3. (log_step easy_env)\<^sup>*\<^sup>* s2 s3 \<longrightarrow> ld_mu (ls_data s3) \<and>
       (\<forall>i k ts line. i < length (ls_threads s3) \<and> ls_threads s3 ! i = AtLock ts line \<longrightarrow> step_thread easy_env k i s3 = None))"
proof -
  obtain d where d: "NewLogs easy_env 0 (Some (log_config False 0)) = Ret d" "ld_stamp d = TimeUnitDay"
    "ld_time d = TimeDaily" "\<not> ld_dir d"
    using easy_start [OF easy_ops(1) refl] by blast
  have c: "\<not> ld_cache d" "\<not> ld_mu d" using NewLogs_start [OF d(1)] by (simp_all add: log_config_def)
  define s where "s = (new_logs d)\<lparr>ls_threads := [AtLock (25 * 60 * 60) ''a'', AtLock (25 * 60 * 60) ''b'']\<rparr>"
  have s: "ls_threads s = AtLock (25 * 60 * 60) ''a'' # AtLock (25 * 60 * 60) ''b'' # []" "ls_data s = d" "ls_crash s = None"
    by (simp_all add: s_def new_logs_def)
  have "\<exists>s1 s2. step_thread easy_env 0 0 s = Some s1 \<and> step_thread easy_env 0 1 s1 = Some s2 \<and> ls_crash s2 = None \<and>
    (\<forall>s3. (log_step easy_env)\<^sup>*\<^sup>* s2 s3 \<longrightarrow> ld_mu (ls_data s3) \<and>
       (\<forall>i k ts line. i < length (ls_threads s3) \<and> ls_threads s3 ! i = AtLock ts line \<longrightarrow> step_thread easy_env k i s3 = None))"
    by (rule rotation_race [OF s(1)]) (simp_all add: s(2,3) c d(2-4) easy_ops time_defs)
  with s(1) show ?thesis by blast
qed

section \<open>When writing fails\<close>

lemma return_to_function: "return_to e now ks d = Ret (ts, d') \<Longrightarrow> ld_function d' = ld_function d"
proof (induction e now ks d arbitrary: ts rule: return_to.induct)
  case (3 e now line ks d)
  have up: "open_log e now k = Ret k1 \<Longrightarrow> same_log k (upStamp e k1)" for k k1
    using open_log_same same_log_trans upStamp_same by blast
  from 3 show ?case
    by (auto simp: buf_reset_def unlock_def go_bind_Ret_iff same_log_def split: option.splits if_splits dest!: up)
qed (auto simp: buf_reset_def unlock_def go_bind_Ret_iff split: option.splits if_splits)

lemma run_function: "run_thread e now t d = Some (Ret (ts, d')) \<Longrightarrow> ld_function d' = ld_function d"
proof (induction t arbitrary: ts d')
  case (AtLock ts' line)
  have up: "open_log e now k = Ret k1 \<Longrightarrow> same_log k (upStamp e k1)" for k k1
    using open_log_same same_log_trans upStamp_same by blast
  from AtLock show ?case
    by (auto simp: Let_def unlock_def go_bind_Ret_iff same_log_def split: if_splits dest!: up)
next
  case (Resetting s k ks)
  from Resetting obtain d1 where 1: "open_log e now d = Ret d1"
    and w: "(case write_line e s d1 of (True, d) \<Rightarrow> return_to e now ks d
      | (False, d) \<Rightarrow> if k \<ge> 4 \<and> \<not> ld_function d then Panic NilDereference
                     else Ret ([Resetting s (k + 1) ks], d)) = Ret (ts, d')"
    by (auto simp only: run_thread.simps go_bind_Ret_iff option.inject)
  obtain ok d2 where 2: "write_line e s d1 = (ok, d2)" by fastforce
  with w open_log_same [OF 1] write_line_out [OF 2] show ?case
    by (cases ok) (auto simp: same_log_def split: if_splits dest: return_to_function)
next
  case (Sending s ks)
  obtain ok d2 where 2: "write_line e (unescape s) d = (ok, d2)" by fastforce
  from Sending 2 write_line_out [OF 2] show ?case
    by (cases ok) (auto simp: same_log_def dest: return_to_function)
qed (fastforce simp: Let_def go_bind_Ret_iff split: if_splits option.splits dest: return_to_function)+

lemma step_function:
  assumes "log_step e s s'"
  shows "ld_function (ls_data s') = ld_function (ls_data s)"
  using assms
proof (cases rule: log_step.cases)
  case (runs now i)
  then show ?thesis by (cases rule: step_threadE) (auto dest: run_function)
qed (auto simp: ChangeErrLevel_def)

interpretation function_logs: step_invariant "log_step e" "\<lambda>s. ld_function (ls_data s) = b" for e b
  by unfold_locales (simp add: step_function)

text \<open>A state in which goroutine \<open>i\<close> is in its \<open>k\<close>-th reset on a disk on which files open and writes fail.\<close>

definition resetting :: "nat \<Rightarrow> string \<Rightarrow> nat \<Rightarrow> LogSys \<Rightarrow> bool" where
  "resetting i data k s \<longleftrightarrow> i < length (ls_threads s) \<and> ls_threads s ! i = Resetting data k [] \<and> ls_crash s = None \<and>
     \<not> ld_function (ls_data s) \<and> \<not> ld_dir (ls_data s)"

lemma resetting_step:
  assumes "resetting i data k s" "\<And>k. le_open e k" "\<And>k. \<not> le_write e k"
  shows "\<exists>s'. log_step e s s' \<and> (if k \<ge> 4 then ls_crash s' = Some NilDereference else resetting i data (Suc k) s')"
proof -
  have "\<exists>s'. step_thread e now i s = Some s' \<and>
      (if k \<ge> 4 then ls_crash s' = Some NilDereference else resetting i data (Suc k) s')" for now
    using assms
    by (auto simp: resetting_def step_thread_def open_log_def Let_def write_line_def nth_append)
  then show ?thesis using runs by blast
qed

text \<open>When writing fails five times in a row the program crashes, whether or not it was given a function to call
  in that case: the function is never installed, and \<open>reset\<close> calls it all the same.\<close>

lemma failing_disk_crashes:
  assumes "NewLogs e now l = Ret d" and "(log_step e)\<^sup>*\<^sup>* (new_logs d) s"
    and "i < length (ls_threads s)" and "ls_threads s ! i = Sending data []" and "ls_crash s = None"
    and "\<not> ld_dir (ls_data s)" and "\<And>k. le_open e k" and "\<And>k. \<not> le_write e k"
  shows "\<exists>s'. (log_step e)\<^sup>*\<^sup>* s s' \<and> ls_crash s' = Some NilDereference"
proof -
  have f: "\<not> ld_function (ls_data s)"
    using function_logs.reachable [OF assms(2), of False] NewLogs_start(3) [OF assms(1)] by (simp add: new_logs_def)
  have "\<exists>s1. step_thread e now i s = Some s1 \<and> resetting i (unescape data) 1 s1"
    using assms(3-8) f
    by (auto simp: step_thread_def write_line_def Let_def resetting_def nth_append split: option.splits)
  then obtain s1 where 1: "log_step e s s1" "resetting i (unescape data) 1 s1" using runs by blast
  note step = resetting_step [OF _ assms(7,8)]
  from step [OF 1(2)] obtain s2 where 2: "log_step e s1 s2" "resetting i (unescape data) 2 s2" by (auto simp: numeral_2_eq_2)
  from step [OF 2(2)] obtain s3 where 3: "log_step e s2 s3" "resetting i (unescape data) 3 s3" by auto
  from step [OF 3(2)] obtain s4 where 4: "log_step e s3 s4" "resetting i (unescape data) 4 s4" by auto
  from step [OF 4(2)] obtain s5 where 5: "log_step e s4 s5" "ls_crash s5 = Some NilDereference" by auto
  from 1(1) 2(1) 3(1) 4(1) 5(1) have "(log_step e)\<^sup>*\<^sup>* s s5"
    by (meson converse_rtranclp_into_rtranclp rtranclp.rtrancl_refl)
  with 5(2) show ?thesis by blast
qed

lemma failing_disk_crashes_witness:
  "\<exists>d s s'. NewLogs (easy_env\<lparr>le_write := \<lambda>_. False\<rparr>) 0 (Some (log_config False 0)) = Ret d \<and>
    (log_step (easy_env\<lparr>le_write := \<lambda>_. False\<rparr>))\<^sup>*\<^sup>* (new_logs d) s \<and> ls_lines s = [''a''] \<and>
    (log_step (easy_env\<lparr>le_write := \<lambda>_. False\<rparr>))\<^sup>*\<^sup>* s s' \<and> ls_crash s' = Some NilDereference"
proof -
  let ?e = "easy_env\<lparr>le_write := \<lambda>_. False\<rparr>"
  have e: "le_open ?e k" "\<not> le_write ?e k" "le_start ?e = le_start easy_env" for k by (simp_all add: easy_env_def)
  obtain d where d: "NewLogs ?e 0 (Some (log_config False 0)) = Ret d" "ld_stamp d = TimeUnitDay" "\<not> ld_dir d"
    using easy_start [OF e(1,3)] by blast
  obtain s where s: "(log_step ?e)\<^sup>*\<^sup>* (new_logs d) s" "ls_threads s = [Sending (''a'' @ ''\<newline>'') []]"
    "ls_lines s = [''a'']" "ls_crash s = None" "ls_data s = d"
    using first_record [OF d(1,2)] by blast
  have "\<exists>s'. (log_step ?e)\<^sup>*\<^sup>* s s' \<and> ls_crash s' = Some NilDereference"
    by (rule failing_disk_crashes [OF d(1) s(1), where i = 0]) (use s d(3) e in simp_all)
  with d(1) s(1,3) show ?thesis by blast
qed

section \<open>Leaving\<close>

text \<open>\<open>exit\<close> with a cache: what the cache holds is written, and the file is closed; the cache is not emptied.\<close>

lemma exit_saves_cache:
  assumes "ld_cache d" "\<not> ld_mu d" "ld_buf d = Some b" "ld_file d = Some f" "le_write e (ld_ops d)"
  shows "\<exists>t d1 d2. run_thread e now Exiting d = Some (Ret ([t], d1)) \<and> run_thread e now' t d1 = Some (Ret ([], d2)) \<and>
    ld_out d2 = ld_out d @ [(f, unescape b)] \<and> ld_file d2 = None \<and> \<not> ld_mu d2 \<and> ld_buf d2 = Some b"
  using assms by (simp add: buf_text_def write_line_def unlock_def Let_def)

text \<open>So a second \<open>exit\<close> writes the same records again, into the file that the failed write opens.\<close>

lemma second_exit_writes_again:
  assumes "ld_cache d" "\<not> ld_mu d" "ld_buf d = Some b" "ld_file d = None"
    and "open_log e now (d\<lparr>ld_mu := True, ld_ops := Suc (ld_ops d)\<rparr>) = Ret d1" "ld_file d1 = Some f" "le_write e (ld_ops d1)"
  shows "\<exists>t u e1 e2 e3. run_thread e now Exiting d = Some (Ret ([t], e1)) \<and> run_thread e now t e1 = Some (Ret ([u], e2)) \<and>
    run_thread e now u e2 = Some (Ret ([], e3)) \<and> ld_out e3 = ld_out d @ [(f, unescape b)]"
  using assms open_log_same [OF assms(5)]
  by (simp add: buf_text_def write_line_def unlock_def Let_def same_log_def)

text \<open>\<open>WritePanic\<close> in a program without a cache: the file can be closed before the new goroutine has written the
  record, whose write then fails and opens the file again.\<close>

lemma WritePanic_closes_first:
  assumes "\<not> ld_cache d" "now < ld_stamp d"
  shows "\<exists>t line d2. run_thread e now t d = Some (Ret ([Sending line [], Exiting], d)) \<and> WritePanic e now err body d = [t] \<and>
    run_thread e now Exiting d = Some (Ret ([], d\<lparr>ld_file := None\<rparr>)) \<and>
    run_thread e now (Sending line []) (d\<lparr>ld_file := None\<rparr>) = Some (Ret ([Resetting (unescape line) 1 []], d2)) \<and>
    ld_out d2 = ld_out d"
  using assms
  by (simp add: WritePanic_def put_log_def hand_over_def after_put_def write_line_def Let_def)

end
