(* ===== verification/Common.thy ===== *)
theory Common
  imports Numerals
begin

text \<open>
  Package common: rows of a text chosen by what they contain (comm.go), the address of the machine (address.go),
  keys and signatures (decode.go), and what becomes of recovered panics (recover.go), whose goroutines are the steps
  of a relation. The library of cryptography is a parameter, \<open>crypto\<close>, and so is the shell; the rows of a text are those of
  \<open>strings.Split\<close> for any separator.
\<close>

section \<open>Commands\<close>

text \<open>
  Running a command: \<open>sh\<close> is the operating system, which from a program and its arguments makes the combined output and
  the error. The last of the three functions drops the error.
\<close>

type_synonym shell = "string \<Rightarrow> string list \<Rightarrow> byte list \<times> error option"

definition CmdRunOutput :: "shell \<Rightarrow> string \<Rightarrow> byte list \<times> error option" where
  "CmdRunOutput sh str = sh ''bash'' [''-c'', str]"

definition CmdRunEnd :: "shell \<Rightarrow> string \<Rightarrow> error option" where
  "CmdRunEnd sh str = snd (sh ''bash'' [''-c'', str])"

definition CmdSendRun :: "shell \<Rightarrow> string \<Rightarrow> unit" where
  "CmdSendRun sh str = (let err = snd (sh ''bash'' [''-c'', str]) in ())"

section \<open>Splitting and searching\<close>

text \<open>\<open>strings.Contains\<close> and \<open>bytes.Contains\<close>.\<close>

fun contains :: "'a list \<Rightarrow> 'a list \<Rightarrow> bool" where
  "contains sub [] \<longleftrightarrow> sub = []"
| "contains sub (x # xs) \<longleftrightarrow> take (length sub) (x # xs) = sub \<or> contains sub xs"

text \<open>\<open>strings.Split\<close> and \<open>bytes.Split\<close>; \<open>acc\<close> is the row so far. An empty separator cuts after every character.\<close>

function split_go :: "'a list \<Rightarrow> 'a list \<Rightarrow> 'a list \<Rightarrow> 'a list list" where
  "split_go sep acc s =
     (if sep \<noteq> [] \<and> take (length sep) s = sep then acc # split_go sep [] (drop (length sep) s)
      else (case s of [] \<Rightarrow> [acc] | c # cs \<Rightarrow> split_go sep (acc @ [c]) cs))"
  by pat_completeness auto
termination
proof (relation "measure (\<lambda>(sep, acc, s). length s)", goal_cases)
  case (2 sep acc s)
  then have "s \<noteq> []" "0 < length sep" by auto
  then show ?case by simp
qed auto

declare split_go.simps [simp del]

definition split_str :: "'a list \<Rightarrow> 'a list \<Rightarrow> 'a list list" where
  "split_str sep s = (if sep = [] then map (\<lambda>c. [c]) s else split_go sep [] s)"

fun rows_containing :: "'a list \<Rightarrow> 'a list list \<Rightarrow> 'a list list" where
  "rows_containing contain [] = []"
| "rows_containing contain (row # rows) =
     (if row = [] then rows_containing contain rows
      else if contains contain row then row # rows_containing contain rows
      else rows_containing contain rows)"

definition ByteSplitContain :: "byte list \<Rightarrow> byte list \<Rightarrow> byte list \<Rightarrow> byte list list" where
  "ByteSplitContain bts split contain = rows_containing contain (split_str split bts)"

definition StrSplitContain :: "string \<Rightarrow> string \<Rightarrow> string \<Rightarrow> string list" where
  "StrSplitContain str split contain = rows_containing contain (split_str split str)"

fun rows_without :: "string \<Rightarrow> string list \<Rightarrow> string list" where
  "rows_without contain [] = []"
| "rows_without contain (row # rows) =
     (if row = [] then rows_without contain rows
      else if \<not> contains contain row then row # rows_without contain rows
      else rows_without contain rows)"

definition StrSplitUnContain :: "string \<Rightarrow> string \<Rightarrow> string \<Rightarrow> string list" where
  "StrSplitUnContain str split contain = rows_without contain (split_str split str)"

fun has_number :: "string \<Rightarrow> bool" where
  "has_number [] \<longleftrightarrow> False"
| "has_number (r # row) \<longleftrightarrow> is_digit r \<or> has_number row"

fun rows_unnumbered :: "string list \<Rightarrow> string list" where
  "rows_unnumbered [] = []"
| "rows_unnumbered (row # rows) =
     (if row = [] then rows_unnumbered rows
      else if has_number row then rows_unnumbered rows
      else row # rows_unnumbered rows)"

definition StrSplitUnNumber :: "string \<Rightarrow> string \<Rightarrow> string list" where
  "StrSplitUnNumber str split = rows_unnumbered (split_str split str)"

lemma contains_iff: "contains sub s \<longleftrightarrow> (\<exists>a b. s = a @ sub @ b)"
proof (induction s)
  case (Cons x xs)
  show ?case
  proof
    assume "contains sub (x # xs)"
    then consider "take (length sub) (x # xs) = sub" | "contains sub xs" by auto
    then show "\<exists>a b. x # xs = a @ sub @ b"
    proof cases
      case 1
      then have "x # xs = [] @ sub @ drop (length sub) (x # xs)"
        by (metis append_Nil append_take_drop_id)
      then show ?thesis by blast
    next
      case 2
      with Cons.IH obtain a b where "xs = a @ sub @ b" by blast
      then have "x # xs = (x # a) @ sub @ b" by simp
      then show ?thesis by blast
    qed
  next
    assume "\<exists>a b. x # xs = a @ sub @ b"
    then obtain a b where ab: "x # xs = a @ sub @ b" by blast
    show "contains sub (x # xs)"
    proof (cases a)
      case Nil
      with ab have "take (length sub) (x # xs) = sub" by simp
      then show ?thesis by simp
    next
      case (Cons y a')
      with ab have "xs = a' @ sub @ b" by simp
      with Cons.IH show ?thesis by auto
    qed
  qed
qed auto

text \<open>Joining the rows with the separator gives the text back.\<close>

fun join_str :: "'a list \<Rightarrow> 'a list list \<Rightarrow> 'a list" where
  "join_str sep [] = []"
| "join_str sep [f] = f"
| "join_str sep (f # fs) = f @ sep @ join_str sep fs"

lemma join_str_Cons: "fs \<noteq> [] \<Longrightarrow> join_str sep (f # fs) = f @ sep @ join_str sep fs"
  by (cases fs) auto

lemma split_go_ne [simp]: "split_go sep acc s \<noteq> []"
  by (induction sep acc s rule: split_go.induct) (subst split_go.simps, auto split: list.splits)

lemma join_split_go: "join_str sep (split_go sep acc s) = acc @ s"
proof (induction sep acc s rule: split_go.induct)
  case (1 sep acc s)
  show ?case
  proof (cases "sep \<noteq> [] \<and> take (length sep) s = sep")
    case True
    with 1(1) have "join_str sep (split_go sep acc s) = acc @ sep @ drop (length sep) s"
      by (subst split_go.simps) (simp add: join_str_Cons)
    also have "sep @ drop (length sep) s = s"
      using True by (metis append_take_drop_id)
    finally show ?thesis .
  next
    case False
    with 1(2) show ?thesis
      by (subst split_go.simps) (auto split: list.splits)
  qed
qed

lemma join_split_str: "sep \<noteq> [] \<Longrightarrow> join_str sep (split_str sep s) = s"
  by (simp add: split_str_def join_split_go)

lemma rows_containing_filter: "rows_containing c rows = filter (\<lambda>r. r \<noteq> [] \<and> contains c r) rows"
  by (induction rows) auto

lemma rows_without_filter: "rows_without c rows = filter (\<lambda>r. r \<noteq> [] \<and> \<not> contains c r) rows"
  by (induction rows) auto

text \<open>Every row that is not empty is in exactly one of the two choices.\<close>

lemma contain_or_not:
  "mset (StrSplitContain str sep c) + mset (StrSplitUnContain str sep c) = mset (filter (\<lambda>r. r \<noteq> []) (split_str sep str))"
proof -
  have "filter (\<lambda>r. r \<noteq> [] \<and> P r) rows = filter P (filter (\<lambda>r. r \<noteq> []) rows)" for P :: "string \<Rightarrow> bool" and rows
    by (auto simp: conj_commute)
  then show ?thesis
    by (simp add: StrSplitContain_def StrSplitUnContain_def rows_containing_filter rows_without_filter
        del: filter_filter flip: multiset_partition)
qed

section \<open>The address of the machine\<close>

text \<open>Of an address the code asks whether it is a loopback, whether it is of version 4, and its text.\<close>

datatype address = IPNet bool bool string | OtherAddr

fun first_address :: "address list \<Rightarrow> string option" where
  "first_address [] = None"
| "first_address (IPNet loopback v4 text # addrs) =
     (if \<not> loopback \<and> v4 then Some text else first_address addrs)"
| "first_address (OtherAddr # addrs) = first_address addrs"

definition GetLocalIp :: "error + address list \<Rightarrow> error + string" where
  "GetLocalIp addrs =
     (case addrs of
        Inl err \<Rightarrow> Inl err
      | Inr addrs \<Rightarrow>
          (case first_address addrs of
             Some ip \<Rightarrow> Inr ip
           | None \<Rightarrow> Inl ''can not find the client ip address''))"

section \<open>Keys and signatures\<close>

definition ErrDecodePriKey :: error where "ErrDecodePriKey = ''decode private key string error''"
definition ErrParsePriKey :: error where "ErrParsePriKey = ''can not parse private key type''"
definition ErrAssertionPri :: error where "ErrAssertionPri = ''could not parse key to *rsa.PrivateKey''"
definition ErrDecodePubKey :: error where "ErrDecodePubKey = ''decode public key string error''"
definition ErrAssertionPub :: error where "ErrAssertionPub = ''could not parse key to *rsa.PublickKey''"

text \<open>
  \<open>cy_pem\<close> gives the type and the bytes of the first block; a parser gives a key of RSA, or \<^const>\<open>None\<close> for a key
  of another kind; \<open>cy_sign\<close> and \<open>cy_verify\<close> work on the hash.
\<close>

record ('pri, 'pub) crypto =
  cy_pem :: "byte list \<Rightarrow> (string \<times> byte list) option"
  cy_pkcs1 :: "byte list \<Rightarrow> error + 'pri"
  cy_pkcs8 :: "byte list \<Rightarrow> error + 'pri option"
  cy_cert :: "byte list \<Rightarrow> error + 'pub option"
  cy_pkix :: "byte list \<Rightarrow> error + 'pub option"
  cy_sha256 :: "byte list \<Rightarrow> byte list"
  cy_sign :: "'pri \<Rightarrow> byte list \<Rightarrow> error + byte list"
  cy_verify :: "'pub \<Rightarrow> byte list \<Rightarrow> byte list \<Rightarrow> error option"

definition ParsePrivateKey :: "('pri, 'pub) crypto \<Rightarrow> byte list \<Rightarrow> error + 'pri" where
  "ParsePrivateKey cy data =
     (case cy_pem cy data of
        None \<Rightarrow> Inl ErrDecodePriKey
      | Some (typ', bts) \<Rightarrow>
          let parsed = (if typ' = ''RSA PRIVATE KEY'' then Some (map_sum id Some (cy_pkcs1 cy bts))
                        else if typ' = ''PRIVATE KEY'' then Some (cy_pkcs8 cy bts)
                        else None)
          in case parsed of
               None \<Rightarrow> Inl ErrParsePriKey
             | Some (Inl err) \<Rightarrow> Inl err
             | Some (Inr (Some pri)) \<Rightarrow> Inr pri
             | Some (Inr None) \<Rightarrow> Inl ErrAssertionPri)"

definition ParsePublicKey :: "('pri, 'pub) crypto \<Rightarrow> byte list \<Rightarrow> (error + 'pub) go" where
  "ParsePublicKey cy data =
     (case cy_pem cy data of
        None \<Rightarrow> Ret (Inl ErrDecodePubKey)
      | Some (typ', bts) \<Rightarrow>
          if typ' = ''CERTIFICATE'' then
            (case cy_cert cy bts of
               Inr (Some pub) \<Rightarrow> Ret (Inr pub)
             | Inr None \<Rightarrow> Panic BadAssertion
             | Inl _ \<Rightarrow> Ret (Inl ErrAssertionPub))
          else if typ' = ''PUBLIC KEY'' then
            (case cy_pkix cy bts of
               Inr (Some pub) \<Rightarrow> Ret (Inr pub)
             | _ \<Rightarrow> Ret (Inl ErrAssertionPub))
          else Ret (Inl ErrAssertionPub))"

definition SignRSAData :: "('pri, 'pub) crypto \<Rightarrow> byte list \<Rightarrow> 'pri \<Rightarrow> error + byte list" where
  "SignRSAData cy data priKey = cy_sign cy priKey (cy_sha256 cy data)"

definition VerifySignRSA :: "('pri, 'pub) crypto \<Rightarrow> byte list \<Rightarrow> 'pub \<Rightarrow> error option" where
  "VerifySignRSA cy data pubKey = cy_verify cy pubKey (cy_sha256 cy data) data"

text \<open>
  The data are verified against themselves as the signature: when a verification refuses signatures that are not
  as long as the key, data of any other length are refused, signed or not.
\<close>

lemma signed_data_refused:
  assumes "\<And>pub h s. length s \<noteq> key_size pub \<Longrightarrow> cy_verify cy pub h s \<noteq> None"
    and "SignRSAData cy data priKey = Inr sig" and "length data \<noteq> key_size pubKey"
  shows "VerifySignRSA cy data pubKey \<noteq> None"
  using assms(1) [OF assms(3)] by (simp add: VerifySignRSA_def)

section \<open>Recovered panics\<close>

text \<open>The stack as rows, with the text of the error; \<open>debug.Stack()\<close> and the time are arguments.\<close>

record RecoverStack =
  rv_Path :: "string list"
  rv_Msg :: string
  rv_Time :: int

definition ParseStackErr :: "byte list \<Rightarrow> string list" where
  "ParseStackErr bts =
     map (\<lambda>row. hd (split_on (CHR '' '') (string_of_bytes row)))
       (filter (contains (bytes_of_string ''/src/'')) (split_str (bytes_of_string ''\<newline>'') bts))"

definition GetRunPath :: "(string \<times> nat) option \<Rightarrow> string" where
  "GetRunPath caller =
     (case caller of
        Some (file', line) \<Rightarrow>
          (case split_str ''go/src'' file' of
             [_, path] \<Rightarrow> path @ '':'' @ show_nat line
           | _ \<Rightarrow> file' @ '':'' @ show_nat line)
      | None \<Rightarrow> ''???'')"

text \<open>
  Every recovered panic is reported by a goroutine of its own: about to count itself, offering its stack to the
  channel, about to print that there are too many, or about to leave and uncount itself. The history keeps the stacks
  that were recovered, read from the channel, and printed.
\<close>

datatype reporter = Starting RecoverStack | Offering RecoverStack | TooMany RecoverStack | Leaving

record RecoverSys =
  rs_num :: uint32
  rs_chan :: "RecoverStack list"
  rs_threads :: "reporter list"
  rs_stacks :: "RecoverStack list"
  rs_read :: "RecoverStack list"
  rs_printed :: "RecoverStack list"

definition new_recover :: RecoverSys where
  "new_recover = \<lparr>rs_num = 0, rs_chan = [], rs_threads = [], rs_stacks = [], rs_read = [], rs_printed = []\<rparr>"

fun run_reporter :: "reporter \<Rightarrow> RecoverSys \<Rightarrow> (reporter list \<times> RecoverSys) option" where
  "run_reporter (Starting v) s =
     (let num = rs_num s + 1
      in Some ([if 20 <s num then TooMany v else Offering v], s\<lparr>rs_num := num\<rparr>))"
| "run_reporter (Offering v) s =
     (if length (rs_chan s) < 1 then Some ([Leaving], s\<lparr>rs_chan := rs_chan s @ [v]\<rparr>) else None)"
| "run_reporter (TooMany v) s = Some ([Leaving], s\<lparr>rs_printed := rs_printed s @ [v]\<rparr>)"
| "run_reporter Leaving s = Some ([], s\<lparr>rs_num := rs_num s - 1\<rparr>)"

inductive recover_step :: "RecoverSys \<Rightarrow> RecoverSys \<Rightarrow> bool" where
  recovers: "recover_step s (s\<lparr>rs_threads := rs_threads s @ [Starting v], rs_stacks := rs_stacks s @ [v]\<rparr>)"
| reads: "rs_chan s = v # vs \<Longrightarrow> recover_step s (s\<lparr>rs_chan := vs, rs_read := rs_read s @ [v]\<rparr>)"
| runs: "rs_threads s = ts1 @ t # ts2 \<Longrightarrow> run_reporter t s = Some (ts, s') \<Longrightarrow>
    recover_step s (s'\<lparr>rs_threads := ts1 @ ts @ ts2\<rparr>)"

fun stack_of :: "reporter \<Rightarrow> RecoverStack list" where
  "stack_of (Starting v) = [v]"
| "stack_of (Offering v) = [v]"
| "stack_of (TooMany v) = [v]"
| "stack_of Leaving = []"

fun counted :: "reporter \<Rightarrow> bool" where
  "counted (Starting v) = False"
| "counted _ = True"

fun offering :: "reporter \<Rightarrow> bool" where
  "offering (Offering v) = True"
| "offering _ = False"

definition recover_ok :: "RecoverSys \<Rightarrow> bool" where
  "recover_ok s \<longleftrightarrow>
     length (rs_chan s) \<le> 1 \<and>
     rs_num s = of_nat (length (filter counted (rs_threads s))) \<and>
     length (rs_threads s) \<le> length (rs_stacks s) \<and>
     (length (rs_stacks s) < 2 ^ 31 \<longrightarrow> length (filter offering (rs_threads s)) \<le> 20) \<and>
     mset (rs_stacks s) =
       mset (rs_read s) + mset (rs_chan s) + mset (rs_printed s) + mset (concat (map stack_of (rs_threads s)))"

lemma offering_counted: "length (filter offering ts) \<le> length (filter counted ts)"
proof (induction ts)
  case (Cons t ts)
  then show ?case by (cases t) auto
qed simp

lemma signed_above:
  assumes "n < 2 ^ 31"
  shows "20 <s (of_nat n :: uint32) \<longleftrightarrow> 20 < n"
proof -
  have "sint (of_nat n :: uint32) = int n"
    using assms by (simp add: signed_of_nat signed_take_bit_int_eq_self)
  then show ?thesis by (simp add: word_sless_alt)
qed

lemma recover_ok_step:
  assumes "recover_step s s'" and "recover_ok s"
  shows "recover_ok s'"
  using assms(1)
proof cases
  case (recovers v)
  with assms(2) show ?thesis by (auto simp: recover_ok_def)
next
  case (reads v vs)
  with assms(2) show ?thesis by (auto simp: recover_ok_def)
next
  case (runs ts1 t ts2 ts s1)
  show ?thesis
  proof (cases t)
    case (Starting v)
    let ?c = "length (filter counted (rs_threads s))"
    have "Suc ?c \<le> length (rs_threads s)"
      using Starting runs(2) by (simp add: add_le_mono)
    then have small: "Suc ?c < 2 ^ 31" if "length (rs_stacks s) < 2 ^ 31"
      using that assms(2) by (auto simp: recover_ok_def)
    have num: "rs_num s + 1 = of_nat (Suc ?c)" using assms(2) by (simp add: recover_ok_def)
    have "length (filter offering ts1) + length (filter offering ts2) \<le> ?c"
      using runs(2) Starting offering_counted [of "rs_threads s"] by simp
    then show ?thesis
      using runs Starting assms(2) signed_above [OF small] num
      by (auto simp: recover_ok_def Let_def)
  next
    case (Offering v)
    with runs assms(2) show ?thesis by (auto simp: recover_ok_def split: if_splits)
  next
    case (TooMany v)
    with runs assms(2) show ?thesis by (auto simp: recover_ok_def)
  next
    case Leaving
    with runs assms(2) show ?thesis by (auto simp: recover_ok_def)
  qed
qed

interpretation recovering: step_invariant recover_step recover_ok
  by unfold_locales (rule recover_ok_step)

text \<open>C39: No recovered panic is lost: in every reachable state each stack is with the goroutine that reports it, in the
  channel, read, or printed, each once. At most 20 goroutines wait for a reader, whoever reads, the channel
  holds at most one stack, and the counter is the number of goroutines that have counted themselves and not left:
  as long as fewer than \<open>2^31\<close> panics were recovered.\<close>

theorem recovered_stacks_kept:
  assumes "recover_step\<^sup>*\<^sup>* new_recover s" and "length (rs_stacks s) < 2 ^ 31"
  shows "mset (rs_stacks s) =
      mset (rs_read s @ rs_chan s @ rs_printed s @ concat (map stack_of (rs_threads s))) \<and>
    length (filter offering (rs_threads s)) \<le> 20 \<and> length (rs_chan s) \<le> 1 \<and>
    rs_num s = of_nat (length (filter counted (rs_threads s)))"
proof -
  have "recover_ok s"
    using recovering.reachable [OF assms(1)] by (simp add: recover_ok_def new_recover_def)
  with assms(2) show ?thesis by (simp add: recover_ok_def ac_simps)
qed

text \<open>One panic, from its recovery to its reader.\<close>

lemma one_panic:
  fixes v :: RecoverStack
  defines "s \<equiv> \<lparr>rs_num = 0, rs_chan = [], rs_threads = [], rs_stacks = [v], rs_read = [v], rs_printed = []\<rparr>"
  shows "recover_step\<^sup>*\<^sup>* new_recover s"
proof -
  define f where "f num chan ts reads =
    \<lparr>rs_num = num, rs_chan = chan, rs_threads = ts, rs_stacks = [v], rs_read = reads, rs_printed = []\<rparr>"
    for num :: uint32 and chan ts reads
  have "recover_step new_recover (f 0 [] [Starting v] [])"
    using recover_step.recovers [of new_recover v] by (simp add: f_def new_recover_def)
  moreover have "recover_step (f 0 [] [Starting v] []) (f 1 [] [Offering v] [])"
    using recover_step.runs [of "f 0 [] [Starting v] []" "[]" "Starting v" "[]"] by (simp add: f_def word_sless_alt)
  moreover have "recover_step (f 1 [] [Offering v] []) (f 1 [v] [Leaving] [])"
    using recover_step.runs [of "f 1 [] [Offering v] []" "[]" "Offering v" "[]"] by (simp add: f_def)
  moreover have "recover_step (f 1 [v] [Leaving] []) (f 0 [v] [] [])"
    using recover_step.runs [of "f 1 [v] [Leaving] []" "[]" "Leaving" "[]"] by (simp add: f_def)
  moreover have "recover_step (f 0 [v] [] []) (f 0 [] [] [v])"
    using recover_step.reads [of "f 0 [v] [] []" v "[]"] by (simp add: f_def)
  ultimately have "recover_step\<^sup>*\<^sup>* new_recover (f 0 [] [] [v])"
    by (meson converse_rtranclp_into_rtranclp rtranclp.rtrancl_refl)
  then show ?thesis by (simp add: f_def s_def)
qed

theorem recovered_stacks_kept_witness:
  "\<exists>s. recover_step\<^sup>*\<^sup>* new_recover s \<and> rs_read s \<noteq> [] \<and> length (filter offering (rs_threads s)) \<le> 20 \<and> rs_num s = 0 \<and>
     mset (rs_stacks s) = mset (rs_read s @ rs_chan s @ rs_printed s @ concat (map stack_of (rs_threads s)))"
proof -
  let ?s = "\<lparr>rs_num = 0, rs_chan = [], rs_threads = [], rs_stacks = [\<lparr>rv_Path = [''main.go''], rv_Msg = ''nil'', rv_Time = 7\<rparr>],
    rs_read = [\<lparr>rv_Path = [''main.go''], rv_Msg = ''nil'', rv_Time = 7\<rparr>], rs_printed = []\<rparr> :: RecoverSys"
  have run: "recover_step\<^sup>*\<^sup>* new_recover ?s" by (rule one_panic)
  have "length (rs_stacks ?s) < 2 ^ 31" by simp
  from recovered_stacks_kept [OF run this] run show ?thesis
    by (intro exI [of _ ?s]) simp
qed

end
