(* ===== verification/Monitor.thy ===== *)
theory Monitor
  imports Numerals Pb
begin

text \<open>
  Package monitor: load of the processors (cpu.go), memory (mem.go), processes (linux.go), and the status that a node
  and a watcher make from them (\<open>SystemState\<close> of network/rpc/watch.go and network/watch/node.go). The contents of
  the files under /proc and the outputs of the commands are arguments, an error or a text; so is the arithmetic of
  floating point in \<open>CpuStat\<close>. Numbers are words of 64 bits, and \<open>perr\<close> gives the text of the errors of
  \<open>strconv\<close>.
\<close>

section \<open>Numbers in a text\<close>

text \<open>The first digits of the text as a number, or 0.\<close>

definition ByteSplitOnNumber :: "string \<Rightarrow> int" where
  "ByteSplitOnNumber data =
     (let bts = takeWhile is_digit (dropWhile (\<lambda>r. \<not> is_digit r) data)
      in if bts \<noteq> [] then ParseInt_digits bts else 0)"

text \<open>\<open>strings.SplitN(s, sep, n)\<close> for a separator of one character.\<close>

fun split_n :: "nat \<Rightarrow> 'a \<Rightarrow> 'a list \<Rightarrow> 'a list list" where
  "split_n 0 c s = []"
| "split_n (Suc n) c s =
     (if n \<noteq> 0 \<and> c \<in> set s then takeWhile (\<lambda>x. x \<noteq> c) s # split_n n c (tl (dropWhile (\<lambda>x. x \<noteq> c) s)) else [s])"

text \<open>\<open>strings.Fields\<close> of a text in ASCII.\<close>

definition is_space :: "char \<Rightarrow> bool" where
  "is_space c = (let n = (of_char c :: nat) in n = 32 \<or> 9 \<le> n \<and> n \<le> 13)"

fun fields_go :: "string \<Rightarrow> string \<Rightarrow> string list" where
  "fields_go acc [] = (if acc = [] then [] else [acc])"
| "fields_go acc (c # cs) =
     (if is_space c then (if acc = [] then fields_go [] cs else acc # fields_go [] cs)
      else fields_go (acc @ [c]) cs)"

definition Fields :: "string \<Rightarrow> string list" where
  "Fields s = fields_go [] s"

section \<open>Memory\<close>

record SystemMemInfo =
  mi_Total :: uint64
  mi_Used :: uint64
  mi_Free :: uint64
  mi_Cache :: uint64
  mi_Buff :: uint64

definition SystemMemInfo_zero :: SystemMemInfo where
  "SystemMemInfo_zero = \<lparr>mi_Total = 0, mi_Used = 0, mi_Free = 0, mi_Cache = 0, mi_Buff = 0\<rparr>"

definition mem_line :: "string \<Rightarrow> SystemMemInfo \<Rightarrow> SystemMemInfo" where
  "mem_line line tmp =
     (let key = hd (split_on (CHR '':'') line);
          num = (word_of_int (ByteSplitOnNumber line) :: uint64)
      in if key = ''MemTotal'' then tmp\<lparr>mi_Total := num\<rparr>
         else if key = ''MemFree'' then tmp\<lparr>mi_Free := num\<rparr>
         else if key = ''Buffers'' then tmp\<lparr>mi_Buff := num\<rparr>
         else if key = ''Cached'' then tmp\<lparr>mi_Cache := num\<rparr>
         else tmp)"

definition MemStat :: "error + string \<Rightarrow> (error option \<times> SystemMemInfo)" where
  "MemStat meminfo =
     (case meminfo of
        Inl err \<Rightarrow> (Some err, SystemMemInfo_zero)
      | Inr contents \<Rightarrow>
          let tmp = fold mem_line (split_n 5 (CHR ''\<newline>'') contents) SystemMemInfo_zero
          in (None, tmp\<lparr>mi_Used := mi_Total tmp - mi_Free tmp - mi_Buff tmp - mi_Cache tmp\<rparr>))"

section \<open>Processors\<close>

definition CpuStatUser :: nat where "CpuStatUser = 0"
definition CpuStatNice :: nat where "CpuStatNice = 1"
definition CpuStatSystem :: nat where "CpuStatSystem = 2"
definition CpuStatIdle :: nat where "CpuStatIdle = 3"
definition CpuStatIowait :: nat where "CpuStatIowait = 4"
definition CpuStatIrq :: nat where "CpuStatIrq = 5"
definition CpuStatSoftirq :: nat where "CpuStatSoftirq = 6"
definition CpuStatSteal :: nat where "CpuStatSteal = 7"

lemmas cpu_fields = CpuStatUser_def CpuStatNice_def CpuStatSystem_def CpuStatIdle_def CpuStatIowait_def
  CpuStatIrq_def CpuStatSoftirq_def CpuStatSteal_def

fun parse_fields :: "(string \<Rightarrow> error) \<Rightarrow> string list \<Rightarrow> error + uint64 list" where
  "parse_fields perr [] = Inr []"
| "parse_fields perr (f # fs) =
     (case Atoi perr f of
        Inl err \<Rightarrow> Inl (''invalid proc stat file: '' @ err)
      | Inr n \<Rightarrow> map_sum id ((#) (word_of_int n)) (parse_fields perr fs))"

definition checkCpuRun :: "(string \<Rightarrow> error) \<Rightarrow> error + string \<Rightarrow> error + (uint64 \<times> uint64)" where
  "checkCpuRun perr stat =
     (case stat of
        Inl _ \<Rightarrow> Inl ''invalid proc stat file''
      | Inr contents \<Rightarrow>
          let fields = Fields (hd (split_n 2 (CHR ''\<newline>'') contents))
          in if length fields \<noteq> 11 \<or> fields ! 0 \<noteq> ''cpu'' then Inl ''invalid statistic file''
             else
               (case parse_fields perr (tl fields) of
                  Inl err \<Rightarrow> Inl err
                | Inr nums \<Rightarrow>
                    let v = 0 # nums;
                        work = v ! CpuStatUser + v ! CpuStatNice + v ! CpuStatSystem + v ! CpuStatIrq
                             + v ! CpuStatSoftirq + v ! CpuStatSteal
                    in Inr (work, work + v ! CpuStatIdle + v ! CpuStatIowait)))"

text \<open>The differences of work and of all time between two readings; their quotient is taken in floating point.\<close>

definition CpuRate :: "(string \<Rightarrow> error) \<Rightarrow> error + string \<Rightarrow> error + string \<Rightarrow> error + (uint64 \<times> uint64)" where
  "CpuRate perr stat1 stat2 =
     (case checkCpuRun perr stat1 of
        Inl err \<Rightarrow> Inl err
      | Inr (prework, presum) \<Rightarrow>
          (case checkCpuRun perr stat2 of
             Inl err \<Rightarrow> Inl err
           | Inr (sufwork, sufsum) \<Rightarrow> Inr (sufwork - prework, sufsum - presum)))"

record SystemCpuInfo =
  ci_Core :: int
  ci_Rate :: uint64

definition CpuStat ::
    "(uint64 \<Rightarrow> uint64 \<Rightarrow> uint64) \<Rightarrow> int \<Rightarrow> (string \<Rightarrow> error) \<Rightarrow> error + string \<Rightarrow> error + string \<Rightarrow> error + SystemCpuInfo" where
  "CpuStat thousandths cores perr stat1 stat2 =
     (case CpuRate perr stat1 stat2 of
        Inl err \<Rightarrow> Inl err
      | Inr (work, ticks) \<Rightarrow> Inr \<lparr>ci_Core = cores, ci_Rate = thousandths work ticks\<rparr>)"

section \<open>Processes\<close>

record TopProc =
  tp_Pid :: int
  tp_Cpu :: string
  tp_Mem :: string
  tp_Cmd :: string
  tp_Stat :: string

definition top_row :: "(string \<Rightarrow> error) \<Rightarrow> string \<Rightarrow> TopProc option" where
  "top_row perr row =
     (let v = split_on (CHR '' '') row
      in if length v \<noteq> 5 then None
         else if v ! 0 = '''' \<or> v ! 4 = ''top'' then None
         else
           (case Atoi perr (v ! 0) of
              Inl _ \<Rightarrow> None
            | Inr num \<Rightarrow>
                if num \<le> 100 then None
                else Some \<lparr>tp_Pid = num, tp_Cpu = v ! 2, tp_Mem = v ! 3, tp_Cmd = v ! 4, tp_Stat = v ! 1\<rparr>))"

definition ShellTop :: "(string \<Rightarrow> error) \<Rightarrow> error + string \<Rightarrow> error + TopProc list" where
  "ShellTop perr out =
     (case out of
        Inl err \<Rightarrow> Inl err
      | Inr out \<Rightarrow> Inr (List.map_filter (top_row perr) (split_on (CHR ''\<newline>'') out)))"

record ServerState =
  sv_Time :: int
  sv_Top :: "TopProc list"
  sv_Cpu :: "SystemCpuInfo option"
  sv_Mem :: "SystemMemInfo option"

text \<open>With an error comes the state as far as it was filled.\<close>

definition SystemStat ::
    "bool \<Rightarrow> int \<Rightarrow> (string \<Rightarrow> error) \<Rightarrow> error + string \<Rightarrow> error + string \<Rightarrow> error + SystemCpuInfo \<Rightarrow>
     error option \<times> ServerState" where
  "SystemStat linux now perr procs meminfo cpu =
     (let tmp = \<lparr>sv_Time = now, sv_Top = [], sv_Cpu = None, sv_Mem = None\<rparr>
      in if \<not> linux then (Some ''not linux system'', tmp\<lparr>sv_Time := 0\<rparr>)
         else
           (case ShellTop perr procs of
              Inl err \<Rightarrow> (Some err, tmp)
            | Inr rows \<Rightarrow>
                (case MemStat meminfo of
                   (Some err, mem) \<Rightarrow> (Some err, tmp\<lparr>sv_Top := rows, sv_Mem := Some mem\<rparr>)
                 | (None, mem) \<Rightarrow>
                     (case cpu of
                        Inl err \<Rightarrow> (Some err, tmp\<lparr>sv_Top := rows, sv_Mem := Some mem\<rparr>)
                      | Inr cpu \<Rightarrow>
                          (None, tmp\<lparr>sv_Top := rows, sv_Mem := Some mem, sv_Cpu := Some cpu\<rparr>)))))"

section \<open>The status of a node and of a watcher\<close>

definition conn_num :: "error + string \<Rightarrow> SystemStatus \<Rightarrow> SystemStatus" where
  "conn_num files result =
     (case files of
        Inr bts \<Rightarrow> if bts \<noteq> [] then result\<lparr>ss_ConnNum := word_of_int (ByteSplitOnNumber bts)\<rparr> else result
      | Inl _ \<Rightarrow> result)"

definition mem_status :: "error + string \<Rightarrow> SystemStatus \<Rightarrow> SystemStatus" where
  "mem_status meminfo result =
     (case MemStat meminfo of
        (None, mem) \<Rightarrow> result\<lparr>ss_MemFree := mi_Free mem, ss_MemUsed := mi_Used mem\<rparr>
      | (Some _, _) \<Rightarrow> result)"

definition wser_SystemState :: "error + string \<Rightarrow> error + string \<Rightarrow> string \<Rightarrow> SystemStatus" where
  "wser_SystemState meminfo files uuid =
     conn_num files (mem_status meminfo
       \<lparr>ss_Uuid = uuid, ss_CpuRate = 0, ss_MemFree = 0, ss_MemUsed = 0, ss_ConnNum = 0\<rparr>)"

definition WatchDetail_SystemState ::
    "error + SystemCpuInfo \<Rightarrow> error + string \<Rightarrow> error + string \<Rightarrow> string \<Rightarrow> SystemStatus" where
  "WatchDetail_SystemState cpu meminfo files uuid =
     (let result = \<lparr>ss_Uuid = uuid, ss_CpuRate = 0, ss_MemFree = 0, ss_MemUsed = 0, ss_ConnNum = 0\<rparr>;
          result = (case cpu of Inr cpu \<Rightarrow> result\<lparr>ss_CpuRate := ci_Rate cpu\<rparr> | Inl _ \<Rightarrow> result)
      in conn_num files (mem_status meminfo result))"

section \<open>What is read\<close>

lemma number_in_text:
  "\<forall>c \<in> set pre. \<not> is_digit c \<Longrightarrow> (rest = [] \<or> \<not> is_digit (hd rest)) \<Longrightarrow>
     ByteSplitOnNumber (pre @ show_nat n @ rest) = min (int n) (2 ^ 63 - 1)"
proof -
  assume pre: "\<forall>c \<in> set pre. \<not> is_digit c" and rest: "rest = [] \<or> \<not> is_digit (hd rest)"
  have digits: "\<forall>c \<in> set (show_nat n). is_digit c"
    using show_nat_digits [of n] by (simp add: list_all_iff)
  have "dropWhile (\<lambda>r. \<not> is_digit r) (pre @ show_nat n @ rest) = show_nat n @ rest"
    using pre digits by (cases "show_nat n") (auto simp: dropWhile_append2)
  moreover have "takeWhile is_digit (show_nat n @ rest) = show_nat n"
    using digits rest by (cases rest) auto
  ultimately show ?thesis by (simp add: ByteSplitOnNumber_def ParseInt_show)
qed

lemma digit_codes: "is_digit c \<Longrightarrow> 48 \<le> (of_char c :: nat) \<and> (of_char c :: nat) \<le> 57"
  by (simp add: is_digit_def Let_def)

lemma show_nat_space: "list_all (\<lambda>c. \<not> is_space c) (show_nat n)"
  using show_nat_digits [of n] by (auto simp: list_all_iff is_space_def Let_def dest!: digit_codes)

lemma fields_go_word:
  "list_all (\<lambda>c. \<not> is_space c) f \<Longrightarrow> fields_go acc (f @ cs) = fields_go (acc @ f) cs"
  by (induction f arbitrary: acc) auto

lemma Fields_join:
  "list_all (list_all (\<lambda>c. \<not> is_space c)) fs \<Longrightarrow> Fields (join_on (CHR '' '') fs) = filter (\<lambda>f. f \<noteq> []) fs"
  unfolding Fields_def
proof (induction "CHR '' ''" fs rule: join_on.induct)
  case (2 f)
  then show ?case using fields_go_word [of f "[]" "[]"] by simp
next
  case (3 f g fs)
  then show ?case
    using fields_go_word [of f "[]" "CHR '' '' # join_on CHR '' '' (g # fs)"] by (auto simp: is_space_def)
qed simp

lemma parse_fields_show:
  "\<forall>x \<in> set xs. x < 2 ^ 63 \<Longrightarrow> parse_fields perr (map show_nat xs) = Inr (map of_nat xs)"
  by (induction xs) (simp_all add: Atoi_show)

lemma join_on_set: "set (join_on c fs) \<subseteq> insert c (\<Union> (set ` set fs))"
  by (induction c fs rule: join_on.induct) auto

lemma first_line:
  "CHR ''\<newline>'' \<notin> set s \<Longrightarrow> hd (split_n 2 (CHR ''\<newline>'') (s @ CHR ''\<newline>'' # rest)) = s"
  by (simp add: numeral_2_eq_2 takeWhile_tail) (induction s, auto)

text \<open>C40: From the first line of /proc/stat the code reads the columns one place off: the work it reports is that of
  user, nice, iowait, irq and softirq, and the sum adds system and idle. The column steal is in neither, iowait
  counts as work, and system does not.\<close>

theorem cpu_fields_shifted:
  assumes "length xs = 10" and "\<forall>x \<in> set xs. x < 2 ^ 63"
  shows "checkCpuRun perr (Inr (join_on (CHR '' '') (''cpu'' # '''' # map show_nat xs) @ CHR ''\<newline>'' # rest)) =
    (let user = of_nat (xs ! 0); nice = of_nat (xs ! 1); system = of_nat (xs ! 2); idle = of_nat (xs ! 3);
         iowait = of_nat (xs ! 4); irq = of_nat (xs ! 5); softirq = of_nat (xs ! 6);
         work = user + nice + iowait + irq + softirq
     in Inr (work, work + system + idle))"
proof -
  let ?fs = "''cpu'' # '''' # map show_nat xs"
  let ?s = "join_on (CHR '' '') ?fs"
  have plain: "CHR ''\<newline>'' \<notin> set f \<and> list_all (\<lambda>c. \<not> is_space c) f" if "f \<in> set ?fs" for f
    using that show_nat_space show_nat_no [of "CHR ''\<newline>''"]
    by (auto simp: is_space_def is_digit_def Let_def)
  then have "CHR ''\<newline>'' \<notin> set ?s" using join_on_set [of "CHR '' ''" ?fs] by auto
  moreover have "Fields ?s = ''cpu'' # map show_nat xs"
    using plain Fields_join [of ?fs] by (simp add: list_all_iff filter_map o_def)
  ultimately have "Fields (hd (split_n 2 (CHR ''\<newline>'') (?s @ CHR ''\<newline>'' # rest))) = ''cpu'' # map show_nat xs"
    by (simp only: first_line not_False_eq_True)
  then have "checkCpuRun perr (Inr (?s @ CHR ''\<newline>'' # rest)) =
    (let v = 0 # map of_nat xs;
         work = v ! 0 + v ! 1 + v ! 2 + v ! 5 + v ! 6 + v ! 7
     in Inr (work, work + v ! 3 + v ! 4))"
    unfolding checkCpuRun_def sum.case Let_def cpu_fields
    using assms parse_fields_show [of xs perr] by simp
  moreover obtain a b c d e f g h i j where "xs = [a, b, c, d, e, f, g, h, i, j]"
    using assms(1) by (auto simp: numeral_eq_Suc length_Suc_conv)
  ultimately show ?thesis by (simp add: Let_def ac_simps)
qed

theorem cpu_fields_shifted_witness:
  "checkCpuRun (\<lambda>_. ''bad'')
     (Inr (join_on (CHR '' '') (''cpu'' # '''' # map show_nat [100, 1, 50, 900, 7, 2, 3, 40, 0, 0]) @ ''\<newline>cpu0'')) =
   Inr (113, 1063)"
  using cpu_fields_shifted [of "[100, 1, 50, 900, 7, 2, 3, 40, 0, 0]" "\<lambda>_. ''bad''" "''cpu0''"] by (simp add: Let_def)

section \<open>Memory\<close>

text \<open>A line of /proc/meminfo without its end.\<close>

definition mem_row :: "string \<Rightarrow> nat \<Rightarrow> nat \<Rightarrow> string" where
  "mem_row name pad n = name @ '':'' @ replicate pad (CHR '' '') @ show_nat n @ '' kB''"

lemma mem_row_line:
  assumes "\<forall>c \<in> set name. \<not> is_digit c \<and> c \<noteq> CHR '':''" and "n < 2 ^ 63"
  shows "hd (split_on (CHR '':'') (mem_row name pad n @ rest)) = name"
    and "ByteSplitOnNumber (mem_row name pad n @ rest) = int n"
proof -
  have "CHR '':'' \<notin> set name" using assms(1) by auto
  then show "hd (split_on (CHR '':'') (mem_row name pad n @ rest)) = name"
    by (simp add: mem_row_def split_on_append)
  have blank: "\<not> is_digit (CHR '' '')" "\<not> is_digit (CHR '':'')" by (simp_all add: is_digit_def)
  have "\<forall>c \<in> set (name @ '':'' @ replicate pad (CHR '' '')). \<not> is_digit c"
    using assms(1) blank by (simp only: set_append set_replicate_conv_if list.set) (simp split: if_splits)
  moreover have "'' kB'' @ rest = [] \<or> \<not> is_digit (hd ('' kB'' @ rest))" using blank by simp
  ultimately have "ByteSplitOnNumber ((name @ '':'' @ replicate pad (CHR '' '')) @ show_nat n @ '' kB'' @ rest) =
    min (int n) (2 ^ 63 - 1)" by (rule number_in_text)
  moreover have "int n \<le> 2 ^ 63 - 1" using assms(2) by simp
  ultimately show "ByteSplitOnNumber (mem_row name pad n @ rest) = int n"
    unfolding mem_row_def append_assoc by (simp only: min_absorb1)
qed

lemma mem_row_plain:
  "CHR ''\<newline>'' \<notin> set name \<Longrightarrow> CHR ''\<newline>'' \<notin> set (mem_row name pad n)"
  using show_nat_no [of "CHR ''\<newline>''" n] by (auto simp: mem_row_def is_digit_def)

lemma split_n_line:
  "c \<notin> set s \<Longrightarrow> split_n (Suc (Suc n)) c (s @ c # rest) = s # split_n (Suc n) c rest"
proof -
  assume c: "c \<notin> set s"
  then have "tl (dropWhile (\<lambda>x. x \<noteq> c) (s @ c # rest)) = rest" by (induction s) auto
  moreover have "takeWhile (\<lambda>x. x \<noteq> c) (s @ c # rest) = s" using c by (induction s) auto
  ultimately show ?thesis
    by (subst split_n.simps(2)) (simp del: split_n.simps)
qed

lemma split_n_last: "split_n (Suc 0) c s = [s]"
  by simp

lemma mem_line_row:
  assumes "\<forall>c \<in> set name. \<not> is_digit c \<and> c \<noteq> CHR '':''" and "n < 2 ^ 63"
  shows "mem_line (mem_row name pad n @ rest) tmp =
    (if name = ''MemTotal'' then tmp\<lparr>mi_Total := of_nat n\<rparr>
     else if name = ''MemFree'' then tmp\<lparr>mi_Free := of_nat n\<rparr>
     else if name = ''Buffers'' then tmp\<lparr>mi_Buff := of_nat n\<rparr>
     else if name = ''Cached'' then tmp\<lparr>mi_Cache := of_nat n\<rparr>
     else tmp)"
proof -
  have "word_of_int (int n) = (of_nat n :: uint64)" by simp
  then show ?thesis by (simp only: mem_line_def Let_def mem_row_line [OF assms])
qed

text \<open>From a /proc/meminfo in the order of the kernel the code reads total, free, buffer and cache memory, and
  computes the used memory as what remains of the total, modulo \<open>2^64\<close> when the parts exceed it.
  The fifth line may be followed by anything.\<close>

lemma mem_stat_reads:
  assumes "all < 2 ^ 63" and "free < 2 ^ 63" and "avail < 2 ^ 63" and "buff < 2 ^ 63" and "cache < 2 ^ 63"
  shows "MemStat (Inr (mem_row ''MemTotal'' p1 all @ CHR ''\<newline>'' # mem_row ''MemFree'' p2 free @ CHR ''\<newline>'' #
      mem_row ''MemAvailable'' p3 avail @ CHR ''\<newline>'' # mem_row ''Buffers'' p4 buff @ CHR ''\<newline>'' #
      mem_row ''Cached'' p5 cache @ rest)) =
    (None, \<lparr>mi_Total = of_nat all, mi_Used = word_of_int (int all - int free - int buff - int cache),
            mi_Free = of_nat free, mi_Cache = of_nat cache, mi_Buff = of_nat buff\<rparr>)"
proof -
  let ?a = "mem_row ''MemTotal'' p1 all" and ?b = "mem_row ''MemFree'' p2 free"
  let ?c = "mem_row ''MemAvailable'' p3 avail" and ?d = "mem_row ''Buffers'' p4 buff"
  let ?e = "mem_row ''Cached'' p5 cache @ rest" and ?n = "CHR ''\<newline>''"
  have no: "?n \<notin> set ?a" "?n \<notin> set ?b" "?n \<notin> set ?c" "?n \<notin> set ?d"
    by (simp_all add: mem_row_plain)
  have five: "split_n 5 ?n s = split_n (Suc (Suc (Suc (Suc (Suc 0))))) ?n s" for s :: string
    by (simp add: numeral_eq_Suc)
  have "split_n 5 ?n (?a @ ?n # ?b @ ?n # ?c @ ?n # ?d @ ?n # ?e) = [?a, ?b, ?c, ?d, ?e]"
    by (simp only: five split_n_line no split_n_last not_False_eq_True)
  then show ?thesis
    using mem_line_row [OF _ assms(1), of _ p1 "[]"] mem_line_row [OF _ assms(2), of _ p2 "[]"]
      mem_line_row [OF _ assms(3), of _ p3 "[]"] mem_line_row [OF _ assms(4), of _ p4 "[]"]
      mem_line_row [OF _ assms(5), of _ p5 rest]
    by (simp add: MemStat_def SystemMemInfo_zero_def is_digit_def)
qed

lemma mem_stat_reads_witness:
  "MemStat (Inr (mem_row ''MemTotal'' 8 16000 @ ''\<newline>'' @ mem_row ''MemFree'' 9 4000 @ ''\<newline>'' @
      mem_row ''MemAvailable'' 4 9000 @ ''\<newline>'' @ mem_row ''Buffers'' 9 500 @ ''\<newline>'' @
      mem_row ''Cached'' 10 3500 @ ''\<newline>SwapCached: 7 kB'')) =
    (None, \<lparr>mi_Total = 16000, mi_Used = 8000, mi_Free = 4000, mi_Cache = 3500, mi_Buff = 500\<rparr>)"
  using mem_stat_reads [of 16000 4000 9000 500 3500 8 9 4 9 10 "''\<newline>SwapCached: 7 kB''"] by simp

section \<open>Processes\<close>

text \<open>A row of the output of \<open>top\<close>, cut down to five columns.\<close>

definition proc_row :: "TopProc \<Rightarrow> string" where
  "proc_row p = join_on (CHR '' '') [show_nat (nat (tp_Pid p)), tp_Stat p, tp_Cpu p, tp_Mem p, tp_Cmd p]"

definition plain_proc :: "TopProc \<Rightarrow> bool" where
  "plain_proc p \<longleftrightarrow> 0 \<le> tp_Pid p \<and> tp_Pid p < 2 ^ 63 \<and>
     (\<forall>f \<in> {tp_Stat p, tp_Cpu p, tp_Mem p, tp_Cmd p}. CHR '' '' \<notin> set f \<and> CHR ''\<newline>'' \<notin> set f)"

lemma top_row_proc:
  assumes "plain_proc p"
  shows "top_row perr (proc_row p) = (if tp_Pid p \<le> 100 \<or> tp_Cmd p = ''top'' then None else Some p)"
proof -
  let ?fs = "[show_nat (nat (tp_Pid p)), tp_Stat p, tp_Cpu p, tp_Mem p, tp_Cmd p]"
  have "split_on (CHR '' '') (proc_row p) = ?fs"
    unfolding proc_row_def using assms show_nat_no [of "CHR '' ''"]
    by (intro split_join_on) (auto simp: plain_proc_def is_digit_def)
  moreover have "Atoi perr (show_nat (nat (tp_Pid p))) = Inr (tp_Pid p)"
    using assms Atoi_show [of "nat (tp_Pid p)" perr] by (simp add: plain_proc_def nat_less_iff)
  ultimately show ?thesis by (simp add: top_row_def Let_def)
qed

lemma proc_row_plain: "plain_proc p \<Longrightarrow> CHR ''\<newline>'' \<notin> set (proc_row p)"
  using show_nat_no [of "CHR ''\<newline>''"] by (auto simp: proc_row_def plain_proc_def is_digit_def)

text \<open>
  From the rows of any processes come back, in their order, those with a number above 100 that are not \<open>top\<close>
  itself.
\<close>

lemma shell_top_reads:
  assumes "\<forall>p \<in> set ps. plain_proc p" and "ps \<noteq> []"
  shows "ShellTop perr (Inr (join_on (CHR ''\<newline>'') (map proc_row ps))) =
    Inr (filter (\<lambda>p. 100 < tp_Pid p \<and> tp_Cmd p \<noteq> ''top'') ps)"
proof -
  have "split_on (CHR ''\<newline>'') (join_on (CHR ''\<newline>'') (map proc_row ps)) = map proc_row ps"
    using assms proc_row_plain by (intro split_join_on) auto
  moreover have "List.map_filter (top_row perr) (map proc_row ps) =
      filter (\<lambda>p. 100 < tp_Pid p \<and> tp_Cmd p \<noteq> ''top'') ps"
    using assms(1) by (induction ps) (auto simp: List.map_filter_simps top_row_proc)
  ultimately show ?thesis by (simp add: ShellTop_def)
qed

end
