(* ===== verification/Watcher.thy ===== *)
theory Watcher
  imports NodeLife WatchServer Timer Common
begin

text \<open>
  The start of a watcher, \<open>NewWatcher\<close> of network/watch/watch.go, which puts the parts together: a node
  (\<open>WatchClient\<close>), the catalogue with its file, the handlers as registered functions, the servers of the node and the
  timers (\<open>InitTimer\<close> of network/rpc/node.go and the sweep of the table of nodes). The outside is one record: the
  operating system, the network, the file system, the clock, and what reflection tells about the handlers.

  A watcher is its node, its \<open>WatchApi\<close> and its ticker; the callbacks of the ticker are numbers.
\<close>

section \<open>Timers\<close>

definition call_ClearConn :: nat where "call_ClearConn = 0"
definition call_Heartbeats :: nat where "call_Heartbeats = 1"
definition call_ClearNodeExprie :: nat where "call_ClearNodeExprie = 2"

definition InitTimer :: "int \<Rightarrow> string \<Rightarrow> TimerData \<Rightarrow> TimerData" where
  "InitTimer now name t =
     (let t = snd (AddDurationFunction now (10 * 1000000000) (-1) (Some call_ClearConn) t)
      in if name \<noteq> WatchNodeName
         then snd (AddDurationFunction now (HeartbeatInterval * 1000000) (-1) (Some call_Heartbeats) t)
         else t)"

section \<open>The start\<close>

record watcher_env =
  we_net :: net_env
  we_pb :: pb_codec
  we_hash :: "string \<Rightarrow> uint64 \<Rightarrow> string"
  we_pid :: uint64
  we_addrs :: "error + address list"
  we_free :: "nat \<Rightarrow> error + uint64"
  we_join :: "string \<Rightarrow> string \<Rightarrow> string"
  we_file :: file_env
  we_disk :: "string \<rightharpoonup> chunk list"
  we_methods :: "Method list"
  we_order :: "string list"
  we_tcp :: "error option"
  we_udp :: "error option"
  we_rows :: "FuncMsg list"
  we_zone :: int
  we_clock :: "nat \<Rightarrow> int"

record running_watcher =
  wr_node :: NodeDetail
  wr_api :: WatchApi
  wr_timer :: TimerData

definition WatchClient :: "watcher_env \<Rightarrow> NodeConfig \<Rightarrow> NodeDetail option \<times> error option" where
  "WatchClient v config =
     newClient (we_net v) (we_pb v) (we_hash v) (we_pid v) (GetLocalIp (we_addrs v)) (we_free v) config"

definition node_config :: "string \<Rightarrow> WatcherConfig \<Rightarrow> NodeConfig" where
  "node_config host conf =
     \<lparr>cf_Version = [], cf_NodeName = WatchNodeName, cf_Watchers = [], cf_IPAddr = host, cf_HeartBeatTime = 0,
      cf_TcpPort = wc_TcpPort conf, cf_TcpListenOff = False, cf_UdpPort = wc_UdpPort conf, cf_UdpListenOn = False,
      cf_HttpPort = wc_HttpPort conf, cf_HttpListenOff = False\<rparr>"

definition start_watcher :: "watcher_env \<Rightarrow> string \<Rightarrow> NodeDetail \<Rightarrow> (error option \<times> running_watcher option) go option" where
  "start_watcher v path node =
     (let api = new_watch_api (nd_info node) (we_clock v 0 sdiv 1000000)
      in case InitEnvFile (we_join v) (we_file v) path ((wa_fmsg api)\<lparr>fm_disk := we_disk v\<rparr>) of
           None \<Rightarrow> None
         | Some (Panic p) \<Rightarrow> Some (Panic p)
         | Some (Ret (_, f)) \<Rightarrow>
             Some (go_bind (Register (we_order v) ''WatchApi'' (we_methods v) node) (\<lambda>(err, node).
               if err \<noteq> None then Ret (err, None)
               else
                 (case RunServer (we_net v) (we_pb v) (we_tcp v) (we_udp v) (we_rows v) False node of
                    (Some err, _, _) \<Rightarrow> Ret (Some err, None)
                  | (None, _, node) \<Rightarrow>
                      let t = InitTimer (we_clock v 1) (ni_Name (nd_info node)) (newTimer (200 * 1000000) (we_zone v));
                          t = snd (AddDurationFunction (we_clock v 2) (5 * 1000000000) (-1) (Some call_ClearNodeExprie) t)
                      in Ret (None, Some \<lparr>wr_node = node,
                           wr_api = api\<lparr>wa_fmsg := f, wa_base := nd_info node\<rparr>, wr_timer = t\<rparr>)))))"

definition NewWatcher :: "watcher_env \<Rightarrow> WatcherConfig \<Rightarrow> (error option \<times> running_watcher option) go option" where
  "NewWatcher v conf =
     (if wc_TcpPort conf = 0 \<and> wc_UdpPort conf = 0 \<and> wc_HttpPort conf = 0
      then Some (Ret (Some ''cannot all listen port is null'', None))
      else
        (case (if wc_Host conf = '''' \<or> wc_Host conf = ''127.0.0.1'' then GetLocalIp (we_addrs v) else Inr (wc_Host conf)) of
           Inl err \<Rightarrow> Some (Ret (Some err, None))
         | Inr host \<Rightarrow>
             (case WatchClient v (node_config host conf) of
                (Some node, None) \<Rightarrow> start_watcher v (wc_ConfigPath conf) node
              | (_, err) \<Rightarrow> Some (Ret (err, None)))))"

section \<open>The catalogue at the start\<close>

lemma InitEnvFile_empty:
  assumes "fm_ids f = Map.empty" and "fm_str f = Map.empty"
  shows "\<exists>r. InitEnvFile jn e path f = Some r \<and>
    (\<forall>err g. r = Ret (err, g) \<longrightarrow> fm_ids g = Map.empty \<and> fm_str g = Map.empty)"
proof -
  let ?f = "f\<lparr>fm_name := (if path = '''' then ''./funclist.conf'' else jn path ''funclist.conf''), fm_ops := Suc (fm_ops f)\<rparr>"
  let ?rows = "split_on Newline (case fm_disk ?f (fm_name ?f) of None \<Rightarrow> [] | Some cs \<Rightarrow> cs)"
  obtain n where n: "load_rows e ?rows ?f = Some (Ret (?f\<lparr>fm_num := n\<rparr>))"
    using load_rows_catalogue by blast
  show ?thesis
    using n assms
    by (auto simp: InitEnvFile_def Let_def open_file_def write_data_none)
qed

lemma empty_catalogue: "fm_str f = Map.empty \<Longrightarrow> catalogue_of f = Map.empty"
  by (simp add: catalogue_of_def GetStr_def fun_eq_iff)

lemma new_catalogue: "fm_ids (wa_fmsg (new_watch_api node now)) = Map.empty"
    "fm_str (wa_fmsg (new_watch_api node now)) = Map.empty"
  by (simp_all add: new_watch_api_def new_funcmap_def)

lemma start_watcher_returns: "start_watcher v path node \<noteq> None"
proof -
  let ?api = "new_watch_api (nd_info node) (we_clock v 0 sdiv 1000000)"
  obtain r where "InitEnvFile (we_join v) (we_file v) path ((wa_fmsg ?api)\<lparr>fm_disk := we_disk v\<rparr>) = Some r"
    using InitEnvFile_empty [of "(wa_fmsg ?api)\<lparr>fm_disk := we_disk v\<rparr>" "we_join v" "we_file v" path]
    by (auto simp: new_catalogue)
  then show ?thesis by (cases r) (auto simp: start_watcher_def Let_def)
qed

text \<open>Starting a watcher always returns, whatever the file holds and whatever the file operations do: the lines of
  the file are refused one by one, and nothing is written in a loop.\<close>

lemma new_watcher_returns: "NewWatcher v conf \<noteq> None"
  by (auto simp: NewWatcher_def start_watcher_returns simp del: not_None_eq split: sum.splits prod.splits option.splits)

lemma runServer_watcher:
  assumes "runServer e pc tcp udp rows n = (None, n')" and "ni_Name (nd_info n) = WatchNodeName"
  shows "nd_info n' = nd_info n"
  using assms fold_PutMsg_mild by (auto simp: runServer_def mild_def split: if_splits)

lemma start_watcherD:
  assumes "start_watcher v path node = Some (Ret (None, Some w))" and "ni_Name (nd_info node) = WatchNodeName"
  obtains n1 where "Register (we_order v) ''WatchApi'' (we_methods v) node = Ret (None, n1)"
    and "runServer (we_net v) (we_pb v) (we_tcp v) (we_udp v) (we_rows v) n1 = (None, wr_node w)"
    and "fm_ids (wa_fmsg (wr_api w)) = Map.empty" and "fm_str (wa_fmsg (wr_api w)) = Map.empty"
    and "wa_node (wr_api w) = \<lparr>nmap_name = Map.empty, nmap_uuid = Map.empty\<rparr>" and "Center (wr_api w)"
    and "wr_timer w = snd (AddDurationFunction (we_clock v 2) (5 * 1000000000) (-1) (Some call_ClearNodeExprie)
      (InitTimer (we_clock v 1) WatchNodeName (newTimer (200 * 1000000) (we_zone v))))"
proof -
  let ?api = "new_watch_api (nd_info node) (we_clock v 0 sdiv 1000000)"
  obtain err f where f: "InitEnvFile (we_join v) (we_file v) path ((wa_fmsg ?api)\<lparr>fm_disk := we_disk v\<rparr>) = Some (Ret (err, f))"
    using assms(1) by (auto simp: start_watcher_def Let_def split: option.splits go.splits)
  from assms(1) f obtain err1 n1 where n1: "Register (we_order v) ''WatchApi'' (we_methods v) node = Ret (err1, n1)"
    by (auto simp: start_watcher_def Let_def go_bind_Ret_iff)
  obtain err2 n2 where run: "runServer (we_net v) (we_pb v) (we_tcp v) (we_udp v) (we_rows v) n1 = (err2, n2)"
    by fastforce
  from assms(1) f n1 run have err: "err1 = None" "err2 = None"
    by (auto simp: start_watcher_def Let_def RunServer_def split: if_splits option.splits)
  with assms(1) f n1 run have w: "wr_node w = n2" "wr_api w = ?api\<lparr>wa_fmsg := f, wa_base := nd_info n2\<rparr>"
      "wr_timer w = snd (AddDurationFunction (we_clock v 2) (5 * 1000000000) (-1) (Some call_ClearNodeExprie)
        (InitTimer (we_clock v 1) (ni_Name (nd_info n2)) (newTimer (200 * 1000000) (we_zone v))))"
    by (auto simp: start_watcher_def Let_def RunServer_def)
  note n1 = n1 [unfolded err] and run = run [unfolded err]
  have "ni_Name (nd_info n1) = WatchNodeName" using Register_tables(7) [OF n1] assms(2) by simp
  with runServer_watcher [OF run] have "ni_Name (nd_info n2) = WatchNodeName" by simp
  moreover have "fm_ids f = Map.empty" "fm_str f = Map.empty"
    using InitEnvFile_empty [of "(wa_fmsg ?api)\<lparr>fm_disk := we_disk v\<rparr>" "we_join v" "we_file v" path] f
    by (auto simp: new_catalogue)
  moreover have "wa_node ?api = \<lparr>nmap_name = Map.empty, nmap_uuid = Map.empty\<rparr>" "el_center (wa_elect ?api)"
    by (simp_all add: new_watch_api_def)
  ultimately show thesis
    using n1 run w by (intro that [of n1]) (simp_all add: Center_def)
qed

lemma watcher_node:
  assumes "WatchClient v (node_config host conf) = (Some node, None)"
  shows "ni_Name (nd_info node) = WatchNodeName" and "ni_Uport (nd_info node) = 0"
    and "ni_Host (nd_info node) = (case GetLocalIp (we_addrs v) of Inr ip \<Rightarrow> ip | Inl _ \<Rightarrow> ''0.0.0.0'')"
    and "Inr (ni_Tport (nd_info node)) = (if wc_TcpPort conf = 0 then we_free v 0 else Inr (wc_TcpPort conf))"
    and "Inr (ni_Hport (nd_info node)) = (if wc_HttpPort conf = 0 then we_free v 2 else Inr (wc_HttpPort conf))"
  using assms
  by (auto simp: WatchClient_def node_config_def newClient_def choose_port_def fresh_node_def Let_def
      split: sum.splits option.splits prod.splits if_splits dest!: initMsgByte_tables(7))

lemma publish_ports:
  fixes n :: NodeDetail
  shows "ni_Uport (nd_info (publish server order n)) = ni_Uport (nd_info n) \<and>
    ni_Tport (nd_info (publish server order n)) = ni_Tport (nd_info n) \<and>
    ni_Host (nd_info (publish server order n)) = ni_Host (nd_info n)"
  by (induction order arbitrary: n) (auto simp: Let_def httpCall_def split: option.splits)

lemma Register_ports:
  fixes n :: NodeDetail
  assumes "Register order sname ms n = Ret (err, n')"
  shows "ni_Uport (nd_info n') = ni_Uport (nd_info n)" and "ni_Tport (nd_info n') = ni_Tport (nd_info n)"
    and "ni_Host (nd_info n') = ni_Host (nd_info n)"
  using assms by (auto simp: Register_def go_bind_Ret_iff publish_ports split: option.splits)

lemma NewWatcherD:
  assumes "NewWatcher v conf = Some (Ret (None, Some w))"
  obtains host node where "WatchClient v (node_config host conf) = (Some node, None)"
    and "start_watcher v (wc_ConfigPath conf) node = Some (Ret (None, Some w))"
  using assms by (auto simp: NewWatcher_def split: if_splits sum.splits prod.splits option.splits)

text \<open>C31: A watcher that has started listens at no UDP port, whatever port it was given; it listens at a TCP port,
  a free one if none was given; its address is the one of the machine, whatever address it was given. Its catalogue is
  empty, whatever the file held, it is the centre, and its invariant holds from then on.\<close>

theorem started_watcher:
  assumes "NewWatcher v conf = Some (Ret (None, Some w))"
  shows "ni_Uport (nd_info (wr_node w)) = 0 \<and>
    Inr (ni_Tport (nd_info (wr_node w))) = (if wc_TcpPort conf = 0 then we_free v 0 else Inr (wc_TcpPort conf)) \<and>
    ni_Host (nd_info (wr_node w)) = (case GetLocalIp (we_addrs v) of Inr ip \<Rightarrow> ip | Inl _ \<Rightarrow> ''0.0.0.0'') \<and>
    catalogue_of (wa_fmsg (wr_api w)) = Map.empty \<and> Center (wr_api w) \<and>
    (\<forall>e api. reachable e (wr_api w) api \<longrightarrow> watch_ok api)"
proof -
  obtain host node where node: "WatchClient v (node_config host conf) = (Some node, None)"
    and start: "start_watcher v (wc_ConfigPath conf) node = Some (Ret (None, Some w))"
    using assms by (rule NewWatcherD)
  obtain n1 where n1: "Register (we_order v) ''WatchApi'' (we_methods v) node = Ret (None, n1)"
    and run: "runServer (we_net v) (we_pb v) (we_tcp v) (we_udp v) (we_rows v) n1 = (None, wr_node w)"
    and tables: "fm_ids (wa_fmsg (wr_api w)) = Map.empty" "fm_str (wa_fmsg (wr_api w)) = Map.empty"
      "wa_node (wr_api w) = \<lparr>nmap_name = Map.empty, nmap_uuid = Map.empty\<rparr>" "Center (wr_api w)"
    using start watcher_node(1) [OF node] by (rule start_watcherD)
  have "nd_info (wr_node w) = nd_info n1"
    using run Register_tables(7) [OF n1] watcher_node(1) [OF node] by (intro runServer_watcher) simp_all
  moreover have "watch_ok (wr_api w)"
    using tables by (simp add: watch_ok_def reg_ok_def nodes_ok_def)
  ultimately show ?thesis
    using Register_ports [OF n1] watcher_node [OF node] tables watcher.reachable
    by (simp add: empty_catalogue)
qed

section \<open>The timers of a watcher\<close>

text \<open>The ticker of a watcher when it starts to run.\<close>

definition watcher_ticker :: "watcher_env \<Rightarrow> running_watcher \<Rightarrow> timer_sys" where
  "watcher_ticker v w = \<lparr>ts_td = wr_timer w, ts_go = [], ts_now = we_clock v 2, ts_log = []\<rparr>"

lemma start_timer:
  assumes "t = snd (AddDurationFunction now2 (5 * 1000000000) (-1) (Some f)
      (InitTimer now1 WatchNodeName (newTimer (200 * 1000000) zone)))"
  shows "timer_inv 2 (GetTimeMillAdd now2 (5 * 1000000000)) 5000 (-1)
      \<lparr>ts_td = t, ts_go = [], ts_now = now2, ts_log = []\<rparr>"
proof -
  let ?t = "InitTimer now1 WatchNodeName (newTimer (200 * 1000000) zone)"
  let ?s = "\<lparr>ts_td = ?t, ts_go = [], ts_now = now2, ts_log = []\<rparr>"
  let ?d = "\<lparr>tf_next = GetTimeMillAdd now2 (5 * 1000000000), tf_uniq = 0, tf_interval = 5000, tf_times = -1,
    tf_type = FuncOnly, tf_func = f, tf_msg = 0\<rparr>"
  have "timer_ok ?s" and uniq: "td_uniq ?t = 1"
    by (auto simp: timer_ok_def InitTimer_def AddDurationFunction_def arm_def newTimer_def put_def Let_def split: if_splits)
  moreover have "arm now2 ?d ?t = (2, t)"
    using assms uniq by (simp add: AddDurationFunction_def arm_def signed_divide_int_def Let_def)
  ultimately show ?thesis
    using arm_inv [of ?s ?d 2 t] by simp
qed


section \<open>A watcher that starts\<close>

text \<open>An outside on which everything works, and settings that start a watcher on it.\<close>

definition calm_env :: watcher_env where
  "calm_env = \<lparr>we_net = mute_env, we_pb = toy_pb, we_hash = (\<lambda>_ _. ''u''), we_pid = 1,
     we_addrs = Inr [IPNet True True ''127.0.0.1'', IPNet False True ''10.0.0.7''], we_free = (\<lambda>k. Inr (4000 + of_nat k)),
     we_join = (\<lambda>a b. a @ ''/'' @ b), we_file = \<lparr>fe_ok = (\<lambda>_. True), fe_order = (\<lambda>_. [])\<rparr>,
     we_disk = [''./funclist.conf'' \<mapsto> [MsgText FuncMsg_zero, Newline]],
     we_methods = [echo_method], we_order = [''Echo''], we_tcp = None, we_udp = None, we_rows = WatchFmsg, we_zone = 0,
     we_clock = (\<lambda>k. int k)\<rparr>"

definition udp_config :: WatcherConfig where
  "udp_config = \<lparr>wc_Host = ''192.168.0.1'', wc_TcpPort = 0, wc_UdpPort = 53, wc_HttpPort = 0, wc_ConfigPath = []\<rparr>"

lemma calm_node: "\<exists>n. WatchClient calm_env (node_config ''192.168.0.1'' udp_config) = (Some n, None)"
  by (simp add: WatchClient_def node_config_def newClient_def calm_env_def udp_config_def choose_port_def initMsgByte_def
      toy_pb_def Let_def tcp.MakeReqBody_nil udp.MakeReqBody_nil)

lemma calm_start: "\<exists>w. NewWatcher calm_env udp_config = Some (Ret (None, Some w))"
proof -
  obtain node where node: "WatchClient calm_env (node_config ''192.168.0.1'' udp_config) = (Some node, None)"
    using calm_node by blast
  obtain n1 where n1: "Register [''Echo''] ''WatchApi'' [echo_method] node = Ret (None, n1)"
    using echo_registers_node by blast
  obtain n2 where n2: "runServer mute_env toy_pb None None WatchFmsg n1 = (None, n2)"
    using Register_tables(7) [OF n1] watcher_node(1) [OF node] by (simp add: runServer_def)
  obtain err f where f: "InitEnvFile (we_join calm_env) (we_file calm_env) ''''
      ((wa_fmsg (new_watch_api (nd_info node) 0))\<lparr>fm_disk := we_disk calm_env\<rparr>) = Some (Ret (err, f))"
    by (simp add: InitEnvFile_def new_watch_api_def new_funcmap_def calm_env_def open_file_def Let_def FuncApi_zero_def)
  show ?thesis
    using node n1 n2 f
    by (simp add: NewWatcher_def start_watcher_def udp_config_def calm_env_def RunServer_def Let_def)
qed

theorem started_watcher_witness:
  "\<exists>w. NewWatcher calm_env udp_config = Some (Ret (None, Some w)) \<and> wc_UdpPort udp_config = 53 \<and>
    ni_Uport (nd_info (wr_node w)) = 0 \<and> ni_Tport (nd_info (wr_node w)) = 4000 \<and>
    wc_Host udp_config = ''192.168.0.1'' \<and> ni_Host (nd_info (wr_node w)) = ''10.0.0.7''"
proof -
  obtain w where w: "NewWatcher calm_env udp_config = Some (Ret (None, Some w))" using calm_start by blast
  from started_watcher [OF this] w show ?thesis
    by (intro exI [of _ w]) (simp add: udp_config_def calm_env_def GetLocalIp_def)
qed

text \<open>Six seconds later: the timer has moved to the near table, the sweep has started it, and it has run.\<close>

definition clear_timer :: TimerFunc where
  "clear_timer = \<lparr>tf_next = 10000, tf_uniq = 1, tf_interval = 10000, tf_times = -1, tf_type = FuncOnly,
     tf_func = call_ClearConn, tf_msg = 0\<rparr>"

definition sweep_timer :: TimerFunc where
  "sweep_timer = \<lparr>tf_next = 5000, tf_uniq = 2, tf_interval = 5000, tf_times = -1, tf_type = FuncOnly,
     tf_func = call_ClearNodeExprie, tf_msg = 0\<rparr>"

definition wheel_with :: "(uint64 \<rightharpoonup> TimerFunc) \<Rightarrow> (uint64 \<rightharpoonup> TimerFunc) \<Rightarrow> nat \<Rightarrow> TimerData" where
  "wheel_with one two k = \<lparr>td_one = one, td_two = two, td_zone = 0, td_uniq = 2, td_part = 1000, td_next = k\<rparr>"

lemma calm_timer:
  "snd (AddDurationFunction 2 5000000000 (-1) (Some call_ClearNodeExprie) (InitTimer 1 WatchNodeName (newTimer 200000000 0))) =
     wheel_with Map.empty [1 \<mapsto> clear_timer, 2 \<mapsto> sweep_timer] 0"
  by (simp add: AddDurationFunction_def InitTimer_def arm_def newTimer_def put_def wheel_with_def clear_timer_def
      sweep_timer_def GetTimeMill_def GetTimeMillAdd_def signed_divide_int_def Let_def)

lemma six_seconds:
  fixes now :: int
  defines "now \<equiv> 6000000000"
  shows "checkSave now (wheel_with Map.empty [1 \<mapsto> clear_timer, 2 \<mapsto> sweep_timer] 0) = wheel_with [2 \<mapsto> sweep_timer] [1 \<mapsto> clear_timer] 0"
    and "tick False now [2] (wheel_with [2 \<mapsto> sweep_timer] [1 \<mapsto> clear_timer] 0) = ([sweep_timer], wheel_with Map.empty [1 \<mapsto> clear_timer] 1)"
    and "run now True sweep_timer (wheel_with Map.empty [1 \<mapsto> clear_timer] 1) =
      (True, wheel_with Map.empty [1 \<mapsto> clear_timer, 2 \<mapsto> sweep_timer\<lparr>tf_next := 10000\<rparr>] 1)"
  by (auto simp: now_def checkSave_def wheel_with_def clear_timer_def sweep_timer_def tick_def sweep_one_def is_due_def run_def
      RunFunc_def put_def GetTimeMill_def signed_divide_int_def fun_eq_iff Let_def List.map_filter_simps)


section \<open>The program that runs a watcher\<close>

text \<open>\<open>main\<close> of examples/watch/main.go, on the values of its flags; it then waits for a signal. Their default values.\<close>

definition watch_main ::
    "watcher_env \<Rightarrow> uint64 \<Rightarrow> uint64 \<Rightarrow> uint64 \<Rightarrow> string \<Rightarrow> running_watcher option go option" where
  "watch_main v tcpPort udpPort httpPort envPath =
     (case NewWatcher v \<lparr>wc_Host = '''', wc_TcpPort = tcpPort, wc_UdpPort = udpPort, wc_HttpPort = httpPort,
         wc_ConfigPath = envPath\<rparr> of
        None \<Rightarrow> None
      | Some (Panic p) \<Rightarrow> Some (Panic p)
      | Some (Ret (Some err, w)) \<Rightarrow> Some (Panic ExplicitPanic)
      | Some (Ret (None, w)) \<Rightarrow> Some (Ret w))"

definition default_main :: "watcher_env \<Rightarrow> running_watcher option go option" where
  "default_main v = watch_main v 8080 8081 8082 ''./''"

lemma newClient_some: "newClient e pc h pid ip free config \<noteq> (None, None)"
  by (auto simp: newClient_def Let_def split: sum.splits option.splits prod.splits if_splits)

lemma NewWatcher_none: "NewWatcher v conf \<noteq> Some (Ret (None, None))"
proof
  assume "NewWatcher v conf = Some (Ret (None, None))"
  then obtain host node where "WatchClient v (node_config host conf) = (Some node, None)"
      "start_watcher v (wc_ConfigPath conf) node = Some (Ret (None, None))"
    using newClient_some
    by (fastforce simp: NewWatcher_def WatchClient_def split: if_splits sum.splits prod.splits option.splits)
  then show False
    by (auto simp: start_watcher_def Let_def RunServer_def go_bind_Ret_iff split: option.splits go.splits if_splits prod.splits)
qed

text \<open>The program gets as far as waiting for a signal only with a watcher that runs.\<close>

lemma watch_main_runs: "watch_main v t u h path = Some (Ret r) \<Longrightarrow> r \<noteq> None"
  using NewWatcher_none by (cases r) (auto simp: watch_main_def split: option.splits go.splits)

end
