(* ===== verification/Spec2Isabelle.thy ===== *)
theory Spec2Isabelle
  imports Typing Race WatchServer NodeLife SendAll Timer Logs Common Monitor Watcher
begin

text \<open>
  Gorigin is a Go framework for remote procedure calls between nodes: a node registers the methods of a
  struct, a discovery server (the watcher) keeps the catalogue of all methods and nodes, and clients call
  methods by name over TCP, UDP or HTTP. The theories below model it function by function; names of
  definitions are those of the Go functions (with the prefix \<open>comm_\<close>, \<open>rpc_\<close>, \<open>wser_\<close> or \<open>WatchApi_\<close> where a name
  occurs twice), and record fields are the struct fields with a prefix.

  \<^bold>\<open>The parts and their theories\<close>

  \<^item> \<open>Prelude\<close>: Go values and effects shared by all theories: bytes and words, results of code that may
    panic (\<open>'a go\<close>), slices, \<open>copy\<close>, splitting of strings; the locales \<open>step_invariant\<close>, which every step relation below
    is interpreted in, and \<open>step_decreasing\<close>, for a quantity that no step increases.
  \<^item> \<open>Naming\<close> (network/comm/recv.go, network/comm/watch.go, network/rpc/comm.go): the reserved interface numbers
    and the functions that take api names apart. \<open>Pb\<close>: the messages of package pb.
  \<^item> \<open>Framing\<close> (network/rpc/encode.go, the frame sizes of tcp.go and udp.go): requests and answers cut into
    frames, and the frame decoder with the panics of its slice expressions. The locale \<open>frame_layout\<close> holds
    for both layouts, \<open>tcp\<close> and \<open>udp\<close>; its lemmas give what a frame decodes to.
  \<^item> \<open>Reassembly\<close> and \<open>Race\<close> (\<open>ParseResp\<close> of network/rpc/conns.go): frames joined to messages, as one atomic
    step per frame that refines a receiver of sets of frames, and as goroutines that share the table of
    pointers, where frames can be lost and messages handed out twice.
  \<^item> \<open>Transport\<close> (the read loops and channels of network/rpc/conns.go): buffers filled from a stream of bytes,
    answers handed to waiting callers. \<open>Buffers\<close> (the pools of tcp.go and udp.go): the buffers that all read loops and their
    goroutines share, in a store, with every interleaving; no buffer is held twice, and what is decoded is what was read.
  \<^item> \<open>Service\<close> (network/rpc/service.go, protocal.go, http.go): registration by reflection, dispatch of a
    request to a method, marshalling, and HTTP. \<open>Typing\<close>: every method is called with arguments of its types.
  \<^item> \<open>Conns\<close> (conns.go, the dialling functions of tcp.go and udp.go, the table of connections of fmsg.go): the
    state \<open>NodeDetail\<close> of a node and its connections. The relations \<open>keeps\<close> and \<open>grows\<close> say what opening, testing
    and closing connections leaves alone.
  \<^item> \<open>NodeClient\<close> (fmsg.go, watch.go, node.go): the table of functions, the calls of watchers, the start of a
    node and its heartbeat; the relation \<open>mild\<close> is what all of them keep.
  \<^item> \<open>Invoke\<close> (invoke.go, api.go): calls, sends, calls with several arguments, sends to all nodes and calls with
    raw bytes, from the public functions to the frames. \<open>Dispatch\<close> (builtin.go, \<open>ParseRspByte\<close> of encode.go, the
    loops of tcp.go and udp.go with the one that accepts connections, the HTTP server of \<open>runServer\<close>): the serving side.
  \<^item> \<open>SendAll\<close> (\<open>sendall\<close> of invoke.go): its goroutines in every order, with the variables they share; they end, report on
    every connection, and without failures deliver; with failures their reports can be wrong.
  \<^item> \<open>NodeLife\<close>: the operations of a node as steps, the invariant of its states, and what follows for the cache
    of functions, the watcher, the table of connections and the request numbers.
  \<^item> \<open>Logs\<close> (package logs): settings, writing of records, and the goroutines that check for a new file, fill the
    cache and repeat failed writes, as a step relation over the shared state; what the end of a log leaves unwritten or writes twice.
  \<^item> \<open>WatchRegistry\<close> (network/watch/fmsg.go) and \<open>WatchServer\<close> (the rest of network/watch): the catalogue with its
    file, which refines an abstract catalogue, the table of nodes, the handlers and the election, with the
    reachable states of a watcher. \<open>Watcher\<close> (\<open>NewWatcher\<close> of network/watch/watch.go): the start of a watcher, made of a node, the
    catalogue, the handlers, the servers and the timers, and what holds of the watcher that has started, with the program
    that runs it (examples/watch/main.go).
  \<^item> \<open>Timer\<close> (package timer): the two tables of timers, the ticker, the goroutines that run timers, stamps and
    zones, as a step relation with its schedule invariant, and the end of the ticker.
  \<^item> \<open>Common\<close> (package common): rows of a text, the address of the machine, keys and signatures, and the goroutines
    that report recovered panics. \<open>Monitor\<close> (package monitor and the two functions \<open>SystemState\<close>): the figures read
    from the files under /proc. \<open>Numerals\<close>: decimal numbers, read and printed.

  The last section of this theory puts the parts together: a call over TCP from the caller's frames to
  the decoded result, and a call over HTTP from the registration of the function to the decoded result.

  \<^bold>\<open>What the model takes as given\<close>

  The network is an environment (\<open>net_env\<close>): the outcome of the \<open>k\<close>-th operation, of the \<open>k\<close>-th wait for an answer,
  of the \<open>k\<close>-th post, and the clock; every theorem holds for every environment unless it names one. The
  protobuf and JSON libraries are the records \<open>codec\<close> and \<open>pb_codec\<close> (theorems about round trips assume
  \<open>faithful_codec\<close>: what the library encodes, it decodes to the same value), reflection is the record \<open>Method\<close>
  of what it tells about a method, and the bodies of methods are the parameter \<open>exec\<close>. Goroutines are
  interleaved where the code depends on it (\<open>Race\<close>, \<open>Buffers\<close>, \<open>SendAll\<close>, \<open>Timer\<close>, \<open>Logs\<close>, \<open>Common\<close>); the goroutines that serve the
  connections of a node and their buffers run one after the other. Loops that may not end (\<open>upEnvFile\<close>, the
  catching up of \<open>checkTime\<close>) are partial functions, and where they return is proved. There is no fuel.

  \<^bold>\<open>Not modelled\<close>

  The generated code of package pb beyond the fields of the messages; \<open>HttpPingTest\<close>, which asks the network, an operation
  of the environment; the interface types of network/node.go and timer/api.go, which have no bodies; and the ticker as a
  field of a node: its timers are in theory \<open>Watcher\<close>. What \<open>proto.Unmarshal\<close> leaves in a message
  when it fails is not modelled either: such a message keeps its initial value.
\<close>

section \<open>Calls from end to end\<close>

lemma rev_client_server:
  "\<exists>n (ns :: NodeDetail) ns'. QueryFunc talk_env talk_pb (fmsg_FuncID (func_msg echo_api)) '''' ns = (Some (func_msg echo_api), ns') \<and>
     nd_funcs ns = [''Svc'' \<mapsto> rev_server] \<and> nc_types (nd_conn n 0) = ConnWithTCP \<and> nc_tconn (nd_conn n 0) = Some 0 \<and>
     ni_Uuid (nd_info n) = ''u'' \<and> \<not> nc_wrong (nd_conn n 0) \<and> conn_uuid n 0 = ''''"
proof -
  obtain n0 where n0: "newClient mute_env toy_pb (\<lambda>_ _. ''u'') 1 (Inr ''h'') (\<lambda>_. Inr 7) client_config = (Some n0, None)"
    and s: "wt_master (nd_wser n0) = Some 0" "nc_types (nd_conn n0 0) = ConnWithTCP" "nc_tconn (nd_conn n0 0) = Some 0"
    and c: "ni_Uuid (nd_info n0) = ''u''" "\<not> nc_wrong (nd_conn n0 0)" "nd_ser n0 = [[] \<mapsto> 0]"
    using client_starts by blast
  have ok: "funcs_ok n0" "conn_uuid n0 0 = ''''"
    using newClient_ok [OF n0] conns_okD [of n0 "[]" 0] c(3) by (simp_all add: node_ok_def)
  define ns where "ns = n0\<lparr>nd_funcs := [''Svc'' \<mapsto> rev_server]\<rparr>"
  have "funcs_ok ns" using ok(1) by (simp add: funcs_ok_def ns_def)
  with s obtain ns' where "QueryFunc talk_env talk_pb (fmsg_FuncID (func_msg echo_api)) '''' ns = (Some (func_msg echo_api), ns')"
    using client_asks [of ns] by (auto simp: ns_def)
  moreover have "nd_funcs ns = [''Svc'' \<mapsto> rev_server]" by (simp add: ns_def)
  ultimately show ?thesis using s(2,3) c(1,2) ok(2) by blast
qed



text \<open>C25: A call over HTTP from one end to the other, starting at the registration: a node with an HTTP port that has registered
  a struct serves every function of it with one argument at the path that clients post to, and a client whose post gets
  the response of that handler returns the value the method produced, without an error. When the response encodes to no
  bytes at all, the client's variable keeps its old value.\<close>

theorem http_call_round_trip:
  fixes n ns ns' :: NodeDetail
  assumes codec: "faithful_codec cd ty" "sv_proto s \<noteq> JSONPB" "fmsg_Protocal fmsg = sv_proto s"
      "MarshalInterface cd (sv_proto s) v = Inr bts" "MarshalInterface cd (sv_proto s) x = Inr rsp"
    and registers: "Register order sname ms ns = Ret (None, ns')" "ni_Hport (nd_info ns) \<noteq> 0" "k \<in> set order"
      "fmsg_ApiName fmsg = sname @ ''.'' @ k"
    and serves: "nd_funcs ns' sname = Some s" "sv_funcs s k = Some f" "sf_api f = Call" "sf_req f = Some (ty v)"
      "sf_rsp f = Some (ty x)" "exec (sv_sname s) (sf_method f) [Receiver, Arg v, Arg (zero (ty x))] = Ret (None, x)"
    and conn: "conn_uuid n p \<noteq> ni_Uuid (nd_info n)" "\<not> nc_wrong (nd_conn n p)" "nc_types (nd_conn n p) = ConnWithHTTP"
  shows "\<exists>w. ServeHTTP es pc dec cd zero exec (http_path fmsg) (Inr bts) ns' = Ret (Some w, ns') \<and>
    (ne_post e (nd_ops n) = Inr w \<longrightarrow>
       (\<exists>n2. conn_try e cd fmsg bts (Some (ty x, old)) num p n =
         (Some (call_resp None (conn_info n2 p) ''HTTP'' (if rsp = [] then None else Some x)), n2)))"
proof -
  have path: "nd_hlist ns' (sname @ ''.'' @ k) = Some (s, f)" "server_ok s"
    using Register_path [OF registers(1-3) serves(1,2)] serves(3) by simp_all
  then have ok: "sf_ok f" using serves(2) by (simp add: server_ok_def)
  have other: "''/'' @ sname @ ''.'' @ k \<noteq> ''/'' @ BUILT_IN_NAME"
  proof
    assume "''/'' @ sname @ ''.'' @ k = ''/'' @ BUILT_IN_NAME"
    then have "set (sname @ ''.'' @ k) = set BUILT_IN_NAME" by (simp only: same_append_eq)
    moreover have "CHR ''.'' \<in> set (sname @ ''.'' @ k)" by simp
    ultimately have "CHR ''.'' \<in> set BUILT_IN_NAME" by (simp only:)
    then show False by (simp add: BUILT_IN_NAME_def)
  qed
  let ?w = "makeHttpResp rsp None fresh_response"
  have "http_handler cd zero exec s f bts = Ret ?w"
    using http_handler_Call [where zero = zero and exec = exec, OF codec(1,2) ok serves(3,4) codec(4) serves(5)
        faithful_codecD(4) [OF codec(1)] serves(6)] codec(5)
    by (simp add: reply_def)
  with path(1) other have "ServeHTTP es pc dec cd zero exec (http_path fmsg) (Inr bts) ns' = Ret (Some ?w, ns')"
    by (simp add: ServeHTTP_def http_path_def registers(4))
  moreover have "\<exists>n2. conn_try e cd fmsg bts (Some (ty x, old)) num p n =
      (Some (call_resp None (conn_info n2 p) ''HTTP'' (if rsp = [] then None else Some x)), n2)"
    if "ne_post e (nd_ops n) = Inr ?w"
    using that conn Unmarshal_Marshal [OF codec(1,2,5)] codec(3)
    by (simp add: conn_try_def post_http_def postHttpApi_answer)
  ultimately show ?thesis by blast
qed
definition echo_server :: Server where
  "echo_server = \<lparr>sv_proto = PROTO, sv_sname = ''Svc'', sv_funcs = [''Echo'' \<mapsto>
     (new_func echo_method)\<lparr>sf_req := Some msg_type, sf_rsp := Some msg_type, sf_api := Call\<rparr>]\<rparr>"

definition ping_msg :: FuncMsg where
  "ping_msg = FuncMsg_zero\<lparr>fmsg_FuncID := 200, fmsg_ApiName := ''Svc.Echo'', fmsg_ServName := ''Svc'', fmsg_FuncName := ''Echo'',
     fmsg_ApiType := Call, fmsg_Protocal := PROTO\<rparr>"

lemma echo_server_registers:
  fixes n :: NodeDetail
  shows "\<exists>n'. Register [''Echo''] ''Svc'' [echo_method] n = Ret (None, n') \<and> nd_funcs n' ''Svc'' = Some echo_server"
proof -
  have "CheckProtocal (me_Name echo_method) = (PROTO, False)" by (simp add: CheckProtocal_def echo_method_def)
  moreover have "sf_fname (new_func echo_method) = ''Echo''" by (simp add: new_func_def echo_method_def)
  ultimately have "parseFunc [echo_method] \<lparr>sv_proto = PROTO, sv_sname = ''Svc'', sv_funcs = Map.empty\<rparr> = Ret (None, echo_server)"
    by (simp add: echo_parses echo_server_def)
  then show ?thesis
    by (simp add: Register_def publish_fields del: parseFunc.simps(1) parseFunc_Cons publish.simps)
qed

theorem http_call_round_trip_witness:
  "\<exists>ns n n2 w. ServeHTTP mute_env toy_pb (\<lambda>_. Inl []) bytes_codec (\<lambda>_. []) rev_method (http_path ping_msg) (Inr [1, 2]) ns =
      Ret (Some w, ns) \<and>
    conn_try (mute_env\<lparr>ne_post := \<lambda>_. Inr w\<rparr>) bytes_codec (ping_msg) [1, 2] (Some (msg_type, [])) 5 0 n =
      (Some (call_resp None (conn_info n2 0) ''HTTP'' (Some [2, 1])), n2)"
proof -
  obtain n0 where n0: "newClient mute_env toy_pb (\<lambda>_ _. ''u'') 1 (Inr ''h'') (\<lambda>_. Inr 7) client_config = (Some n0, None)"
    and c: "ni_Uuid (nd_info n0) = ''u''" "\<not> nc_wrong (nd_conn n0 0)" "nd_ser n0 = [[] \<mapsto> 0]"
    using client_starts by blast
  have uuid: "conn_uuid n0 0 = ''''"
    using newClient_ok [OF n0] conns_okD [of n0 "[]" 0] c(3) by (simp add: node_ok_def)
  define n where "n = upd_conn 0 (\<lambda>c. c\<lparr>nc_types := ConnWithHTTP\<rparr>) n0"
  define ns where "ns = n0\<lparr>nd_info := (nd_info n0)\<lparr>ni_Hport := 80\<rparr>\<rparr>"
  obtain ns' where ns': "Register [''Echo''] ''Svc'' [echo_method] ns = Ret (None, ns')" "nd_funcs ns' ''Svc'' = Some echo_server"
    using echo_server_registers by blast
  define f where "f = (new_func echo_method)\<lparr>sf_req := Some msg_type, sf_rsp := Some msg_type, sf_api := Call\<rparr>"
  have f: "sv_funcs echo_server ''Echo'' = Some f" "sf_api f = Call" "sf_req f = Some msg_type" "sf_rsp f = Some msg_type"
    "rev_method (sv_sname echo_server) (sf_method f) [Receiver, Arg [1, 2], Arg []] = Ret (None, [2, 1])"
    "sv_proto echo_server \<noteq> JSONPB" "fmsg_Protocal (ping_msg) = sv_proto echo_server"
    "MarshalInterface bytes_codec (sv_proto echo_server) b = Inr b" for b
    using rev_setting(10) by (simp_all add: echo_server_def f_def rev_server_def ping_msg_def)
  have conn: "conn_uuid n 0 \<noteq> ni_Uuid (nd_info n)" "\<not> nc_wrong (nd_conn n 0)" "nc_types (nd_conn n 0) = ConnWithHTTP"
    using c uuid by (simp_all add: n_def upd_conn_def)
  have "ni_Hport (nd_info ns) \<noteq> 0" "''Echo'' \<in> set [''Echo'']" "fmsg_ApiName ping_msg = ''Svc'' @ ''.'' @ ''Echo''"
    by (simp_all add: ns_def ping_msg_def)
  note served = http_call_round_trip [where ty = "\<lambda>_. msg_type" and v = "[1, 2]" and x = "[2, 1]" and zero = "\<lambda>_. []"
      and exec = rev_method and old = "[]" and es = mute_env and pc = toy_pb and dec = "\<lambda>_. Inl []" and num = 5,
      OF rev_setting(1) f(6-8) f(8) ns'(1) this ns'(2) f(1-5) conn]
  obtain w where w: "ServeHTTP mute_env toy_pb (\<lambda>_. Inl []) bytes_codec (\<lambda>_. []) rev_method (http_path ping_msg) (Inr [1, 2]) ns' =
      Ret (Some w, ns')"
    using served [of mute_env] by blast
  with served [of "mute_env\<lparr>ne_post := \<lambda>_. Inr w\<rparr>"] obtain n2 where
    "conn_try (mute_env\<lparr>ne_post := \<lambda>_. Inr w\<rparr>) bytes_codec (ping_msg) [1, 2] (Some (msg_type, [])) 5 0 n =
      (Some (call_resp None (conn_info n2 0) ''HTTP'' (if [2, 1 :: byte] = [] then None else Some [2, 1])), n2)" by auto
  with w show ?thesis by (intro exI [of _ ns'] exI [of _ n] exI [of _ n2] exI [of _ w]) simp
qed

end
